(* ===== verification/Prelude.thy ===== *)
theory Prelude
  imports Main "HOL-Library.Word"
begin

unbundle bit_operations_syntax

section \<open>Prelude: failures, machine types, bytes and list updates\<close>

text \<open>
  What the component theories share.

  \<^item> \<open>failure\<close> lists the ways a C++ routine of the library stops without returning: a
    \<open>th_assert\<close> that does not hold (\<^verbatim>\<open>src/common/th_assert.h\<close>, the build does not define
    \<^verbatim>\<open>NDEBUG\<close>), an access outside an object, a null pointer that is followed, a non-recursive
    mutex that the same thread takes twice, a call of \<^verbatim>\<open>exit\<close>. A fallible routine returns
    \<open>failure + 'a\<close>; \<open>rbind\<close> runs the next statement when the previous one returned.
  \<^item> The machine types of \<^verbatim>\<open>src/common/types.h\<close>: \<open>Request_id\<close> is unsigned and 64 bits wide,
    \<open>Seqno\<close> is a signed long long whose overflow the language leaves undefined, so it is an
    \<^typ>\<open>int\<close>. The build is for a 32-bit machine (\<^verbatim>\<open>-m32\<close> in \<^verbatim>\<open>Makefile.common\<close>), little endian.
  \<^item> Copies between integers and bytes (\<^verbatim>\<open>memcpy\<close> of an \<open>int\<close> or a \<open>Request_id\<close>).
\<close>

named_theorems model_defs \<open>definitions of the model that proofs by evaluation unfold\<close>
named_theorems post \<open>rules for what results satisfy\<close>
named_theorems kept \<open>invariants kept by the operations of a component\<close>

type_synonym byte = "8 word"
type_synonym u32 = "32 word"
type_synonym u64 = "64 word"
type_synonym request_id = "64 word"
type_synonym seqno = int

subsection \<open>Failing computations\<close>

datatype failure =
    Assert_failed
  | Out_of_bounds
  | Null_deref
  | Uninitialised
  | Deadlock
  | Process_exit

type_synonym 'a result = "failure + 'a"

definition rbind :: "'a result \<Rightarrow> ('a \<Rightarrow> 'b result) \<Rightarrow> 'b result" where
  "rbind m k = (case m of Inl e \<Rightarrow> Inl e | Inr x \<Rightarrow> k x)"

definition th_assert :: "bool \<Rightarrow> unit result" where
  "th_assert b = (if b then Inr () else Inl Assert_failed)"

lemma rbind_Inl [simp]: "rbind (Inl e) k = Inl e"
  by (simp add: rbind_def)

lemma rbind_Inr [simp]: "rbind (Inr x) k = k x"
  by (simp add: rbind_def)

lemma rbind_assoc: "rbind (rbind m f) g = rbind m (\<lambda>x. rbind (f x) g)"
  by (cases m) auto

lemma rbind_eq_Inr: "rbind m k = Inr y \<longleftrightarrow> (\<exists>x. m = Inr x \<and> k x = Inr y)"
  by (cases m) auto

lemma rbind_eq_Inl: "rbind m k = Inl e \<longleftrightarrow> m = Inl e \<or> (\<exists>x. m = Inr x \<and> k x = Inl e)"
  by (cases m) auto

lemma rbind_cong [fundef_cong]:
  "m = m' \<Longrightarrow> (\<And>x. m' = Inr x \<Longrightarrow> k x = k' x) \<Longrightarrow> rbind m k = rbind m' k'"
  by (cases m') auto

text \<open>\<open>yields P r\<close>: the result of \<open>r\<close>, if it returns one, satisfies \<open>P\<close>.\<close>

definition yields :: "('a \<Rightarrow> bool) \<Rightarrow> 'a result \<Rightarrow> bool" where
  "yields P r \<longleftrightarrow> (\<forall>x. r = Inr x \<longrightarrow> P x)"

lemma yieldsD: "yields P r \<Longrightarrow> r = Inr x \<Longrightarrow> P x"
  by (simp add: yields_def)

lemma yields_bind [post]: "(\<And>x. m = Inr x \<Longrightarrow> yields P (k x)) \<Longrightarrow> yields P (rbind m k)"
  by (auto simp: yields_def rbind_eq_Inr)

lemma yields_if [post]: "(b \<Longrightarrow> yields P x) \<Longrightarrow> (\<not> b \<Longrightarrow> yields P y) \<Longrightarrow> yields P (if b then x else y)"
  by simp

lemma yields_prod [post]: "(\<And>a b. p = (a, b) \<Longrightarrow> yields P (f a b)) \<Longrightarrow> yields P (case p of (a, b) \<Rightarrow> f a b)"
  by (cases p) simp

lemma yields_option [post]: "(x = None \<Longrightarrow> yields P n) \<Longrightarrow> (\<And>a. x = Some a \<Longrightarrow> yields P (f a)) \<Longrightarrow> yields P (case x of None \<Rightarrow> n | Some a \<Rightarrow> f a)"
  by (cases x) auto

lemma yields_Inl [post]: "yields P (Inl e)"
  by (simp add: yields_def)

lemma th_assert_True [simp]: "b \<Longrightarrow> th_assert b = Inr ()"
  by (simp add: th_assert_def)

lemma th_assert_False [simp]: "\<not> b \<Longrightarrow> th_assert b = Inl Assert_failed"
  by (simp add: th_assert_def)

lemma th_assert_Inr_iff [simp]: "th_assert b = Inr u \<longleftrightarrow> b"
  by (simp add: th_assert_def)

text \<open>A \<open>for\<close> loop over the indices of a list, its body a fallible change of the state.\<close>

fun for_loop :: "('s \<Rightarrow> 'i \<Rightarrow> 's result) \<Rightarrow> 'i list \<Rightarrow> 's \<Rightarrow> 's result" where
  "for_loop f [] s = Inr s"
| "for_loop f (i # is) s = rbind (f s i) (for_loop f is)"

lemma for_loop_append: "for_loop f (is @ js) s = rbind (for_loop f is s) (for_loop f js)"
  by (induction "is" arbitrary: s) (auto simp: rbind_def split: sum.split)

lemma for_loop_sim:
  assumes "\<And>s x i. R s x \<Longrightarrow> i \<in> set is \<Longrightarrow> \<exists>s'. f s i = Inr s' \<and> R s' (g x i)" "R s x"
  shows "\<exists>s'. for_loop f is s = Inr s' \<and> R s' (foldl g x is)"
  using assms
proof (induction "is" arbitrary: s x)
  case Nil
  then show ?case by simp
next
  case (Cons i "is")
  then obtain s1 where "f s i = Inr s1" "R s1 (g x i)" by (meson list.set_intros(1))
  moreover from this Cons have "\<exists>s'. for_loop f is s1 = Inr s' \<and> R s' (foldl g (g x i) is)"
    by (meson list.set_intros(2))
  ultimately show ?case by simp
qed

subsection \<open>Little-endian bytes\<close>

fun le_bytes :: "nat \<Rightarrow> nat \<Rightarrow> byte list" where
  "le_bytes 0 n = []"
| "le_bytes (Suc k) n = word_of_nat n # le_bytes k (n div 256)"

fun le_nat :: "byte list \<Rightarrow> nat" where
  "le_nat [] = 0"
| "le_nat (b # bs) = unat b + 256 * le_nat bs"

lemma length_le_bytes [simp]: "length (le_bytes k n) = k"
  by (induction k arbitrary: n) auto

lemma le_nat_le_bytes [simp]: "le_nat (le_bytes k n) = n mod 256 ^ k"
proof (induction k arbitrary: n)
  case 0
  show ?case by simp
next
  case (Suc k)
  have "unat (word_of_nat n :: byte) = n mod 256"
    by (simp add: unat_of_nat)
  with Suc.IH show ?case
    by (simp add: mod_mult2_eq)
qed

lemma le_nat_bound: "le_nat bs < 256 ^ length bs"
proof (induction bs)
  case Nil
  show ?case by simp
next
  case (Cons b bs)
  have "unat b < 256"
    using unsigned_less [of b, where ?'a = nat] by simp
  with Cons.IH show ?case by simp
qed

lemma le_bytes_le_nat [simp]: "le_bytes (length bs) (le_nat bs) = bs"
proof (induction bs)
  case Nil
  show ?case by simp
next
  case (Cons b bs)
  have b: "unat b < 256"
    using unsigned_less [of b, where ?'a = nat] by simp
  have "(unat b + 256 * le_nat bs) div 256 = le_nat bs"
    using b by simp
  moreover have "(word_of_nat (unat b + 256 * le_nat bs) :: byte) = b"
  proof -
    have "(256 :: byte) * v = 0" for v
    proof -
      have "(256 :: byte) = 0" by simp
      then show ?thesis by (simp only: mult_zero_left)
    qed
    then show ?thesis by simp
  qed
  ultimately show ?case using Cons.IH by simp
qed

lemma le_nat_inject: "length as = length bs \<Longrightarrow> le_nat as = le_nat bs \<Longrightarrow> as = bs"
  by (metis le_bytes_le_nat)

definition u32_bytes :: "u32 \<Rightarrow> byte list" where
  "u32_bytes w = le_bytes 4 (unat w)"

definition bytes_u32 :: "byte list \<Rightarrow> u32" where
  "bytes_u32 bs = word_of_nat (le_nat bs)"

definition u64_bytes :: "u64 \<Rightarrow> byte list" where
  "u64_bytes w = le_bytes 8 (unat w)"

definition bytes_u64 :: "byte list \<Rightarrow> u64" where
  "bytes_u64 bs = word_of_nat (le_nat bs)"

definition int32_bytes :: "int \<Rightarrow> byte list" where
  "int32_bytes i = u32_bytes (word_of_int i)"

definition bytes_int32 :: "byte list \<Rightarrow> int" where
  "bytes_int32 bs = sint (bytes_u32 bs)"

lemma length_u32_bytes [simp]: "length (u32_bytes w) = 4"
  by (simp add: u32_bytes_def)

lemma length_u64_bytes [simp]: "length (u64_bytes w) = 8"
  by (simp add: u64_bytes_def)

lemma length_int32_bytes [simp]: "length (int32_bytes i) = 4"
  by (simp add: int32_bytes_def)

lemma bytes_u32_u32_bytes [simp]: "bytes_u32 (u32_bytes w) = w"
proof -
  have "unat w < 256 ^ 4"
    using unsigned_less [of w, where ?'a = nat] by simp
  then show ?thesis
    by (simp add: bytes_u32_def u32_bytes_def)
qed

lemma bytes_u64_u64_bytes [simp]: "bytes_u64 (u64_bytes w) = w"
proof -
  have "unat w < 256 ^ 8"
    using unsigned_less [of w, where ?'a = nat] by simp
  then show ?thesis
    by (simp add: bytes_u64_def u64_bytes_def)
qed

lemma u32_bytes_bytes_u32: "length bs = 4 \<Longrightarrow> u32_bytes (bytes_u32 bs) = bs"
  using le_nat_bound [of bs] le_bytes_le_nat [of bs]
  by (simp add: bytes_u32_def u32_bytes_def unat_of_nat)

lemma u64_bytes_bytes_u64: "length bs = 8 \<Longrightarrow> u64_bytes (bytes_u64 bs) = bs"
  using le_nat_bound [of bs] le_bytes_le_nat [of bs]
  by (simp add: bytes_u64_def u64_bytes_def unat_of_nat)

text \<open>Code equations that stay on words, for proofs by evaluation.\<close>

lemma bytes_u32_code [code]: "bytes_u32 bs = foldr (\<lambda>b w. ucast b + 256 * w) bs 0"
proof (induction bs)
  case Nil
  show ?case by (simp add: bytes_u32_def)
next
  case (Cons b bs)
  have "(word_of_nat (unat b) :: u32) = ucast b" by simp
  then show ?case using Cons by (simp add: bytes_u32_def)
qed

lemma u32_bytes_code [code]:
  "u32_bytes w = [ucast w, ucast (drop_bit 8 w), ucast (drop_bit 16 w), ucast (drop_bit 24 w)]"
proof -
  have e: "(word_of_nat (unat w div 2 ^ k) :: byte) = ucast (drop_bit k w)" for k
  proof -
    have "unat w div 2 ^ k = drop_bit k (unat w)"
      by (simp only: drop_bit_eq_div)
    also have "\<dots> = unat (drop_bit k w)"
      using take_bit_nat_eq_self [OF unsigned_less [of w, where ?'a = nat]]
      by (simp add: unsigned_drop_bit_eq)
    finally have "unat w div 2 ^ k = unat (drop_bit k w)" .
    then show ?thesis by (simp add: of_nat_unat)
  qed
  have four: "(4 :: nat) = Suc (Suc (Suc (Suc 0)))" by simp
  have "u32_bytes w = [word_of_nat (unat w div 2 ^ 0), word_of_nat (unat w div 2 ^ 8),
      word_of_nat (unat w div 2 ^ 16), word_of_nat (unat w div 2 ^ 24)]"
    unfolding u32_bytes_def four le_bytes.simps by (simp add: div_mult2_eq [symmetric])
  then show ?thesis
    unfolding e by simp
qed

definition int32_range :: "int \<Rightarrow> bool" where
  "int32_range i \<longleftrightarrow> - (2 ^ 31) \<le> i \<and> i < 2 ^ 31"

lemma bytes_int32_int32_bytes [simp]: "int32_range i \<Longrightarrow> bytes_int32 (int32_bytes i) = i"
  by (simp add: bytes_int32_def int32_bytes_def int32_range_def
      sint_sbintrunc' signed_take_bit_int_eq_self)

lemma bytes_int32_range: "int32_range (bytes_int32 bs)"
  using sint_range_size [of "bytes_u32 bs"]
  by (simp add: bytes_int32_def int32_range_def word_size)

lemma int32_bytes_bytes_int32: "length bs = 4 \<Longrightarrow> int32_bytes (bytes_int32 bs) = bs"
  by (simp add: bytes_int32_def int32_bytes_def u32_bytes_bytes_u32)

subsection \<open>Reading a range of a byte buffer\<close>

definition read_bytes :: "byte list \<Rightarrow> nat \<Rightarrow> nat \<Rightarrow> byte list result" where
  "read_bytes m off len =
     (if off + len \<le> length m then Inr (take len (drop off m)) else Inl Out_of_bounds)"

lemma read_bytes_append_left:
  "off + len \<le> length xs \<Longrightarrow> read_bytes (xs @ ys) off len = read_bytes xs off len"
  by (simp add: read_bytes_def)

lemma read_bytes_append_right:
  "length xs \<le> off \<Longrightarrow> read_bytes (xs @ ys) off len = read_bytes ys (off - length xs) len"
  by (auto simp: read_bytes_def)

lemma read_bytes_length: "read_bytes m off len = Inr bs \<Longrightarrow> length bs = len"
  by (auto simp: read_bytes_def split: if_splits)

subsection \<open>Lists\<close>

lemma length_filter_list_update:
  assumes "i < length xs" "\<not> P (xs ! i)" "P x"
  shows "length (filter P (xs[i := x])) = Suc (length (filter P xs))"
proof -
  have split: "xs = take i xs @ xs ! i # drop (Suc i) xs"
    using assms(1) by (simp add: id_take_nth_drop)
  have upd: "xs[i := x] = take i xs @ x # drop (Suc i) xs"
    using assms(1) by (simp add: upd_conv_take_nth_drop)
  have "length (filter P xs) = length (filter P (take i xs)) + length (filter P (drop (Suc i) xs))"
    by (subst split) (use assms(2) in simp)
  then show ?thesis
    by (simp add: upd assms(3))
qed

lemma card_filter_index: "length (filter P xs) = card {i. i < length xs \<and> P (xs ! i)}"
  by (rule length_filter_conv_card)

text \<open>\<open>nub\<close> keeps the first occurrence of each element, in order.\<close>

fun nub :: "'a list \<Rightarrow> 'a list" where
  "nub [] = []"
| "nub (x # xs) = x # removeAll x (nub xs)"

lemma set_nub [simp]: "set (nub xs) = set xs"
  by (induction xs) auto

lemma distinct_nub [simp]: "distinct (nub xs)"
  by (induction xs) (auto simp: distinct_removeAll)

lemma nub_snoc: "nub (xs @ [x]) = (if x \<in> set xs then nub xs else nub xs @ [x])"
  by (induction xs) auto

lemma nub_distinct [simp]: "distinct xs \<Longrightarrow> nub xs = xs"
  by (induction xs) auto

lemma length_nub: "length (nub xs) = card (set xs)"
  by (metis distinct_card distinct_nub set_nub)

lemma Some_image_the: "None \<notin> A \<Longrightarrow> Some e \<in> A \<longleftrightarrow> e \<in> the ` A"
proof
  assume none: "None \<notin> A" and "e \<in> the ` A"
  then obtain x where "x \<in> A" "e = the x" by blast
  with none show "Some e \<in> A" by (cases x) auto
qed (force intro: rev_image_eqI)

lemma not_None_obtain: "x \<in> A \<Longrightarrow> None \<notin> A \<Longrightarrow> \<exists>y. x = Some y"
  by (cases x) auto

end
