(* ===== verification/Arrays.thy ===== *)
theory Arrays
  imports Prelude
begin

section \<open>The resizable array of \<^verbatim>\<open>protocols/common/Array.h\<close>\<close>

text \<open>
  \<open>Array<T>\<close> keeps a block of \<open>alloc_\<close> elements of which the first \<open>size_\<close> are in use. A
  cell of the block that was never written is \<open>None\<close>. \<open>array_elems\<close> is the abstract value,
  the cells in use; \<open>array_ok\<close> the representation invariant. The locale \<open>growable_array\<close> is
  the contract the users of the class rely on, and its interpretation \<open>arr\<close> discharges it.
\<close>

record 'a arr =
  a_store :: "'a option list"
  a_alloc :: nat
  a_size :: nat

definition array_ok :: "'a arr \<Rightarrow> bool" where
  "array_ok a \<longleftrightarrow> length (a_store a) = a_alloc a \<and> a_size a \<le> a_alloc a"

definition array_elems :: "'a arr \<Rightarrow> 'a option list" where
  "array_elems a = take (a_size a) (a_store a)"

subsection \<open>Operations\<close>

definition array_new :: "'a arr" where
  "array_new = \<lparr>a_store = [], a_alloc = 0, a_size = 0\<rparr>"

definition array_size :: "'a arr \<Rightarrow> nat" where
  "array_size a = a_size a"

definition array_slot :: "'a arr \<Rightarrow> int \<Rightarrow> 'a result" where
  "array_slot a index =
     rbind (th_assert (0 \<le> index \<and> index < int (a_size a)))
       (\<lambda>_. case a_store a ! nat index of None \<Rightarrow> Inl Uninitialised | Some x \<Rightarrow> Inr x)"

definition array_set_slot :: "'a arr \<Rightarrow> int \<Rightarrow> 'a \<Rightarrow> 'a arr result" where
  "array_set_slot a index x =
     rbind (th_assert (0 \<le> index \<and> index < int (a_size a)))
       (\<lambda>_. Inr (a\<lparr>a_store := (a_store a)[nat index := Some x]\<rparr>))"

definition array_high :: "'a arr \<Rightarrow> 'a result" where
  "array_high a =
     rbind (th_assert (0 < a_size a))
       (\<lambda>_. case a_store a ! (a_size a - 1) of None \<Rightarrow> Inl Uninitialised | Some x \<Rightarrow> Inr x)"

definition enlarge_allocation_to :: "'a arr \<Rightarrow> nat \<Rightarrow> 'a arr" where
  "enlarge_allocation_to a newsize =
     (let newalloc0 = a_alloc a * 2;
          newalloc = (if newsize > newalloc0 then newsize else newalloc0)
      in a\<lparr>a_store := take (a_size a) (a_store a) @ replicate (newalloc - a_size a) None,
           a_alloc := newalloc\<rparr>)"

definition enlarge_to :: "'a arr \<Rightarrow> nat \<Rightarrow> 'a arr" where
  "enlarge_to a newsize =
     (if newsize > a_alloc a then enlarge_allocation_to a newsize else a)\<lparr>a_size := newsize\<rparr>"

definition array_append :: "'a arr \<Rightarrow> 'a \<Rightarrow> 'a arr" where
  "array_append a v =
     (let a' = (if a_size a \<ge> a_alloc a then enlarge_allocation_to a (a_size a + 1) else a)
      in a'\<lparr>a_store := (a_store a')[a_size a' := Some v], a_size := a_size a' + 1\<rparr>)"

definition array_insert_at :: "'a arr \<Rightarrow> int \<Rightarrow> 'a \<Rightarrow> 'a arr result" where
  "array_insert_at a index v =
     (if index < 0 then Inl Out_of_bounds
      else let i = nat index;
               a' = (if i \<ge> a_alloc a then enlarge_allocation_to a (i + 1) else a);
               a'' = a'\<lparr>a_store := (a_store a')[i := Some v]\<rparr>
           in Inr (if i \<ge> a_size a'' then a''\<lparr>a_size := i + 1\<rparr> else a''))"

definition array_remove :: "'a arr \<Rightarrow> ('a option \<times> 'a arr) result" where
  "array_remove a =
     (let a' = (if a_size a > 0 then a\<lparr>a_size := a_size a - 1\<rparr> else a)
      in if a_size a' < length (a_store a') then Inr (a_store a' ! a_size a', a') else Inl Null_deref)"

definition array_remove_n :: "'a arr \<Rightarrow> int \<Rightarrow> 'a arr result" where
  "array_remove_n a num =
     rbind (th_assert (0 \<le> num \<and> num \<le> int (a_size a)))
       (\<lambda>_. Inr (a\<lparr>a_size := a_size a - nat num\<rparr>))"

definition array_clear :: "'a arr \<Rightarrow> 'a arr" where
  "array_clear a = a\<lparr>a_size := 0\<rparr>"

definition enlarge_by :: "'a arr \<Rightarrow> int \<Rightarrow> 'a arr result" where
  "enlarge_by a n =
     rbind (th_assert (0 \<le> n))
       (\<lambda>_. let newsize = a_size a + nat n;
                a' = (if newsize > a_alloc a then enlarge_allocation_to a newsize else a)
            in Inr (a'\<lparr>a_size := newsize\<rparr>))"

text \<open>The copy loops \<open>store_[i + oldsize] = src[i]\<close>.\<close>

fun copy_into :: "'a option list \<Rightarrow> nat \<Rightarrow> 'a option list \<Rightarrow> 'a option list" where
  "copy_into st k [] = st"
| "copy_into st k (x # xs) = copy_into (st[k := x]) (Suc k) xs"

definition array_predict_new :: "int \<Rightarrow> 'a arr result" where
  "array_predict_new predict =
     rbind (th_assert (0 \<le> predict))
       (\<lambda>_. Inr ((enlarge_to array_new (nat predict))\<lparr>a_size := 0\<rparr>))"

definition array_of_pointer :: "'a list \<Rightarrow> int \<Rightarrow> 'a arr result" where
  "array_of_pointer src s =
     rbind (th_assert (0 \<le> s))
       (\<lambda>_. if nat s \<le> length src
             then let a = enlarge_to array_new (nat s)
                  in Inr (a\<lparr>a_store := copy_into (a_store a) 0 (map Some (take (nat s) src))\<rparr>)
             else Inl Out_of_bounds)"

definition array_copy :: "'a arr \<Rightarrow> 'a arr" where
  "array_copy d =
     (let a = enlarge_to array_new (a_size d)
      in a\<lparr>a_store := copy_into (a_store a) 0 (array_elems d)\<rparr>)"

definition array_fill :: "'a \<Rightarrow> int \<Rightarrow> 'a arr result" where
  "array_fill element num =
     rbind (th_assert (0 \<le> num))
       (\<lambda>_. let a = enlarge_to array_new (nat num)
            in Inr (a\<lparr>a_store := copy_into (a_store a) 0 (replicate (nat num) (Some element))\<rparr>))"

text \<open>
  \<open>operator=\<close> sets \<open>size_\<close> to 0 before it reads \<open>d.size_\<close>. For two different objects this
  copies; when \<open>d\<close> is the object itself the second read sees the 0.
\<close>

definition array_assign :: "'a arr \<Rightarrow> 'a arr \<Rightarrow> 'a arr" where
  "array_assign a d =
     (let a' = enlarge_to (a\<lparr>a_size := 0\<rparr>) (a_size d)
      in a'\<lparr>a_store := copy_into (a_store a') 0 (array_elems d)\<rparr>)"

definition array_assign_self :: "'a arr \<Rightarrow> 'a arr" where
  "array_assign_self a = (let a0 = a\<lparr>a_size := 0\<rparr> in array_assign a0 a0)"

definition array_append_n :: "'a arr \<Rightarrow> 'a \<Rightarrow> int \<Rightarrow> 'a arr result" where
  "array_append_n a element n =
     rbind (th_assert (0 \<le> n))
       (\<lambda>_. let oldsize = a_size a; a' = enlarge_to a (a_size a + nat n)
            in Inr (a'\<lparr>a_store := copy_into (a_store a') oldsize (replicate (nat n) (Some element))\<rparr>))"

definition array_concat :: "'a arr \<Rightarrow> 'a arr \<Rightarrow> 'a arr" where
  "array_concat a d =
     (let oldsize = a_size a; a' = enlarge_to a (a_size a + a_size d)
      in a'\<lparr>a_store := copy_into (a_store a') oldsize (array_elems d)\<rparr>)"

definition array_concat_pointer :: "'a arr \<Rightarrow> 'a list \<Rightarrow> int \<Rightarrow> 'a arr result" where
  "array_concat_pointer a src s =
     rbind (th_assert (0 \<le> s))
       (\<lambda>_. if nat s \<le> length src
             then let oldsize = a_size a; a' = enlarge_to a (nat s + a_size a)
                  in Inr (a'\<lparr>a_store := copy_into (a_store a') oldsize (map Some (take (nat s) src))\<rparr>)
             else Inl Out_of_bounds)"

definition array_predict :: "'a arr \<Rightarrow> nat \<Rightarrow> 'a arr" where
  "array_predict a new_alloc =
     (if new_alloc > a_alloc a then enlarge_allocation_to a new_alloc else a)"

definition array_reclaim :: "'a arr \<Rightarrow> 'a arr" where
  "array_reclaim a =
     (if a_alloc a > a_size a
      then if a_size a > 0
           then a\<lparr>a_store := take (a_size a) (a_store a), a_alloc := a_size a\<rparr>
           else if a_alloc a > 0 then a\<lparr>a_store := [], a_alloc := 0\<rparr> else a
      else a)"

lemmas array_defs [model_defs] =
  array_new_def array_size_def array_slot_def array_set_slot_def array_high_def
  enlarge_allocation_to_def enlarge_to_def array_append_def array_insert_at_def array_remove_def
  array_remove_n_def array_clear_def enlarge_by_def array_predict_new_def array_of_pointer_def
  array_copy_def array_fill_def array_assign_def array_assign_self_def array_append_n_def
  array_concat_def array_concat_pointer_def array_predict_def array_reclaim_def

subsection \<open>Lemmas on the representation\<close>

lemma length_copy_into [simp]: "length (copy_into st k xs) = length st"
  by (induction st k xs rule: copy_into.induct) auto

lemma copy_into_eq:
  "k + length xs \<le> length st \<Longrightarrow> copy_into st k xs = take k st @ xs @ drop (k + length xs) st"
proof (induction st k xs rule: copy_into.induct)
  case (1 st k)
  show ?case by simp
next
  case (2 st k x xs)
  then have k: "k < length st" by simp
  have "take (Suc k) (st[k := x]) = take k st @ [x]"
    using k by (simp add: take_Suc_conv_app_nth)
  moreover have "drop (Suc k + length xs) (st[k := x]) = drop (Suc k + length xs) st"
    by simp
  ultimately show ?case
    using 2 by simp
qed

lemma length_array_elems: "array_ok a \<Longrightarrow> length (array_elems a) = a_size a"
  by (simp add: array_ok_def array_elems_def)

lemma array_ok_new [kept, simp]: "array_ok array_new"
  by (simp add: array_ok_def array_new_def)

lemma array_elems_new [simp]: "array_elems array_new = []"
  by (simp add: array_elems_def array_new_def)

lemma array_ok_enlarge_allocation:
  "array_ok a \<Longrightarrow> a_alloc a < n \<Longrightarrow> array_ok (enlarge_allocation_to a n)"
  by (auto simp: array_ok_def enlarge_allocation_to_def Let_def)

lemma enlarge_allocation_fields:
  "array_ok a \<Longrightarrow> a_size (enlarge_allocation_to a n) = a_size a"
  "array_ok a \<Longrightarrow> a_alloc a < n \<Longrightarrow> n \<le> a_alloc (enlarge_allocation_to a n)"
  "array_ok a \<Longrightarrow> take (a_size a) (a_store (enlarge_allocation_to a n)) = array_elems a"
  by (auto simp: array_ok_def enlarge_allocation_to_def array_elems_def Let_def)

lemma array_ok_enlarge_to [kept]: "array_ok a \<Longrightarrow> array_ok (enlarge_to a n)"
  by (auto simp: array_ok_def enlarge_to_def enlarge_allocation_to_def Let_def)

lemma enlarge_to_size [simp]: "a_size (enlarge_to a n) = n"
  by (simp add: enlarge_to_def)

lemma enlarge_to_room: "array_ok a \<Longrightarrow> n \<le> length (a_store (enlarge_to a n))"
  using array_ok_enlarge_to [of a n] by (simp add: array_ok_def)

lemma enlarge_to_shrinks:
  "array_ok a \<Longrightarrow> n \<le> a_size a \<Longrightarrow> array_elems (enlarge_to a n) = take n (array_elems a)"
  by (auto simp: array_ok_def enlarge_to_def array_elems_def min_def)

lemma enlarge_to_keeps:
  "array_ok a \<Longrightarrow> a_size a \<le> n \<Longrightarrow> take (a_size a) (a_store (enlarge_to a n)) = array_elems a"
  by (auto simp: array_ok_def enlarge_to_def enlarge_allocation_to_def array_elems_def Let_def)

lemma copy_at_end:
  assumes "array_ok a" "n = a_size a + length xs"
  shows "array_elems ((enlarge_to a n)\<lparr>a_store := copy_into (a_store (enlarge_to a n)) (a_size a) xs\<rparr>)
           = array_elems a @ xs"
    and "array_ok ((enlarge_to a n)\<lparr>a_store := copy_into (a_store (enlarge_to a n)) (a_size a) xs\<rparr>)"
proof -
  have room: "a_size a + length xs \<le> length (a_store (enlarge_to a n))"
    using enlarge_to_room [OF assms(1), of n] assms(2) by simp
  then show "array_elems ((enlarge_to a n)\<lparr>a_store := copy_into (a_store (enlarge_to a n)) (a_size a) xs\<rparr>)
           = array_elems a @ xs"
    using enlarge_to_keeps [OF assms(1), of n] length_array_elems [OF assms(1)] assms(2)
    by (simp add: copy_into_eq array_elems_def [of "_\<lparr>a_store := _\<rparr>"])
  show "array_ok ((enlarge_to a n)\<lparr>a_store := copy_into (a_store (enlarge_to a n)) (a_size a) xs\<rparr>)"
    using array_ok_enlarge_to [OF assms(1), of n] by (simp add: array_ok_def)
qed

subsection \<open>What each operation does to the elements\<close>

lemma array_append_elems: "array_ok a \<Longrightarrow> array_elems (array_append a v) = array_elems a @ [Some v]"
  using enlarge_allocation_fields [of a "a_size a + 1"] array_ok_enlarge_allocation [of a "a_size a + 1"]
  by (auto simp: array_append_def array_elems_def array_ok_def Let_def take_Suc_conv_app_nth)

lemma array_ok_append [kept]: "array_ok a \<Longrightarrow> array_ok (array_append a v)"
  using enlarge_allocation_fields [of a "a_size a + 1"] array_ok_enlarge_allocation [of a "a_size a + 1"]
  by (auto simp: array_append_def array_ok_def Let_def)

lemma array_slot_elems:
  "array_ok a \<Longrightarrow> array_slot a i =
     (if 0 \<le> i \<and> i < int (length (array_elems a))
      then case array_elems a ! nat i of None \<Rightarrow> Inl Uninitialised | Some x \<Rightarrow> Inr x
      else Inl Assert_failed)"
  by (auto simp: array_slot_def array_elems_def array_ok_def)

lemma array_set_slot_elems:
  assumes "array_ok a" "0 \<le> i" "i < int (length (array_elems a))"
  obtains a' where "array_set_slot a i x = Inr a'" "array_ok a'"
    "array_elems a' = (array_elems a)[nat i := Some x]" "a_size a' = a_size a"
  using assms by (auto simp: array_set_slot_def array_elems_def array_ok_def take_update_swap)

lemma array_high_elems:
  "array_ok a \<Longrightarrow> array_high a =
     (if array_elems a = [] then Inl Assert_failed
      else case last (array_elems a) of None \<Rightarrow> Inl Uninitialised | Some x \<Rightarrow> Inr x)"
  by (cases "a_size a = 0") (auto simp: array_high_def array_elems_def array_ok_def last_conv_nth)

lemma array_append_n_elems:
  assumes "array_ok a" "0 \<le> n"
  shows "\<exists>a'. array_append_n a x n = Inr a' \<and> array_ok a' \<and>
           array_elems a' = array_elems a @ replicate (nat n) (Some x)"
  using assms copy_at_end [OF assms(1), of "a_size a + nat n" "replicate (nat n) (Some x)"]
  by (simp add: array_append_n_def Let_def)

lemma array_concat_elems:
  assumes "array_ok a" "array_ok d"
  shows "array_elems (array_concat a d) = array_elems a @ array_elems d"
    and "array_ok (array_concat a d)"
  using copy_at_end [OF assms(1), of "a_size a + a_size d" "array_elems d"]
    length_array_elems [OF assms(2)]
  by (simp_all add: array_concat_def Let_def)

lemma array_concat_pointer_elems:
  assumes "array_ok a" "0 \<le> s" "nat s \<le> length src"
  shows "\<exists>a'. array_concat_pointer a src s = Inr a' \<and> array_ok a' \<and>
           array_elems a' = array_elems a @ map Some (take (nat s) src)"
  using assms copy_at_end [OF assms(1), of "nat s + a_size a" "map Some (take (nat s) src)"]
  by (simp add: array_concat_pointer_def Let_def min_def)

lemma array_of_pointer_elems:
  assumes "0 \<le> s" "nat s \<le> length src"
  shows "\<exists>a'. array_of_pointer src s = Inr a' \<and> array_ok a' \<and>
           array_elems a' = map Some (take (nat s) src)"
  using assms copy_at_end [of "array_new :: 'a arr" "nat s" "map Some (take (nat s) src)"]
  by (simp add: array_of_pointer_def Let_def min_def) (simp add: array_new_def)

lemma array_copy_elems:
  assumes "array_ok d"
  shows "array_elems (array_copy d) = array_elems d" and "array_ok (array_copy d)"
  using copy_at_end [of "array_new :: 'a arr" "a_size d" "array_elems d"]
    length_array_elems [OF assms]
  by (simp_all add: array_copy_def Let_def) (simp_all add: array_new_def)

lemma array_assign_elems:
  assumes "array_ok a" "array_ok d"
  shows "array_elems (array_assign a d) = array_elems d" and "array_ok (array_assign a d)"
proof -
  have "array_ok (a\<lparr>a_size := 0\<rparr>)" "array_elems (a\<lparr>a_size := 0\<rparr>) = []"
    using assms(1) by (simp_all add: array_ok_def array_elems_def)
  from copy_at_end [OF this(1), of "a_size d" "array_elems d"] this(2)
  show "array_elems (array_assign a d) = array_elems d" and "array_ok (array_assign a d)"
    using length_array_elems [OF assms(2)] by (simp_all add: array_assign_def Let_def)
qed

lemma array_insert_at_elems:
  assumes "array_ok a" "0 \<le> i"
  shows "\<exists>a'. array_insert_at a i v = Inr a' \<and> array_ok a' \<and>
           array_elems a' ! nat i = Some v \<and>
           length (array_elems a') = max (length (array_elems a)) (nat i + 1) \<and>
           (\<forall>j < length (array_elems a). j \<noteq> nat i \<longrightarrow> array_elems a' ! j = array_elems a ! j)"
  using assms
  by (auto simp: array_insert_at_def array_ok_def array_elems_def enlarge_allocation_to_def Let_def
      nth_append nth_list_update)

lemma array_remove_elems:
  assumes "array_ok a" "array_elems a \<noteq> []"
  shows "\<exists>a'. array_remove a = Inr (last (array_elems a), a') \<and> array_ok a' \<and>
           array_elems a' = butlast (array_elems a)"
  using assms
  by (auto simp: array_remove_def array_ok_def array_elems_def Let_def last_conv_nth butlast_take)

lemma array_reclaim_elems:
  assumes "array_ok a"
  shows "array_elems (array_reclaim a) = array_elems a" and "array_ok (array_reclaim a)"
  using assms by (auto simp: array_reclaim_def array_ok_def array_elems_def)

subsection \<open>The contract of a growable array\<close>

locale growable_array =
  fixes empty :: 'arr
    and append :: "'arr \<Rightarrow> 'a \<Rightarrow> 'arr"
    and get :: "'arr \<Rightarrow> int \<Rightarrow> 'a result"
    and resize :: "'arr \<Rightarrow> nat \<Rightarrow> 'arr"
    and elems :: "'arr \<Rightarrow> 'a option list"
    and ok :: "'arr \<Rightarrow> bool"
  assumes ok_empty: "ok empty"
    and ok_append: "ok a \<Longrightarrow> ok (append a x)"
    and ok_resize: "ok a \<Longrightarrow> ok (resize a n)"
    and elems_empty: "elems empty = []"
    and elems_append: "ok a \<Longrightarrow> elems (append a x) = elems a @ [Some x]"
    and elems_resize: "ok a \<Longrightarrow> n \<le> length (elems a) \<Longrightarrow> elems (resize a n) = take n (elems a)"
    and get_elems: "ok a \<Longrightarrow> get a i =
          (if 0 \<le> i \<and> i < int (length (elems a))
           then case elems a ! nat i of None \<Rightarrow> Inl Uninitialised | Some x \<Rightarrow> Inr x
           else Inl Assert_failed)"
begin

lemma append_all:
  "ok a \<Longrightarrow> ok (foldl append a xs) \<and> elems (foldl append a xs) = elems a @ map Some xs"
  by (induction xs arbitrary: a) (simp_all add: ok_append elems_append)

lemma get_append_all:
  "get (foldl append empty xs) i = (if 0 \<le> i \<and> i < int (length xs) then Inr (xs ! nat i) else Inl Assert_failed)"
  using append_all [OF ok_empty, of xs] by (auto simp: get_elems elems_empty)

lemma get_resized:
  assumes "n \<le> length xs"
  shows "get (resize (foldl append empty xs) n) i =
           (if 0 \<le> i \<and> i < int n then Inr (xs ! nat i) else Inl Assert_failed)"
  using append_all [OF ok_empty, of xs] assms
  by (auto simp: get_elems elems_empty ok_resize elems_resize)

end

interpretation arr: growable_array array_new array_append array_slot enlarge_to array_elems array_ok
proof unfold_locales
  fix a :: "'a arr" and n
  assume "array_ok a" "n \<le> length (array_elems a)"
  then show "array_elems (enlarge_to a n) = take n (array_elems a)"
    by (simp add: enlarge_to_shrinks length_array_elems)
qed (auto simp: array_append_elems array_slot_elems intro: kept)

subsection \<open>Properties\<close>

text \<open>
  Whatever was appended to a fresh array is read back at its position, also after the array
  was cut to a shorter length, and every index outside is stopped by the assertion of \<open>slot\<close>.
\<close>

theorem array_append_slot:
  assumes "n \<le> length xs"
  shows "array_slot (enlarge_to (foldl array_append array_new xs) n) i =
           (if 0 \<le> i \<and> i < int n then Inr (xs ! nat i) else Inl Assert_failed)"
  using assms by (rule arr.get_resized)

theorem array_append_slot_witness:
  "array_slot (enlarge_to (foldl array_append array_new [5, 6, 7 :: nat]) 2) 1 = Inr 6 \<and>
   array_slot (enlarge_to (foldl array_append array_new [5, 6, 7 :: nat]) 2) 2 = Inl Assert_failed"
  using array_append_slot [of 2 "[5, 6, 7 :: nat]" 1] array_append_slot [of 2 "[5, 6, 7 :: nat]" 2]
  by simp

text \<open>Assigning an array to itself empties it.\<close>

lemma array_assign_self_empties: "array_elems (array_assign_self a) = []"
  by (simp add: array_assign_self_def array_assign_def array_elems_def enlarge_to_def Let_def)

end
