(* ===== verification/CountedSets.thy ===== *)
theory CountedSets
  imports Prelude
begin

section \<open>Sets of messages: \<^verbatim>\<open>protocols/common/Set.h\<close> and \<^verbatim>\<open>protocols/common/SCSet.h\<close>\<close>

text \<open>
  \<open>Set<T>\<close> holds at most one element per identifier; \<open>SCSet<T>\<close> holds distinct elements and
  counts how often each was stored. \<open>scset_items\<close> is the abstract value of an \<open>SCSet\<close>: the
  elements in insertion order with their counters. Pointers to elements are modelled by the
  elements, a null pointer by \<open>None\<close>; \<open>operator==\<close> of the element type is HOL equality.
\<close>

subsection \<open>\<open>Set<T>\<close>\<close>

record 'e msg_set =
  set_max_size :: nat
  set_elems :: "'e option list"
  set_cur_size :: int

definition set_new :: "nat \<Rightarrow> 'e msg_set" where
  "set_new sz = \<lparr>set_max_size = sz, set_elems = replicate sz None, set_cur_size = 0\<rparr>"

definition set_size :: "'e msg_set \<Rightarrow> int" where
  "set_size s = set_cur_size s"

definition set_store :: "('e \<Rightarrow> int) \<Rightarrow> 'e msg_set \<Rightarrow> 'e \<Rightarrow> bool \<times> 'e msg_set" where
  "set_store idf s e =
     (if idf e \<ge> int (set_max_size s) \<or> idf e < 0 \<or> set_elems s ! nat (idf e) \<noteq> None
      then (False, s)
      else (True, s\<lparr>set_elems := (set_elems s)[nat (idf e) := Some e],
                    set_cur_size := set_cur_size s + 1\<rparr>))"

definition set_fetch :: "'e msg_set \<Rightarrow> int \<Rightarrow> 'e option" where
  "set_fetch s i = (if i \<ge> int (set_max_size s) \<or> i < 0 then None else set_elems s ! nat i)"

definition set_remove :: "'e msg_set \<Rightarrow> int \<Rightarrow> 'e option \<times> 'e msg_set" where
  "set_remove s i =
     (if i \<ge> int (set_max_size s) \<or> i < 0 \<or> set_elems s ! nat i = None
      then (None, s)
      else (set_elems s ! nat i,
            s\<lparr>set_elems := (set_elems s)[nat i := None], set_cur_size := set_cur_size s - 1\<rparr>))"

definition set_clear :: "'e msg_set \<Rightarrow> 'e msg_set" where
  "set_clear s = s\<lparr>set_elems := replicate (set_max_size s) None\<rparr>"

subsection \<open>\<open>SCSet<T>\<close>\<close>

record 'e scset =
  sc_max_size :: nat
  sc_elems :: "'e option list"
  sc_counter :: "nat list"
  sc_cur_size :: nat

definition scset_new :: "nat \<Rightarrow> 'e scset" where
  "scset_new sz = \<lparr>sc_max_size = sz, sc_elems = replicate sz None,
     sc_counter = replicate sz 0, sc_cur_size = 0\<rparr>"

definition scset_size :: "'e scset \<Rightarrow> nat" where
  "scset_size s = sc_cur_size s"

definition scset_full :: "'e scset \<Rightarrow> bool" where
  "scset_full s \<longleftrightarrow> sc_cur_size s = sc_max_size s"

text \<open>The scan \<open>while (i < cur_size)\<close> of \<open>store\<close> and \<open>has\<close>: the index of the first equal element.\<close>

fun sc_scan :: "'e option list \<Rightarrow> nat \<Rightarrow> 'e \<Rightarrow> nat option" where
  "sc_scan [] i e = None"
| "sc_scan (x # xs) i e = (if x = Some e then Some i else sc_scan xs (Suc i) e)"

definition scset_store :: "'e scset \<Rightarrow> 'e \<Rightarrow> bool \<times> 'e scset" where
  "scset_store s e =
     (case sc_scan (take (sc_cur_size s) (sc_elems s)) 0 e of
        Some i \<Rightarrow> (False, s\<lparr>sc_counter := (sc_counter s)[i := sc_counter s ! i + 1]\<rparr>)
      | None \<Rightarrow>
          if sc_cur_size s = sc_max_size s then (False, s)
          else (True, s\<lparr>sc_elems := (sc_elems s)[sc_cur_size s := Some e],
                        sc_counter := (sc_counter s)[sc_cur_size s := 1],
                        sc_cur_size := sc_cur_size s + 1\<rparr>))"

definition scset_has :: "'e scset \<Rightarrow> 'e \<Rightarrow> bool" where
  "scset_has s e = (sc_scan (take (sc_cur_size s) (sc_elems s)) 0 e \<noteq> None)"

definition scset_fetch :: "'e scset \<Rightarrow> int \<Rightarrow> 'e option" where
  "scset_fetch s i =
     (if i \<ge> int (sc_max_size s) \<or> i > int (sc_cur_size s) \<or> i < 0 \<or> sc_elems s ! nat i = None
      then None else sc_elems s ! nat i)"

definition scset_fetch_count :: "'e scset \<Rightarrow> int \<Rightarrow> nat" where
  "scset_fetch_count s i =
     (if i \<ge> int (sc_max_size s) \<or> i > int (sc_cur_size s) \<or> i < 0 \<or> sc_elems s ! nat i = None
      then 0 else sc_counter s ! nat i)"

text \<open>The shift \<open>elems[i] = elems[i+1]\<close> for \<open>i\<close> from \<open>id\<close> below \<open>cur_size - 1\<close>.\<close>

fun shift_left :: "'x list \<Rightarrow> nat \<Rightarrow> nat \<Rightarrow> 'x list" where
  "shift_left xs i 0 = xs"
| "shift_left xs i (Suc n) = shift_left (xs[i := xs ! Suc i]) (Suc i) n"

definition scset_remove :: "'e scset \<Rightarrow> int \<Rightarrow> ('e option \<times> 'e scset) result" where
  "scset_remove s i =
     (if i \<ge> int (sc_max_size s) \<or> i > int (sc_cur_size s) \<or> i < 0 \<or> sc_elems s ! nat i = None
      then Inr (None, s)
      else let n = sc_cur_size s - 1 - nat i;
               el = shift_left (sc_elems s) (nat i) n;
               co = shift_left (sc_counter s) (nat i) n
           in if sc_cur_size s < sc_max_size s
              then Inr (sc_elems s ! nat i,
                        s\<lparr>sc_elems := el[sc_cur_size s := None], sc_counter := co[sc_cur_size s := 0],
                          sc_cur_size := sc_cur_size s - 1\<rparr>)
              else Inl Out_of_bounds)"

definition scset_clear :: "'e scset \<Rightarrow> 'e scset" where
  "scset_clear s = s\<lparr>sc_elems := replicate (sc_max_size s) None,
     sc_counter := replicate (sc_max_size s) 0, sc_cur_size := 0\<rparr>"

definition scset_non_destructive_clear :: "'e scset \<Rightarrow> 'e scset" where
  "scset_non_destructive_clear s = s\<lparr>sc_elems := replicate (sc_max_size s) None,
     sc_counter := replicate (sc_max_size s) 0, sc_cur_size := 0\<rparr>"

definition scset_store_all :: "'e scset \<Rightarrow> 'e list \<Rightarrow> 'e scset" where
  "scset_store_all s es = foldl (\<lambda>s e. snd (scset_store s e)) s es"

lemmas scset_defs [model_defs] =
  scset_new_def scset_size_def scset_full_def scset_store_def scset_has_def scset_fetch_def
  scset_fetch_count_def scset_remove_def scset_clear_def scset_non_destructive_clear_def

lemmas set_defs [model_defs] =
  set_new_def set_size_def set_store_def set_fetch_def set_remove_def set_clear_def

subsection \<open>Invariants and the abstract value\<close>

definition set_ok :: "('e \<Rightarrow> int) \<Rightarrow> 'e msg_set \<Rightarrow> bool" where
  "set_ok idf s \<longleftrightarrow>
     length (set_elems s) = set_max_size s \<and>
     set_cur_size s = int (length (filter (\<lambda>x. x \<noteq> None) (set_elems s))) \<and>
     (\<forall>i < set_max_size s. \<forall>e. set_elems s ! i = Some e \<longrightarrow> idf e = int i)"

definition scset_ok :: "'e scset \<Rightarrow> bool" where
  "scset_ok s \<longleftrightarrow>
     length (sc_elems s) = sc_max_size s \<and> length (sc_counter s) = sc_max_size s \<and>
     sc_cur_size s \<le> sc_max_size s \<and>
     None \<notin> set (take (sc_cur_size s) (sc_elems s)) \<and>
     distinct (take (sc_cur_size s) (sc_elems s))"

definition scset_items :: "'e scset \<Rightarrow> ('e \<times> nat) list" where
  "scset_items s = zip (map the (take (sc_cur_size s) (sc_elems s))) (take (sc_cur_size s) (sc_counter s))"

definition scset_keys :: "'e scset \<Rightarrow> 'e list" where
  "scset_keys s = map the (take (sc_cur_size s) (sc_elems s))"

lemma set_ok_new [kept]: "set_ok idf (set_new n)"
  by (simp add: set_ok_def set_new_def)

lemma set_ok_store [kept]: "set_ok idf s \<Longrightarrow> set_ok idf (snd (set_store idf s e))"
  by (auto simp: set_ok_def set_store_def nth_list_update length_filter_list_update split: if_splits)

lemma scan_None: "sc_scan xs i e = None \<longleftrightarrow> Some e \<notin> set xs"
  by (induction xs i e rule: sc_scan.induct) auto

lemma scan_Some: "sc_scan xs i e = Some j \<Longrightarrow> i \<le> j \<and> j - i < length xs \<and> xs ! (j - i) = Some e"
proof (induction xs i e rule: sc_scan.induct)
  case (1 i e)
  then show ?case by simp
next
  case (2 x xs i e)
  then show ?case
    by (cases "x = Some e") (auto simp: nth_Cons' Suc_diff_Suc split: if_splits)
qed

lemma scset_ok_new [kept, simp]: "scset_ok (scset_new n)"
  by (simp add: scset_ok_def scset_new_def)

lemma scset_ok_clear [kept]: "scset_ok s \<Longrightarrow> scset_ok (scset_clear s)"
  by (simp add: scset_ok_def scset_clear_def)

lemma scset_keys_new [simp]: "scset_keys (scset_new n) = []"
  by (simp add: scset_keys_def scset_new_def)

lemma scset_has_keys: "scset_ok s \<Longrightarrow> scset_has s e \<longleftrightarrow> e \<in> set (scset_keys s)"
proof -
  assume ok: "scset_ok s"
  let ?xs = "take (sc_cur_size s) (sc_elems s)"
  have "None \<notin> set ?xs" using ok by (simp add: scset_ok_def)
  then have "Some e \<in> set ?xs \<longleftrightarrow> e \<in> the ` set ?xs"
    by (rule Some_image_the)
  then show ?thesis
    by (simp add: scset_has_def scan_None scset_keys_def)
qed

lemma length_scset_keys: "scset_ok s \<Longrightarrow> length (scset_keys s) = sc_cur_size s"
  by (simp add: scset_keys_def scset_ok_def)

lemma distinct_scset_keys: "scset_ok s \<Longrightarrow> distinct (scset_keys s)"
proof -
  assume ok: "scset_ok s"
  let ?xs = "take (sc_cur_size s) (sc_elems s)"
  have "inj_on the (set ?xs)"
    using ok unfolding scset_ok_def by (intro inj_onI) (metis option.expand)
  then show ?thesis
    using ok by (simp add: scset_keys_def distinct_map scset_ok_def)
qed

lemma scset_store_hit:
  assumes ok: "scset_ok s" and hit: "e \<in> set (scset_keys s)"
  obtains i where "i < sc_cur_size s" "scset_keys s ! i = e"
    "scset_store s e = (False, s\<lparr>sc_counter := (sc_counter s)[i := sc_counter s ! i + 1]\<rparr>)"
proof -
  have "scset_has s e" using assms by (simp add: scset_has_keys)
  then obtain i where i: "sc_scan (take (sc_cur_size s) (sc_elems s)) 0 e = Some i"
    by (auto simp: scset_has_def)
  from scan_Some [OF this] ok
  have "i < sc_cur_size s" "scset_keys s ! i = e"
    by (auto simp: scset_keys_def scset_ok_def)
  with i that show ?thesis by (simp add: scset_store_def)
qed

lemma scset_store_miss:
  assumes "scset_ok s" "e \<notin> set (scset_keys s)"
  shows "scset_store s e =
    (if sc_cur_size s = sc_max_size s then (False, s)
     else (True, s\<lparr>sc_elems := (sc_elems s)[sc_cur_size s := Some e],
                   sc_counter := (sc_counter s)[sc_cur_size s := 1],
                   sc_cur_size := sc_cur_size s + 1\<rparr>))"
proof -
  have "\<not> scset_has s e" using assms by (simp add: scset_has_keys)
  then show ?thesis by (simp add: scset_has_def scset_store_def)
qed

lemma scset_ok_store [kept]: "scset_ok s \<Longrightarrow> scset_ok (snd (scset_store s e))"
proof -
  assume ok: "scset_ok s"
  show ?thesis
  proof (cases "e \<in> set (scset_keys s)")
    case True
    obtain i where
      "scset_store s e = (False, s\<lparr>sc_counter := (sc_counter s)[i := sc_counter s ! i + 1]\<rparr>)"
      by (rule scset_store_hit [OF ok True])
    with ok show ?thesis by (simp add: scset_ok_def)
  next
    case False
    with ok have "Some e \<notin> set (take (sc_cur_size s) (sc_elems s))"
      by (simp add: scset_has_keys [symmetric] scset_has_def scan_None)
    with ok False show ?thesis
      by (auto simp: scset_store_miss scset_ok_def take_Suc_conv_app_nth)
  qed
qed

lemma map_fst_scset_items: "scset_ok s \<Longrightarrow> map fst (scset_items s) = scset_keys s"
  by (simp add: scset_items_def scset_keys_def scset_ok_def)

lemma scset_items_hit:
  assumes ok: "scset_ok s" and hit: "e \<in> set (scset_keys s)"
  shows "scset_items (snd (scset_store s e)) =
           map (\<lambda>(x, n). (x, if x = e then n + 1 else n)) (scset_items s)"
proof -
  obtain i where i: "i < sc_cur_size s" "scset_keys s ! i = e"
    and st: "scset_store s e = (False, s\<lparr>sc_counter := (sc_counter s)[i := sc_counter s ! i + 1]\<rparr>)"
    by (rule scset_store_hit [OF assms])
  have other: "scset_keys s ! j = e \<longleftrightarrow> j = i" if "j < sc_cur_size s" for j
    using that i distinct_scset_keys [OF ok] length_scset_keys [OF ok] by (metis nth_eq_iff_index_eq)
  show ?thesis
  proof (rule nth_equalityI)
    show "length (scset_items (snd (scset_store s e))) =
        length (map (\<lambda>(x, n). (x, if x = e then n + 1 else n)) (scset_items s))"
      using ok by (simp add: st scset_items_def scset_ok_def)
  next
    fix j
    assume "j < length (scset_items (snd (scset_store s e)))"
    then have j: "j < sc_cur_size s"
      using ok by (simp add: st scset_items_def scset_ok_def)
    then show "scset_items (snd (scset_store s e)) ! j =
        map (\<lambda>(x, n). (x, if x = e then n + 1 else n)) (scset_items s) ! j"
      using ok other [OF j] by (auto simp: st scset_items_def scset_ok_def scset_keys_def nth_list_update)
  qed
qed

lemma scset_items_miss:
  assumes "scset_ok s" "e \<notin> set (scset_keys s)" "sc_cur_size s < sc_max_size s"
  shows "scset_items (snd (scset_store s e)) = scset_items s @ [(e, 1)]"
  using assms by (simp add: scset_store_miss scset_items_def scset_ok_def take_Suc_conv_app_nth)

lemma scset_max_store [simp]: "sc_max_size (snd (scset_store s e)) = sc_max_size s"
  by (simp add: scset_store_def split: option.split)

lemma scset_store_all_facts:
  "card (set es) \<le> n \<Longrightarrow>
     scset_ok (scset_store_all (scset_new n) es) \<and>
     sc_max_size (scset_store_all (scset_new n) es) = n \<and>
     scset_items (scset_store_all (scset_new n) es) = map (\<lambda>x. (x, count_list es x)) (nub es)"
proof (induction es rule: rev_induct)
  case Nil
  show ?case by (simp add: scset_store_all_def scset_items_def) (simp add: scset_new_def)
next
  case (snoc e es)
  let ?s = "scset_store_all (scset_new n) es"
  have step: "scset_store_all (scset_new n) (es @ [e]) = snd (scset_store ?s e)"
    by (simp add: scset_store_all_def)
  have "card (set es) \<le> card (set (es @ [e]))"
    by (rule card_mono) auto
  with snoc have ok: "scset_ok ?s" and mx: "sc_max_size ?s = n"
    and items: "scset_items ?s = map (\<lambda>x. (x, count_list es x)) (nub es)"
    by auto
  have keys: "scset_keys ?s = nub es"
    using map_fst_scset_items [OF ok] by (simp add: items comp_def)
  show ?case
  proof (cases "e \<in> set es")
    case True
    then have "scset_items (snd (scset_store ?s e)) =
        map (\<lambda>x. (x, count_list (es @ [e]) x)) (nub (es @ [e]))"
      using scset_items_hit [OF ok, of e] keys items by (auto simp: nub_snoc)
    then show ?thesis using ok mx by (simp add: step kept)
  next
    case False
    then have "card (set es) < n" using snoc.prems by simp
    then have "sc_cur_size ?s < sc_max_size ?s"
      using length_scset_keys [OF ok] by (simp add: keys mx length_nub)
    with False have "scset_items (snd (scset_store ?s e)) =
        map (\<lambda>x. (x, count_list (es @ [e]) x)) (nub (es @ [e]))"
      using scset_items_miss [OF ok, of e] keys items by (auto simp: nub_snoc count_list_0_iff)
    then show ?thesis using ok mx by (simp add: step kept)
  qed
qed

lemma scset_fetch_item:
  assumes "scset_ok s" "i < sc_cur_size s"
  shows "scset_fetch s (int i) = Some (fst (scset_items s ! i))"
    and "scset_fetch_count s (int i) = snd (scset_items s ! i)"
proof -
  have "sc_elems s ! i \<in> set (take (sc_cur_size s) (sc_elems s))"
    using assms by (auto simp: scset_ok_def in_set_conv_nth intro!: exI [of _ i])
  then have "sc_elems s ! i \<noteq> None"
    using assms(1) not_None_obtain [of "sc_elems s ! i"] unfolding scset_ok_def by blast
  then show "scset_fetch s (int i) = Some (fst (scset_items s ! i))"
    and "scset_fetch_count s (int i) = snd (scset_items s ! i)"
    using assms by (auto simp: scset_fetch_def scset_fetch_count_def scset_items_def scset_ok_def)
qed

subsection \<open>Counting votes\<close>

text \<open>
  The history extraction stores the votes of the replicas one by one and takes the first value
  whose counter reaches a threshold. \<open>vote_box\<close> is what it needs of the set.
\<close>

locale vote_box =
  fixes fresh :: "nat \<Rightarrow> 's"
    and put :: "'s \<Rightarrow> 'e \<Rightarrow> 's"
    and tally :: "'s \<Rightarrow> ('e \<times> nat) list"
  assumes tally_all: "card (set es) \<le> n \<Longrightarrow>
            tally (foldl put (fresh n) es) = map (\<lambda>x. (x, count_list es x)) (nub es)"
begin

lemma winner_sound:
  assumes "length es \<le> n" "find (\<lambda>(x, c). c \<ge> k) (tally (foldl put (fresh n) es)) = Some (v, c)"
  shows "k \<le> count_list es v" and "v \<in> set es"
proof -
  have "card (set es) \<le> n"
    using assms(1) card_length [of es] by simp
  then have t: "tally (foldl put (fresh n) es) = map (\<lambda>x. (x, count_list es x)) (nub es)"
    by (rule tally_all)
  from assms(2) have "(v, c) \<in> set (map (\<lambda>x. (x, count_list es x)) (nub es))" "k \<le> c"
    unfolding t find_Some_iff by (metis (no_types, lifting) case_prod_conv nth_mem)+
  then show "k \<le> count_list es v" and "v \<in> set es" by auto
qed

lemma winner_exists:
  assumes "length es \<le> n" "0 < k" "k \<le> count_list es v" "\<And>w. w \<noteq> v \<Longrightarrow> count_list es w < k"
  shows "find (\<lambda>(x, c). c \<ge> k) (tally (foldl put (fresh n) es)) = Some (v, count_list es v)"
proof -
  have "card (set es) \<le> n"
    using assms(1) card_length [of es] by simp
  then have t: "tally (foldl put (fresh n) es) = map (\<lambda>x. (x, count_list es x)) (nub es)"
    by (rule tally_all)
  have "v \<in> set es" using assms(2,3) by (metis count_notin not_le)
  moreover have "find (\<lambda>(x, c). c \<ge> k) (map (\<lambda>x. (x, count_list es x)) xs) =
      (if v \<in> set xs then Some (v, count_list es v) else None)" for xs
  proof (induction xs)
    case Nil
    show ?case by simp
  next
    case (Cons x xs)
    then show ?case using assms(3) assms(4) [of x] by (cases "x = v") auto
  qed
  ultimately show ?thesis by (simp add: t)
qed

end

interpretation sc: vote_box scset_new "\<lambda>s e. snd (scset_store s e)" scset_items
proof unfold_locales
  fix es :: "'e list" and n
  assume "card (set es) \<le> n"
  from scset_store_all_facts [OF this]
  show "scset_items (foldl (\<lambda>s e. snd (scset_store s e)) (scset_new n) es) =
          map (\<lambda>x. (x, count_list es x)) (nub es)"
    by (simp add: scset_store_all_def)
qed

subsection \<open>Properties\<close>

text \<open>
  C30: a counting set with room for all different elements holds, after any sequence of stores,
  each element once, in the order of first occurrence, with the number of times it was stored.
\<close>

theorem scset_counts:
  assumes "card (set es) \<le> n"
  shows "scset_items (foldl (\<lambda>s e. snd (scset_store s e)) (scset_new n) es) =
           map (\<lambda>x. (x, count_list es x)) (nub es)"
  using assms by (rule sc.tally_all)

theorem scset_counts_witness:
  "scset_items (foldl (\<lambda>s e. snd (scset_store s e)) (scset_new 2) [7, 8, 7 :: nat]) = [(7, 2), (8, 1)]"
  using scset_counts [of "[7, 8, 7 :: nat]" 2] by (simp add: card_insert_if)

end
