(* ===== verification/Digests.thy ===== *)
theory Digests
  imports Prelude
begin

section \<open>Message digests: \<^verbatim>\<open>protocols/common/Digest.h\<close>, \<^verbatim>\<open>Digest.cc\<close> and \<^verbatim>\<open>MD5.h\<close>\<close>

text \<open>
  The MD5 routines as the code has them: a context with the chaining state, the bit count in two
  32-bit words and a 64-byte buffer, fed by \<open>MD5Update\<close> in pieces of any length. \<open>md5_spec\<close>
  is the digest of a whole message as RFC 1321 defines it on top of the block transformation;
  the lemmas show that every way of feeding a message in pieces computes it.
\<close>

datatype digest = Digest (d0: u32) (d1: u32) (d2: u32) (d3: u32)

definition digest_zero :: digest where
  "digest_zero = Digest 0 0 0 0"

definition digest_is_zero :: "digest \<Rightarrow> bool" where
  "digest_is_zero x \<longleftrightarrow> d0 x = 0"

definition digest_eq :: "digest \<Rightarrow> digest \<Rightarrow> bool" where
  "digest_eq x y \<longleftrightarrow> d0 x = d0 y \<and> d1 x = d1 y \<and> d2 x = d2 y \<and> d3 x = d3 y"

definition digest_hash :: "digest \<Rightarrow> int" where
  "digest_hash x = sint (d0 x)"

definition digest_bytes :: "digest \<Rightarrow> byte list" where
  "digest_bytes x = u32_bytes (d0 x) @ u32_bytes (d1 x) @ u32_bytes (d2 x) @ u32_bytes (d3 x)"

definition bytes_digest :: "byte list \<Rightarrow> digest" where
  "bytes_digest bs = Digest (bytes_u32 (take 4 bs)) (bytes_u32 (take 4 (drop 4 bs)))
     (bytes_u32 (take 4 (drop 8 bs))) (bytes_u32 (take 4 (drop 12 bs)))"

subsection \<open>The block transformation\<close>

definition md5_F :: "u32 \<Rightarrow> u32 \<Rightarrow> u32 \<Rightarrow> u32" where
  "md5_F x y z = z XOR (x AND (y XOR z))"

definition md5_G :: "u32 \<Rightarrow> u32 \<Rightarrow> u32 \<Rightarrow> u32" where
  "md5_G x y z = md5_F z x y"

definition md5_H :: "u32 \<Rightarrow> u32 \<Rightarrow> u32 \<Rightarrow> u32" where
  "md5_H x y z = x XOR y XOR z"

definition md5_I :: "u32 \<Rightarrow> u32 \<Rightarrow> u32 \<Rightarrow> u32" where
  "md5_I x y z = y XOR (x OR (NOT z))"

definition rotate_left :: "u32 \<Rightarrow> nat \<Rightarrow> u32" where
  "rotate_left x n = push_bit n x OR drop_bit (32 - n) x"

type_synonym md5_state = "u32 \<times> u32 \<times> u32 \<times> u32"

text \<open>
  One of the macros \<open>FF\<close>, \<open>GG\<close>, \<open>HH\<close>, \<open>II\<close>: it assigns its first argument. The calls rotate
  the roles of the four registers, so the step returns them in the order of the next call.
\<close>

definition md5_step :: "(u32 \<Rightarrow> u32 \<Rightarrow> u32 \<Rightarrow> u32) \<Rightarrow> u32 list \<Rightarrow> nat \<times> nat \<times> u32 \<Rightarrow> md5_state \<Rightarrow> md5_state" where
  "md5_step f x step st =
     (case step of (k, s, ac) \<Rightarrow> case st of (a, b, c, d) \<Rightarrow>
        let a1 = a + (f b c d + x ! k + ac);
            a2 = rotate_left a1 s;
            a3 = a2 + b
        in (d, a3, b, c))"

definition md5_round1 :: "(nat \<times> nat \<times> u32) list" where
  "md5_round1 =
    [(0, 7, 0xd76aa478), (1, 12, 0xe8c7b756), (2, 17, 0x242070db), (3, 22, 0xc1bdceee),
     (4, 7, 0xf57c0faf), (5, 12, 0x4787c62a), (6, 17, 0xa8304613), (7, 22, 0xfd469501),
     (8, 7, 0x698098d8), (9, 12, 0x8b44f7af), (10, 17, 0xffff5bb1), (11, 22, 0x895cd7be),
     (12, 7, 0x6b901122), (13, 12, 0xfd987193), (14, 17, 0xa679438e), (15, 22, 0x49b40821)]"

definition md5_round2 :: "(nat \<times> nat \<times> u32) list" where
  "md5_round2 =
    [(1, 5, 0xf61e2562), (6, 9, 0xc040b340), (11, 14, 0x265e5a51), (0, 20, 0xe9b6c7aa),
     (5, 5, 0xd62f105d), (10, 9, 0x2441453), (15, 14, 0xd8a1e681), (4, 20, 0xe7d3fbc8),
     (9, 5, 0x21e1cde6), (14, 9, 0xc33707d6), (3, 14, 0xf4d50d87), (8, 20, 0x455a14ed),
     (13, 5, 0xa9e3e905), (2, 9, 0xfcefa3f8), (7, 14, 0x676f02d9), (12, 20, 0x8d2a4c8a)]"

definition md5_round3 :: "(nat \<times> nat \<times> u32) list" where
  "md5_round3 =
    [(5, 4, 0xfffa3942), (8, 11, 0x8771f681), (11, 16, 0x6d9d6122), (14, 23, 0xfde5380c),
     (1, 4, 0xa4beea44), (4, 11, 0x4bdecfa9), (7, 16, 0xf6bb4b60), (10, 23, 0xbebfbc70),
     (13, 4, 0x289b7ec6), (0, 11, 0xeaa127fa), (3, 16, 0xd4ef3085), (6, 23, 0x4881d05),
     (9, 4, 0xd9d4d039), (12, 11, 0xe6db99e5), (15, 16, 0x1fa27cf8), (2, 23, 0xc4ac5665)]"

definition md5_round4 :: "(nat \<times> nat \<times> u32) list" where
  "md5_round4 =
    [(0, 6, 0xf4292244), (7, 10, 0x432aff97), (14, 15, 0xab9423a7), (5, 21, 0xfc93a039),
     (12, 6, 0x655b59c3), (3, 10, 0x8f0ccc92), (10, 15, 0xffeff47d), (1, 21, 0x85845dd1),
     (8, 6, 0x6fa87e4f), (15, 10, 0xfe2ce6e0), (6, 15, 0xa3014314), (13, 21, 0x4e0811a1),
     (4, 6, 0xf7537e82), (11, 10, 0xbd3af235), (2, 15, 0x2ad7d2bb), (9, 21, 0xeb86d391)]"

text \<open>The block read as sixteen little-endian words.\<close>

definition block_words :: "byte list \<Rightarrow> u32 list" where
  "block_words block = map (\<lambda>i. bytes_u32 (take 4 (drop (4 * i) block))) [0..<16]"

definition MD5Transform :: "md5_state \<Rightarrow> byte list \<Rightarrow> md5_state" where
  "MD5Transform state block =
     (let x = block_words block;
          r1 = fold (md5_step md5_F x) md5_round1 state;
          r2 = fold (md5_step md5_G x) md5_round2 r1;
          r3 = fold (md5_step md5_H x) md5_round3 r2;
          r4 = fold (md5_step md5_I x) md5_round4 r3
      in case state of (s0, s1, s2, s3) \<Rightarrow> case r4 of (a, b, c, d) \<Rightarrow>
           (s0 + a, s1 + b, s2 + c, s3 + d))"

subsection \<open>Contexts\<close>

record md5_ctx =
  md5_chain :: md5_state
  md5_count0 :: u32
  md5_count1 :: u32
  md5_buffer :: "byte list"

definition md5_iv :: md5_state where
  "md5_iv = (0x67452301, 0xefcdab89, 0x98badcfe, 0x10325476)"

text \<open>\<open>MD5Init\<close> leaves the buffer of the caller's context as it is.\<close>

definition MD5Init :: "byte list \<Rightarrow> md5_ctx" where
  "MD5Init buf = \<lparr>md5_chain = md5_iv, md5_count0 = 0, md5_count1 = 0, md5_buffer = buf\<rparr>"

definition MD5InitIV :: "byte list \<Rightarrow> digest \<Rightarrow> int \<Rightarrow> md5_ctx" where
  "MD5InitIV buf dg cnt =
     \<lparr>md5_chain = (d0 dg, d1 dg, d2 dg, d3 dg), md5_count0 = word_of_int (cnt * 8),
      md5_count1 = 0, md5_buffer = buf\<rparr>"

definition memcpy_at :: "byte list \<Rightarrow> nat \<Rightarrow> byte list \<Rightarrow> byte list" where
  "memcpy_at dst off src = take off dst @ src @ drop (off + length src) dst"

text \<open>The loop \<open>for (i = partLen; i + 63 < inputLen; i += 64)\<close>: it returns \<open>i\<close> and the state.\<close>

function md5_loop :: "byte list \<Rightarrow> nat \<Rightarrow> md5_state \<Rightarrow> nat \<times> md5_state" where
  "md5_loop input i st =
     (if i + 63 < length input
      then md5_loop input (i + 64) (MD5Transform st (take 64 (drop i input)))
      else (i, st))"
  by pat_completeness auto
termination
  by (relation "measure (\<lambda>(input, i, st). length input - i)") auto

declare md5_loop.simps [simp del]

definition md5_index :: "md5_ctx \<Rightarrow> nat" where
  "md5_index c = unat (drop_bit 3 (md5_count0 c) AND 0x3F)"

definition MD5Update :: "md5_ctx \<Rightarrow> byte list \<Rightarrow> md5_ctx" where
  "MD5Update c input =
     (let len = (word_of_nat (length input) :: u32);
          index = md5_index c;
          count0 = md5_count0 c + push_bit 3 len;
          count1a = (if count0 < push_bit 3 len then md5_count1 c + 1 else md5_count1 c);
          count1 = count1a + drop_bit 29 len;
          partLen = 64 - index
      in if length input \<ge> partLen
         then let buffer = memcpy_at (md5_buffer c) index (take partLen input);
                  st = MD5Transform (md5_chain c) buffer;
                  (i, st') = md5_loop input partLen st
              in \<lparr>md5_chain = st', md5_count0 = count0, md5_count1 = count1,
                  md5_buffer = memcpy_at buffer 0 (drop i input)\<rparr>
         else \<lparr>md5_chain = md5_chain c, md5_count0 = count0, md5_count1 = count1,
               md5_buffer = memcpy_at (md5_buffer c) index input\<rparr>)"

definition md5_padding :: "byte list" where
  "md5_padding = 0x80 # replicate 63 0"

definition MD5Final :: "md5_ctx \<Rightarrow> digest" where
  "MD5Final c =
     (let bits = u32_bytes (md5_count0 c) @ u32_bytes (md5_count1 c);
          index = md5_index c;
          padLen = (if index < 56 then 56 - index else 120 - index);
          c1 = MD5Update c (take padLen md5_padding);
          c2 = MD5Update c1 bits
      in case md5_chain c2 of (a, b, c, d) \<Rightarrow> Digest a b c d)"

definition digest_of :: "byte list \<Rightarrow> byte list \<Rightarrow> digest" where
  "digest_of buf s = MD5Final (MD5Update (MD5Init buf) s)"

text \<open>\<open>Digest(s, n)\<close> of a sequence of bytes, with a context whose buffer is cleared.\<close>

definition Digest_of :: "byte list \<Rightarrow> digest" where
  "Digest_of bs = digest_of (replicate 64 0) bs"

subsection \<open>The digest of a message, RFC 1321\<close>

function md5_blocks :: "byte list \<Rightarrow> byte list list" where
  "md5_blocks m = (if length m < 64 then [] else take 64 m # md5_blocks (drop 64 m))"
  by pat_completeness auto
termination
  by (relation "measure length") auto

function md5_rest :: "byte list \<Rightarrow> byte list" where
  "md5_rest m = (if length m < 64 then m else md5_rest (drop 64 m))"
  by pat_completeness auto
termination
  by (relation "measure length") auto

declare md5_blocks.simps [simp del] md5_rest.simps [simp del]

definition md5_pad :: "byte list \<Rightarrow> byte list" where
  "md5_pad m = m @ 0x80 # replicate ((119 - length m mod 64) mod 64) 0
                 @ le_bytes 8 (8 * length m mod 2 ^ 64)"

definition md5_spec :: "byte list \<Rightarrow> digest" where
  "md5_spec m = (case foldl MD5Transform md5_iv (md5_blocks (md5_pad m)) of
                   (a, b, c, d) \<Rightarrow> Digest a b c d)"

text \<open>The context after the bytes \<open>m\<close> have been fed to it.\<close>

definition md5_repr :: "md5_ctx \<Rightarrow> byte list \<Rightarrow> bool" where
  "md5_repr c m \<longleftrightarrow>
     md5_chain c = foldl MD5Transform md5_iv (md5_blocks m) \<and>
     unat (md5_count0 c) + 2 ^ 32 * unat (md5_count1 c) = 8 * length m mod 2 ^ 64 \<and>
     length (md5_buffer c) = 64 \<and>
     take (length (md5_rest m)) (md5_buffer c) = md5_rest m"

lemma md5_short [simp]: "length m < 64 \<Longrightarrow> md5_blocks m = []" "length m < 64 \<Longrightarrow> md5_rest m = m"
  by (simp_all add: md5_blocks.simps md5_rest.simps)

lemma md5_full:
  "length b = 64 \<Longrightarrow> md5_blocks (b @ m) = b # md5_blocks m"
  "length b = 64 \<Longrightarrow> md5_rest (b @ m) = md5_rest m"
  by (simp_all add: md5_blocks.simps [of "b @ m"] md5_rest.simps [of "b @ m"])

lemma length_md5_rest: "length (md5_rest m) = length m mod 64"
proof (induction m rule: md5_rest.induct)
  case (1 m)
  then show ?case
    by (cases "length m < 64") (simp_all add: md5_rest.simps [of m] le_mod_geq)
qed

lemma md5_append:
  "md5_blocks (m @ x) = md5_blocks m @ md5_blocks (md5_rest m @ x) \<and>
   md5_rest (m @ x) = md5_rest (md5_rest m @ x)"
proof (induction m rule: md5_rest.induct)
  case (1 m)
  show ?case
  proof (cases "length m < 64")
    case True
    then show ?thesis by simp
  next
    case False
    define b where "b = take 64 m"
    define r where "r = drop 64 m"
    have m: "m = b @ r" and b: "length b = 64"
      using False by (simp_all add: b_def r_def)
    have "md5_blocks (r @ x) = md5_blocks r @ md5_blocks (md5_rest r @ x) \<and>
          md5_rest (r @ x) = md5_rest (md5_rest r @ x)"
      using 1 False by (simp add: r_def)
    then show ?thesis
      by (simp add: m md5_full b)
  qed
qed

lemma md5_loop_eq:
  "i \<le> length input \<Longrightarrow>
   snd (md5_loop input i st) = foldl MD5Transform st (md5_blocks (drop i input)) \<and>
   drop (fst (md5_loop input i st)) input = md5_rest (drop i input)"
proof (induction input i st rule: md5_loop.induct)
  case (1 input i st)
  show ?case
  proof (cases "i + 63 < length input")
    case True
    define b where "b = take 64 (drop i input)"
    have d: "drop i input = b @ drop (i + 64) input" and b: "length b = 64"
      using True by (auto simp: b_def) (metis add.commute append_take_drop_id drop_drop)
    show ?thesis
      using 1 True by (simp add: md5_loop.simps [of input i] d md5_full b flip: b_def)
  next
    case False
    then show ?thesis
      using 1 by (simp add: md5_loop.simps [of input i])
  qed
qed

lemma md5_index_eq:
  assumes "md5_repr c m"
  shows "md5_index c = length m mod 64"
proof -
  have "unat (md5_count0 c) = (8 * length m mod 2 ^ 64) mod 2 ^ 32"
    using assms unsigned_less [of "md5_count0 c", where ?'a = nat]
    by (simp add: md5_repr_def flip: assms) (metis mod_less mod_mult_self2 mult.commute)
  also have "\<dots> = 8 * length m mod 2 ^ 32"
    by (simp add: mod_mod_cancel)
  finally have c: "unat (md5_count0 c) = 8 * length m mod 2 ^ 32" .
  have "md5_index c = unat (md5_count0 c) div 8 mod 64"
    using take_bit_eq_mask [of 6 "unat (drop_bit 3 (md5_count0 c))"]
    by (simp add: md5_index_def unsigned_and_eq unsigned_drop_bit_eq drop_bit_eq_div
        take_bit_eq_mod mask_eq_exp_minus_1 and.commute unat_div_distrib)
  also have "unat (md5_count0 c) = 8 * (length m mod 2 ^ 29)"
    unfolding c using mult_mod_right [of 8 "length m" "2 ^ 29"] by simp
  also have "8 * (length m mod 2 ^ 29) div 8 mod 64 = length m mod 64"
    by (simp add: mod_mod_cancel)
  finally show ?thesis .
qed

text \<open>The two-word bit counter: the carry out of the low word is found by comparison.\<close>

lemma mod_two_words: "a < w \<Longrightarrow> (a + w * b) mod (w * w) = a + w * (b mod w)" for a b w :: nat
  by (simp add: mod_mult2_eq)

lemma md5_count_step:
  fixes a b :: u32 and n :: nat
  assumes n: "n < 2 ^ 32" and ab: "unat a + 2 ^ 32 * unat b = k mod 2 ^ 64"
  defines "len \<equiv> word_of_nat n :: u32"
  defines "a' \<equiv> a + push_bit 3 len"
  defines "b' \<equiv> (if a' < push_bit 3 len then b + 1 else b) + drop_bit 29 len"
  shows "unat a' + 2 ^ 32 * unat b' = (k + 8 * n) mod 2 ^ 64"
proof -
  define lo where "lo = 8 * n mod 2 ^ 32"
  define hi where "hi = 8 * n div 2 ^ 32"
  define carry :: nat where "carry = (if unat a + lo \<ge> 2 ^ 32 then 1 else 0)"
  have al: "unat a < 2 ^ 32"
    using unsigned_less [of a, where ?'a = nat] by simp
  have len: "unat len = n"
    using n by (simp add: len_def unat_of_nat)
  have lo: "unat (push_bit 3 len) = lo"
    using len by (simp add: lo_def push_bit_eq_mult unat_word_ariths mult.commute)
  have lol: "lo < 2 ^ 32"
    by (simp add: lo_def)
  have hi: "unat (drop_bit 29 len) = hi"
    using len by (simp add: hi_def drop_bit_eq_div unat_div_distrib)
  have a': "unat a' = (unat a + lo) mod 2 ^ 32"
    by (simp add: a'_def unat_word_ariths lo)
  have a'c: "unat a' + 2 ^ 32 * carry = unat a + lo"
    using al lol by (auto simp: a' carry_def le_mod_geq)
  have c: "a' < push_bit 3 len \<longleftrightarrow> carry = 1"
    using a'c al lol by (auto simp: word_less_nat_alt lo carry_def)
  have b': "unat b' = (unat b + carry + hi) mod 2 ^ 32"
  proof (cases "a' < push_bit 3 len")
    case True
    then show ?thesis
      using c by (simp add: b'_def unat_word_ariths hi mod_simps)
  next
    case False
    then have "carry = 0" using c by (auto simp: carry_def split: if_splits)
    then show ?thesis
      using False by (simp add: b'_def unat_word_ariths hi)
  qed
  have "unat a' + 2 ^ 32 * unat b' = (unat a' + 2 ^ 32 * (unat b + carry + hi)) mod 2 ^ 64"
  proof -
    have "unat a' < 2 ^ 32" by (simp add: a')
    from mod_two_words [OF this, of "unat b + carry + hi"] show ?thesis
      by (simp add: b')
  qed
  also have "unat a' + 2 ^ 32 * (unat b + carry + hi) = (unat a + 2 ^ 32 * unat b) + 8 * n"
  proof -
    have "lo + 2 ^ 32 * hi = 8 * n" unfolding lo_def hi_def by (rule mod_mult_div_eq)
    then show ?thesis using a'c by (simp add: algebra_simps)
  qed
  also have "\<dots> mod 2 ^ 64 = (k + 8 * n) mod 2 ^ 64"
    unfolding ab by (simp add: mod_simps)
  finally show ?thesis .
qed

lemma memcpy_at_take: "off \<le> length dst \<Longrightarrow> take (off + length src) (memcpy_at dst off src) = take off dst @ src"
  by (simp add: memcpy_at_def)

lemma length_memcpy_at: "off + length src \<le> length dst \<Longrightarrow> length (memcpy_at dst off src) = length dst"
  by (simp add: memcpy_at_def)

theorem md5_update_repr:
  assumes r: "md5_repr c m" and len: "length xs + 63 < 2 ^ 32"
  shows "md5_repr (MD5Update c xs) (m @ xs)"
proof -
  define i where "i = length m mod 64"
  define q where "q = md5_rest m"
  have i: "md5_index c = i" "i < 64" "length q = i"
    using md5_index_eq [OF r] length_md5_rest [of m] by (simp_all add: i_def q_def)
  have buf: "length (md5_buffer c) = 64" "take i (md5_buffer c) = q"
    using r i(3) by (simp_all add: md5_repr_def q_def)
  have chain: "md5_chain c = foldl MD5Transform md5_iv (md5_blocks m)"
    using r by (simp add: md5_repr_def)
  have ap: "md5_blocks (m @ xs) = md5_blocks m @ md5_blocks (q @ xs)"
    "md5_rest (m @ xs) = md5_rest (q @ xs)"
    using md5_append [of m xs] by (simp_all add: q_def)
  have count: "unat (md5_count0 (MD5Update c xs)) + 2 ^ 32 * unat (md5_count1 (MD5Update c xs)) =
      8 * length (m @ xs) mod 2 ^ 64"
    using md5_count_step [of "length xs" "md5_count0 c" "md5_count1 c" "8 * length m"] r len
    by (simp add: MD5Update_def Let_def md5_repr_def case_prod_beta algebra_simps)
  show ?thesis
  proof (cases "64 - i \<le> length xs")
    case True
    define b where "b = q @ take (64 - i) xs"
    have b: "length b = 64" "memcpy_at (md5_buffer c) i (take (64 - i) xs) = b"
      using True i buf by (simp_all add: b_def memcpy_at_def)
    have qxs: "q @ xs = b @ drop (64 - i) xs"
      by (simp add: b_def)
    let ?r = "md5_rest (drop (64 - i) xs)"
    have l: "snd (md5_loop xs (64 - i) st) = foldl MD5Transform st (md5_blocks (drop (64 - i) xs))"
      "drop (fst (md5_loop xs (64 - i) st)) xs = ?r" for st
      using md5_loop_eq [OF True] by blast+
    have rl: "length ?r \<le> 64"
      using length_md5_rest [of "drop (64 - i) xs"] by simp
    have u: "md5_chain (MD5Update c xs) =
        foldl MD5Transform (MD5Transform (md5_chain c) b) (md5_blocks (drop (64 - i) xs))"
      "md5_buffer (MD5Update c xs) = memcpy_at b 0 ?r"
      using True by (simp_all add: MD5Update_def Let_def case_prod_beta i b l)
    show ?thesis
      using count rl memcpy_at_take [of 0 b ?r] length_memcpy_at [of 0 ?r b]
      by (simp add: md5_repr_def u ap qxs md5_full b chain)
  next
    case False
    then have u: "md5_chain (MD5Update c xs) = md5_chain c"
      "md5_buffer (MD5Update c xs) = memcpy_at (md5_buffer c) i xs"
      by (simp_all add: MD5Update_def Let_def i)
    show ?thesis
      using count False memcpy_at_take [of i "md5_buffer c" xs] length_memcpy_at [of i xs "md5_buffer c"]
      by (simp add: md5_repr_def u ap chain buf i)
  qed
qed

lemma md5_init_repr: "length buf = 64 \<Longrightarrow> md5_repr (MD5Init buf) []"
  by (simp add: md5_repr_def MD5Init_def)

lemma le_bytes_split: "le_bytes (j + k) n = le_bytes j n @ le_bytes k (n div 256 ^ j)"
  by (induction j arbitrary: n) (simp_all add: div_mult2_eq)

lemma le_bytes_add: "le_bytes k (a + 256 ^ k * b) = le_bytes k a"
  by (rule le_nat_inject) simp_all

theorem md5_final_spec:
  assumes r: "md5_repr c m"
  shows "MD5Final c = md5_spec m"
proof -
  define i where "i = length m mod 64"
  define z where "z = (119 - i) mod 64"
  have i: "md5_index c = i" "i < 64"
    using md5_index_eq [OF r] by (simp_all add: i_def)
  define pad where "pad = take (if i < 56 then 56 - i else 120 - i) md5_padding"
  have pad: "pad = 0x80 # replicate z 0"
  proof (cases "i < 56")
    case True
    then have "z = 55 - i" "56 - i = Suc (55 - i)" by (simp_all add: z_def le_mod_geq)
    then show ?thesis using True by (simp add: pad_def md5_padding_def)
  next
    case False
    then have "z = 119 - i" "120 - i = Suc (119 - i)" using i by (simp_all add: z_def)
    then show ?thesis using False i by (simp add: pad_def md5_padding_def)
  qed
  define bits where "bits = u32_bytes (md5_count0 c) @ u32_bytes (md5_count1 c)"
  have bits: "bits = le_bytes 8 (8 * length m mod 2 ^ 64)"
  proof -
    have e: "8 * length m mod 2 ^ 64 = unat (md5_count0 c) + 256 ^ 4 * unat (md5_count1 c)"
      using r by (simp add: md5_repr_def)
    have "unat (md5_count0 c) < 256 ^ 4"
      using unsigned_less [of "md5_count0 c", where ?'a = nat] by simp
    then have "le_bytes (4 + 4) (unat (md5_count0 c) + 256 ^ 4 * unat (md5_count1 c)) = bits"
      unfolding le_bytes_split by (simp add: bits_def u32_bytes_def le_bytes_add del: power_numeral)
    then show ?thesis unfolding e by simp
  qed
  have "md5_repr (MD5Update (MD5Update c pad) bits) ((m @ pad) @ bits)"
    by (intro md5_update_repr r) (simp_all add: pad bits z_def)
  then have "md5_chain (MD5Update (MD5Update c pad) bits) = foldl MD5Transform md5_iv (md5_blocks (md5_pad m))"
    by (simp add: md5_repr_def md5_pad_def pad bits z_def i_def)
  then show ?thesis
    by (simp add: MD5Final_def md5_spec_def i Let_def flip: pad_def bits_def)
qed

lemma digest_of_spec: "length buf = 64 \<Longrightarrow> length s + 63 < 2 ^ 32 \<Longrightarrow> digest_of buf s = md5_spec s"
  using md5_update_repr [OF md5_init_repr [of buf], of s]
  by (simp add: digest_of_def md5_final_spec)

subsection \<open>Feeding a message in pieces\<close>

text \<open>
  The interface of an incremental hash: what the callers that digest a message in several parts
  (headers, commands, histories) rely on.
\<close>

locale incremental_hash =
  fixes start :: "'b \<Rightarrow> 'c" and feed :: "'c \<Rightarrow> 'x list \<Rightarrow> 'c" and finish :: "'c \<Rightarrow> 'd"
    and start_ok :: "'b \<Rightarrow> bool" and piece_ok :: "'x list \<Rightarrow> bool"
    and fed :: "'c \<Rightarrow> 'x list \<Rightarrow> bool" and whole :: "'x list \<Rightarrow> 'd"
  assumes fed_start: "start_ok b \<Longrightarrow> fed (start b) []"
    and fed_feed: "fed c m \<Longrightarrow> piece_ok x \<Longrightarrow> fed (feed c x) (m @ x)"
    and fed_finish: "fed c m \<Longrightarrow> finish c = whole m"
begin

lemma fed_pieces: "fed c m \<Longrightarrow> \<forall>x\<in>set xs. piece_ok x \<Longrightarrow> fed (foldl feed c xs) (m @ concat xs)"
  by (induction xs arbitrary: c m) (force dest: fed_feed)+

lemma pieces_whole:
  "start_ok b \<Longrightarrow> \<forall>x\<in>set xs. piece_ok x \<Longrightarrow> finish (foldl feed (start b) xs) = whole (concat xs)"
  using fed_pieces [OF fed_start] fed_finish by force

end

interpretation md5: incremental_hash MD5Init MD5Update MD5Final "\<lambda>buf. length buf = 64"
  "\<lambda>x. length x + 63 < 2 ^ 32" md5_repr md5_spec
  by unfold_locales (fact md5_init_repr md5_update_repr md5_final_spec)+

subsection \<open>Digests as values\<close>

lemma digest_eq_iff [simp]: "digest_eq x y \<longleftrightarrow> x = y"
  by (cases x; cases y) (simp add: digest_eq_def)

lemma length_digest_bytes [simp]: "length (digest_bytes x) = 16"
  by (simp add: digest_bytes_def)

lemma bytes_digest_bytes [simp]: "bytes_digest (digest_bytes x) = x"
  by (cases x) (simp add: bytes_digest_def digest_bytes_def)

lemma digest_bytes_bytes: "length bs = 16 \<Longrightarrow> digest_bytes (bytes_digest bs) = bs"
proof -
  assume l: "length bs = 16"
  have "bs = take 4 bs @ take 4 (drop 4 bs) @ take 4 (drop 8 bs) @ take 4 (drop 12 bs)"
    using l append_take_drop_id [of 4 bs] append_take_drop_id [of 4 "drop 4 bs"]
      append_take_drop_id [of 4 "drop 8 bs"] by simp
  with l show ?thesis
    by (simp add: digest_bytes_def bytes_digest_def u32_bytes_bytes_u32)
qed

text \<open>\<open>is_zero\<close> looks at the first word only, so it holds of digests that are not zero.\<close>

lemma digest_is_zero_partial: "digest_is_zero (Digest 0 1 0 0) \<and> Digest 0 1 0 0 \<noteq> digest_zero"
  by (simp add: digest_is_zero_def digest_zero_def)

subsection \<open>Properties\<close>

text \<open>
  C23: however a message is cut into pieces, feeding them to \<open>MD5Update\<close> one after the other and
  calling \<open>MD5Final\<close> gives the digest RFC 1321 defines for the whole message, whatever the
  buffer held before. A piece is shorter than \<^term>\<open>2 ^ 32 - 63 :: nat\<close> bytes, so that \<open>i + 63\<close>
  in the loop of \<open>MD5Update\<close> does not wrap around.
\<close>

theorem md5_pieces:
  assumes "length buf = 64" "\<forall>x\<in>set xs. length x + 63 < 2 ^ 32"
  shows "MD5Final (foldl MD5Update (MD5Init buf) xs) = md5_spec (concat xs)"
  using assms by (rule md5.pieces_whole)

theorem md5_pieces_witness:
  "MD5Final (foldl MD5Update (MD5Init (replicate 64 0)) [[97], [], [98, 99]]) = md5_spec [97, 98, 99]"
  using md5_pieces [of "replicate 64 0" "[[97], [], [98, 99]]"] by simp

text \<open>
  The test vectors of RFC 1321 for the empty message and for \<open>abc\<close>, evaluated on the code's
  routines.
\<close>

theorem md5_test_vectors:
  "digest_of (replicate 64 0) [] = Digest 0xd98c1dd4 0x04b2008f 0x980980e9 0x7e42f8ec \<and>
   digest_of (replicate 64 0) [97, 98, 99] = Digest 0x98500190 0xb04fd23c 0x7d3f96d6 0x727fe128"
  by code_simp

end
