(* ===== verification/DSums.thy ===== *)
theory DSums
  imports Digests "HOL-Library.Multiset"
begin

section \<open>Sums of digests: \<^verbatim>\<open>protocols/common/DSum.h\<close> and \<^verbatim>\<open>DSum.cc\<close>\<close>

text \<open>
  A history is summarised by the sum of the digests of its requests modulo a large integer, held
  in eight 32-bit limbs, least significant first. The limb arithmetic is GMP's: the record
  \<open>mpn\<close> holds the three routines the code calls, \<open>mpn_ok\<close> what the GMP manual says of them,
  and \<open>school_mpn\<close> is an instance. The modulus \<open>M\<close>, a static of the class, is an argument.
\<close>

fun limbs_val :: "u32 list \<Rightarrow> nat" where
  "limbs_val [] = 0"
| "limbs_val (x # xs) = unat x + 2 ^ 32 * limbs_val xs"

fun limbs_of :: "nat \<Rightarrow> nat \<Rightarrow> u32 list" where
  "limbs_of 0 v = []"
| "limbs_of (Suc k) v = word_of_nat v # limbs_of k (v div 2 ^ 32)"

record mpn =
  mpn_add :: "u32 list \<Rightarrow> u32 list \<Rightarrow> u32 list \<times> u32"
  mpn_sub :: "u32 list \<Rightarrow> u32 list \<Rightarrow> u32 list \<times> u32"
  mpn_cmp :: "u32 list \<Rightarrow> u32 list \<Rightarrow> int"

definition mpn_ok :: "mpn \<Rightarrow> bool" where
  "mpn_ok g \<longleftrightarrow>
     (\<forall>a b r c. length b \<le> length a \<longrightarrow> mpn_add g a b = (r, c) \<longrightarrow>
        length r = length a \<and>
        limbs_val r + 2 ^ (32 * length a) * unat c = limbs_val a + limbs_val b) \<and>
     (\<forall>a b r c. length b \<le> length a \<longrightarrow> mpn_sub g a b = (r, c) \<longrightarrow>
        length r = length a \<and>
        limbs_val r + limbs_val b = limbs_val a + 2 ^ (32 * length a) * unat c) \<and>
     (\<forall>a b. length a = length b \<longrightarrow>
        sgn (mpn_cmp g a b) = sgn (int (limbs_val a) - int (limbs_val b)))"

definition school_mpn :: mpn where
  "school_mpn =
     \<lparr>mpn_add = (\<lambda>a b. let s = limbs_val a + limbs_val b; B = 2 ^ (32 * length a)
                   in (limbs_of (length a) s, word_of_nat (s div B))),
      mpn_sub = (\<lambda>a b. let x = limbs_val a; y = limbs_val b; B = 2 ^ (32 * length a)
                   in (limbs_of (length a) (x + B - y), if x < y then 1 else 0)),
      mpn_cmp = (\<lambda>a b. int (limbs_val a) - int (limbs_val b))\<rparr>"

subsection \<open>The operations\<close>

type_synonym dsum = "u32 list"

definition nlimbs :: nat where
  "nlimbs = (256 + 32 - 1) div 32"

definition dlimbs :: nat where
  "dlimbs = 16 div 4"

definition dsum_new :: dsum where
  "dsum_new = replicate nlimbs 0"

definition dsum_bytes :: "dsum \<Rightarrow> byte list" where
  "dsum_bytes s = concat (map u32_bytes s)"

definition udigest :: "digest \<Rightarrow> u32 list" where
  "udigest d = [d0 d, d1 d, d2 d, d3 d]"

definition dsum_add :: "mpn \<Rightarrow> dsum \<Rightarrow> dsum \<Rightarrow> digest \<Rightarrow> dsum result" where
  "dsum_add g M s d =
     (case mpn_add g s (udigest d) of (s1, ret) \<Rightarrow>
        rbind (th_assert (ret = 0))
          (\<lambda>_. if mpn_cmp g s1 M \<ge> 0 then Inr (fst (mpn_sub g s1 M)) else Inr s1))"

definition dsum_sub :: "mpn \<Rightarrow> dsum \<Rightarrow> dsum \<Rightarrow> digest \<Rightarrow> dsum result" where
  "dsum_sub g M s d =
     (let gt = list_ex (\<lambda>i. s ! i \<noteq> 0) (rev [dlimbs..<nlimbs])
      in rbind
        (if \<not> gt \<and> mpn_cmp g (take dlimbs (drop (dlimbs - 1) s)) (udigest d) < 0
         then case mpn_add g s M of (s1, ret) \<Rightarrow> rbind (th_assert (ret = 0)) (\<lambda>_. Inr s1)
         else Inr s)
        (\<lambda>s1. case mpn_sub g s1 (udigest d) of (s2, ret) \<Rightarrow>
           rbind (th_assert (ret = 0)) (\<lambda>_. Inr s2)))"

text \<open>A sum of the right width; a modulus of at most 255 bits, not below the digests.\<close>

definition dsum_ok :: "dsum \<Rightarrow> bool" where
  "dsum_ok s \<longleftrightarrow> length s = nlimbs"

definition modulus_ok :: "dsum \<Rightarrow> bool" where
  "modulus_ok M \<longleftrightarrow> dsum_ok M \<and> 2 ^ 128 \<le> limbs_val M \<and> limbs_val M < 2 ^ 255"

definition digest_val :: "digest \<Rightarrow> nat" where
  "digest_val d = limbs_val (udigest d)"

subsection \<open>Limbs\<close>

lemma length_limbs_of [simp]: "length (limbs_of k v) = k"
  by (induction k arbitrary: v) auto

lemma limbs_val_of [simp]: "limbs_val (limbs_of k v) = v mod 2 ^ (32 * k)"
proof (induction k arbitrary: v)
  case 0
  show ?case by simp
next
  case (Suc k)
  have "(2 :: nat) ^ (32 * Suc k) = 2 ^ 32 * 2 ^ (32 * k)"
    by (simp add: power_add)
  then show ?case
    unfolding \<open>2 ^ (32 * Suc k) = _\<close> mod_mult2_eq by (simp add: Suc unat_of_nat)
qed

lemma limbs_val_bound: "limbs_val xs < 2 ^ (32 * length xs)"
proof (induction xs)
  case Nil
  show ?case by simp
next
  case (Cons x xs)
  have "unat x < 2 ^ 32"
    using unsigned_less [of x, where ?'a = nat] by simp
  moreover have "limbs_val xs + 1 \<le> 2 ^ (32 * length xs)"
    using Cons by simp
  ultimately have "unat x + 2 ^ 32 * limbs_val xs < 2 ^ 32 * 2 ^ (32 * length xs)"
    by (smt (verit) add_mult_distrib2 mult.right_neutral mult_le_mono2 nat_add_left_cancel_less
        add.commute less_le_trans)
  then show ?case
    by (simp add: power_add)
qed

lemma limbs_val_append: "limbs_val (xs @ ys) = limbs_val xs + 2 ^ (32 * length xs) * limbs_val ys"
  by (induction xs) (simp_all add: power_add algebra_simps)

lemma limbs_val_parts: "limbs_val (take n xs) \<le> limbs_val xs" "limbs_val (drop n xs) \<le> limbs_val xs"
  using limbs_val_append [of "take n xs" "drop n xs"] by (simp_all add: trans_le_add2)

lemma limbs_val_zero [simp]: "limbs_val (replicate n 0) = 0"
  by (induction n) auto

lemma limbs_val_inject: "length xs = length ys \<Longrightarrow> limbs_val xs = limbs_val ys \<Longrightarrow> xs = ys"
proof (induction xs ys rule: list_induct2)
  case Nil
  show ?case by simp
next
  case (Cons x xs y ys)
  have b: "unat x < 2 ^ 32" "unat y < 2 ^ 32"
    using unsigned_less [of x, where ?'a = nat] unsigned_less [of y, where ?'a = nat] by simp_all
  have "limbs_val (x # xs) mod 2 ^ 32 = unat x" "limbs_val (x # xs) div 2 ^ 32 = limbs_val xs"
    "limbs_val (y # ys) mod 2 ^ 32 = unat y" "limbs_val (y # ys) div 2 ^ 32 = limbs_val ys"
    using b by simp_all
  with Cons have "unat x = unat y" "limbs_val xs = limbs_val ys" by metis+
  with Cons show ?case by (simp add: unsigned_word_eqI)
qed

lemma digest_val_bound: "digest_val d < 2 ^ 128"
  using limbs_val_bound [of "udigest d"] by (simp add: digest_val_def udigest_def)

lemma dsum_val_bound: "dsum_ok s \<Longrightarrow> limbs_val s < 2 ^ 256"
  using limbs_val_bound [of s] by (simp add: dsum_ok_def nlimbs_def)

lemma school_mpn_ok: "mpn_ok school_mpn"
proof -
  have c: "unat (word_of_nat ((x + y) div B) :: u32) = (x + y) div B"
    if "x < B" "y < B" for x y B :: nat
  proof -
    have "(x + y) div B \<le> 1" using that by (simp add: div_le_mono less_Suc_eq_le [symmetric] div_less_iff_less_mult)
    then show ?thesis by (simp add: unat_of_nat)
  qed
  have bb: "limbs_val b < 2 ^ (32 * length a)" if "length b \<le> length a" for a b :: "u32 list"
    using limbs_val_bound [of b] that
    by (meson less_le_trans mult_le_mono2 one_le_numeral power_increasing)
  have "(x + B - y) mod B + y = x + B * (if x < y then 1 else 0)" if "x < B" "y < B" for x y B :: nat
    using that by (auto simp: le_mod_geq)
  then show ?thesis
    using bb limbs_val_bound by (auto simp: mpn_ok_def school_mpn_def Let_def c)
qed

subsection \<open>Adding and subtracting\<close>

lemma mpn_add_facts:
  "mpn_ok g \<Longrightarrow> length b \<le> length a \<Longrightarrow> mpn_add g a b = (r, c) \<Longrightarrow>
     length r = length a \<and> limbs_val r + 2 ^ (32 * length a) * unat c = limbs_val a + limbs_val b"
  unfolding mpn_ok_def by blast

lemma mpn_sub_facts:
  "mpn_ok g \<Longrightarrow> length b \<le> length a \<Longrightarrow> mpn_sub g a b = (r, c) \<Longrightarrow>
     length r = length a \<and> limbs_val r + limbs_val b = limbs_val a + 2 ^ (32 * length a) * unat c"
  unfolding mpn_ok_def by blast

lemma mpn_cmp_facts:
  assumes "mpn_ok g" "length a = length b"
  shows "mpn_cmp g a b < 0 \<longleftrightarrow> limbs_val a < limbs_val b"
  using assms by (metis (no_types, lifting) diff_gt_0_iff_gt diff_less_0_iff_less mpn_ok_def
      of_nat_less_iff sgn_less)

text \<open>GMP addition and subtraction when the exact result fits: no carry, no borrow.\<close>

lemma mpn_add_fits:
  assumes "mpn_ok g" "length b \<le> length a" "limbs_val a + limbs_val b < 2 ^ (32 * length a)"
  shows "\<exists>r. mpn_add g a b = (r, 0) \<and> length r = length a \<and> limbs_val r = limbs_val a + limbs_val b"
proof -
  obtain r c where rc: "mpn_add g a b = (r, c)" by force
  note f = mpn_add_facts [OF assms(1,2) rc]
  have "unat c = 0"
  proof (rule ccontr)
    assume "unat c \<noteq> 0"
    then have "2 ^ (32 * length a) \<le> 2 ^ (32 * length a) * unat c" by simp
    then show False using f assms(3) by linarith
  qed
  moreover from this have "c = 0" by (simp add: unsigned_word_eqI)
  ultimately show ?thesis
    using f rc by simp
qed

lemma mpn_sub_fits:
  assumes "mpn_ok g" "length b \<le> length a" "limbs_val b \<le> limbs_val a"
  shows "\<exists>r. mpn_sub g a b = (r, 0) \<and> length r = length a \<and> limbs_val r = limbs_val a - limbs_val b"
proof -
  obtain r c where rc: "mpn_sub g a b = (r, c)" by force
  note f = mpn_sub_facts [OF assms(1,2) rc]
  have r: "limbs_val r < 2 ^ (32 * length a)"
    using limbs_val_bound [of r] f by simp
  have "unat c = 0"
  proof (rule ccontr)
    assume "unat c \<noteq> 0"
    then have "2 ^ (32 * length a) \<le> 2 ^ (32 * length a) * unat c" by simp
    then show False using f r assms(3) by linarith
  qed
  moreover from this have "c = 0" by (simp add: unsigned_word_eqI)
  moreover have "limbs_val r = limbs_val a - limbs_val b"
    using conjunct2 [OF f] \<open>unat c = 0\<close> by simp
  ultimately show ?thesis
    using f rc by simp
qed

lemma dsum_add_val:
  assumes g: "mpn_ok g" and s: "dsum_ok s" and M: "dsum_ok M"
    and fits: "limbs_val s + digest_val d < 2 ^ 256"
  shows "\<exists>s'. dsum_add g M s d = Inr s' \<and> dsum_ok s' \<and>
     limbs_val s' = (let v = limbs_val s + digest_val d
                     in if limbs_val M \<le> v then v - limbs_val M else v)"
proof -
  obtain s1 where s1: "mpn_add g s (udigest d) = (s1, 0)" "length s1 = length s"
    "limbs_val s1 = limbs_val s + digest_val d"
    using mpn_add_fits [OF g, of "udigest d" s] s fits
    by (auto simp: dsum_ok_def nlimbs_def udigest_def digest_val_def)
  have l: "length s1 = length M"
    using s M s1 by (simp add: dsum_ok_def)
  show ?thesis
  proof (cases "limbs_val M \<le> limbs_val s1")
    case True
    then have "\<not> mpn_cmp g s1 M < 0" using mpn_cmp_facts [OF g l] by simp
    moreover obtain s2 where "mpn_sub g s1 M = (s2, 0)" "length s2 = length s1"
      "limbs_val s2 = limbs_val s1 - limbs_val M"
      using mpn_sub_fits [OF g, of M s1] l True by auto
    ultimately show ?thesis
      using True s s1 by (simp add: dsum_add_def dsum_ok_def)
  next
    case False
    then have "mpn_cmp g s1 M < 0" using mpn_cmp_facts [OF g l] by simp
    then show ?thesis
      using False s s1 by (simp add: dsum_add_def dsum_ok_def)
  qed
qed

lemma dsum_add_mod:
  assumes "mpn_ok g" "modulus_ok M" "dsum_ok s" "limbs_val s < limbs_val M"
  shows "\<exists>s'. dsum_add g M s d = Inr s' \<and> dsum_ok s' \<and> limbs_val s' < limbs_val M \<and>
     limbs_val s' = (limbs_val s + digest_val d) mod limbs_val M"
proof -
  have "limbs_val s + digest_val d < 2 * limbs_val M"
    using digest_val_bound [of d] assms by (simp add: modulus_ok_def)
  moreover have "limbs_val s + digest_val d < 2 ^ 256"
    using calculation assms(2) by (simp add: modulus_ok_def)
  ultimately show ?thesis
    using dsum_add_val [OF assms(1,3), of M d] assms(2)
    by (auto simp: modulus_ok_def Let_def le_mod_geq)
qed

text \<open>
  \<open>sub\<close> compares the limbs 3 to 6 of the sum with the digest, not the limbs 0 to 3. It may add
  the modulus when this is not needed, it never leaves it out when it is.
\<close>

lemma dsum_sub_val:
  assumes g: "mpn_ok g" and M: "modulus_ok M" and s: "dsum_ok s" "limbs_val s < limbs_val M"
  shows "\<exists>s'. dsum_sub g M s d = Inr s' \<and> dsum_ok s' \<and>
     (limbs_val s' + digest_val d = limbs_val s \<or> limbs_val s' + digest_val d = limbs_val s + limbs_val M)"
proof -
  define gt where "gt = list_ex (\<lambda>i. s ! i \<noteq> 0) (rev [dlimbs..<nlimbs])"
  define w where "w = take dlimbs (drop (dlimbs - 1) s)"
  define c where "c \<longleftrightarrow> \<not> gt \<and> mpn_cmp g w (udigest d) < 0"
  define s1 where "s1 = (if c then fst (mpn_add g s M) else s)"
  have lw: "length w = length (udigest d)" and ls: "length s = 8"
    using s by (simp_all add: w_def dsum_ok_def nlimbs_def dlimbs_def udigest_def)
  have lM: "length M = length s" "limbs_val s + limbs_val M < 2 ^ (32 * length s)"
    "digest_val d \<le> limbs_val M"
    using M s digest_val_bound [of d] by (auto simp: modulus_ok_def dsum_ok_def nlimbs_def)
  have ge: "digest_val d \<le> limbs_val s" if "\<not> c"
  proof (cases gt)
    case True
    have "limbs_val (drop 4 s) \<noteq> 0"
    proof
      assume "limbs_val (drop 4 s) = 0"
      then have "drop 4 s = replicate (length (drop 4 s)) 0"
        by (intro limbs_val_inject) simp_all
      then have z: "drop 4 s = replicate 4 0" using ls by simp
      have "s ! i = 0" if "4 \<le> i" "i < 8" for i
      proof -
        have "drop 4 s ! (i - 4) = s ! i" using that ls by simp
        then show ?thesis using that unfolding z by simp
      qed
      with True show False by (auto simp: gt_def list_ex_iff dlimbs_def nlimbs_def)
    qed
    then have "1 \<le> limbs_val (drop 4 s)" by simp
    with limbs_val_append [of "take 4 s" "drop 4 s"] ls have "2 ^ 128 \<le> limbs_val s" by simp
    with digest_val_bound [of d] show ?thesis by linarith
  next
    case False
    with that have "digest_val d \<le> limbs_val w"
      using mpn_cmp_facts [OF g lw] by (simp add: c_def digest_val_def not_less)
    also have "limbs_val w \<le> limbs_val (drop 3 s)"
      using limbs_val_parts(1) [of 4 "drop 3 s"] by (simp add: w_def dlimbs_def)
    also have "\<dots> \<le> limbs_val s"
      by (rule limbs_val_parts)
    finally show ?thesis .
  qed
  have st: "(if c then case mpn_add g s M of (s1, ret) \<Rightarrow> rbind (th_assert (ret = 0)) (\<lambda>_. Inr s1)
             else Inr s) = Inr s1"
    "length s1 = length s" "limbs_val s1 = limbs_val s + (if c then limbs_val M else 0)"
    using mpn_add_fits [OF g _ lM(2)] lM(1) by (auto simp: s1_def)
  have "digest_val d \<le> limbs_val s1"
    using ge st(3) lM(3) by auto
  then obtain s2 where "mpn_sub g s1 (udigest d) = (s2, 0)" "length s2 = length s1"
    "limbs_val s2 = limbs_val s1 - digest_val d"
    using mpn_sub_fits [OF g, of "udigest d" s1] st(2) ls by (auto simp: digest_val_def udigest_def)
  moreover from this have "dsum_sub g M s d = Inr s2"
    unfolding dsum_sub_def Let_def gt_def [symmetric] w_def [symmetric] c_def [symmetric] st(1)
    by simp
  ultimately show ?thesis
    using st s \<open>digest_val d \<le> limbs_val s1\<close> by (auto simp: dsum_ok_def)
qed

lemma dsum_sub_mod:
  assumes "mpn_ok g" "modulus_ok M" "dsum_ok s" "limbs_val s < limbs_val M"
  shows "\<exists>s'. dsum_sub g M s d = Inr s' \<and> dsum_ok s' \<and>
     (limbs_val s' + digest_val d) mod limbs_val M = limbs_val s"
  using dsum_sub_val [OF assms, of d] assms(4) by force

text \<open>The sum of a list of digests, in the order in which they are added.\<close>

fun dsum_add_all :: "mpn \<Rightarrow> dsum \<Rightarrow> dsum \<Rightarrow> digest list \<Rightarrow> dsum result" where
  "dsum_add_all g M s [] = Inr s"
| "dsum_add_all g M s (d # ds) = rbind (dsum_add g M s d) (\<lambda>s'. dsum_add_all g M s' ds)"

lemma dsum_add_all_mod:
  assumes "mpn_ok g" "modulus_ok M" "dsum_ok s" "limbs_val s < limbs_val M"
  shows "\<exists>s'. dsum_add_all g M s ds = Inr s' \<and> dsum_ok s' \<and> limbs_val s' < limbs_val M \<and>
     limbs_val s' = (limbs_val s + sum_list (map digest_val ds)) mod limbs_val M"
  using assms(3,4)
proof (induction ds arbitrary: s)
  case Nil
  then show ?case by simp
next
  case (Cons d ds)
  from dsum_add_mod [OF assms(1,2) Cons.prems, of d]
  obtain s1 where s1: "dsum_add g M s d = Inr s1" "dsum_ok s1" "limbs_val s1 < limbs_val M"
    "limbs_val s1 = (limbs_val s + digest_val d) mod limbs_val M" by blast
  from Cons.IH [OF s1(2,3)] show ?case
    by (auto simp: s1(1)) (simp add: s1(4) mod_simps add.assoc)
qed

lemma dsum_ok_new [simp]: "dsum_ok dsum_new" "limbs_val dsum_new = 0"
  by (simp_all add: dsum_ok_def dsum_new_def)

lemma dsum_add_all_mset:
  assumes "mpn_ok g" "modulus_ok M" "dsum_ok s" "limbs_val s < limbs_val M" "mset ds = mset es"
  shows "dsum_add_all g M s ds = dsum_add_all g M s es"
proof -
  have "sum_list (map digest_val ds) = sum_list (map digest_val es)"
    using assms(5) by (metis mset_map sum_mset_sum_list)
  then show ?thesis
    using dsum_add_all_mod [OF assms(1-4), of ds] dsum_add_all_mod [OF assms(1-4), of es]
      limbs_val_inject by (fastforce simp: dsum_ok_def)
qed

lemma length_dsum_bytes: "dsum_ok s \<Longrightarrow> length (dsum_bytes s) = 32"
  by (simp add: dsum_ok_def dsum_bytes_def nlimbs_def length_concat comp_def sum_list_triv)

text \<open>A concrete modulus, for examples.\<close>

lemma modulus_ok_128: "modulus_ok (limbs_of 8 (2 ^ 128))"
  by (simp add: modulus_ok_def dsum_ok_def nlimbs_def)

lemma limbs_val_128: "limbs_val (limbs_of 8 (2 ^ 128)) = 2 ^ 128"
  by simp

subsection \<open>Properties\<close>

text \<open>
  C28: adding any list of digests to a sum that is below the modulus never trips the carry
  assertion and gives the sum of all their values modulo \<open>M\<close>, below \<open>M\<close> again.
\<close>

theorem dsum_add_correct:
  assumes "mpn_ok g" "modulus_ok M" "dsum_ok s" "limbs_val s < limbs_val M"
  shows "\<exists>s'. dsum_add_all g M s ds = Inr s' \<and> dsum_ok s' \<and> limbs_val s' < limbs_val M \<and>
     limbs_val s' = (limbs_val s + sum_list (map digest_val ds)) mod limbs_val M"
  using assms by (rule dsum_add_all_mod)

theorem dsum_add_correct_witness:
  "\<exists>s'. dsum_add_all school_mpn (limbs_of 8 (2 ^ 128)) dsum_new [Digest 1 0 0 0, Digest 2 0 0 0] = Inr s' \<and>
     limbs_val s' = 3"
  using dsum_add_correct [OF school_mpn_ok modulus_ok_128, of dsum_new "[Digest 1 0 0 0, Digest 2 0 0 0]"]
  unfolding limbs_val_128 by (auto simp: digest_val_def udigest_def simp del: dsum_add_all.simps)

text \<open>
  C29: \<open>sub\<close> undoes \<open>add\<close> modulo \<open>M\<close> and never trips its assertions, although it compares the
  wrong limbs.
\<close>

theorem dsum_sub_correct:
  assumes "mpn_ok g" "modulus_ok M" "dsum_ok s" "limbs_val s < limbs_val M"
  shows "\<exists>s'. dsum_sub g M s d = Inr s' \<and> dsum_ok s' \<and>
     (limbs_val s' + digest_val d) mod limbs_val M = limbs_val s"
  using assms by (rule dsum_sub_mod)

theorem dsum_sub_correct_witness:
  "\<exists>s'. dsum_sub school_mpn (limbs_of 8 (2 ^ 128)) dsum_new (Digest 1 0 0 0) = Inr s' \<and>
     (limbs_val s' + 1) mod 2 ^ 128 = 0"
  using dsum_sub_correct [OF school_mpn_ok modulus_ok_128, of dsum_new "Digest 1 0 0 0"]
  unfolding limbs_val_128 by (auto simp: digest_val_def udigest_def)

text \<open>The comparison of the wrong limbs leaves a sum that is not reduced: 1 - 1 gives \<open>M\<close>.\<close>

lemma dsum_sub_unreduced:
  "\<exists>s'. dsum_sub school_mpn [0, 0, 0, 0, 1, 0, 0, 0] [1, 0, 0, 0, 0, 0, 0, 0] (Digest 1 0 0 0) = Inr s' \<and>
     limbs_val s' = limbs_val [0, 0, 0, 0, 1, 0, 0, 0]"
  by (simp add: dsum_sub_def school_mpn_def udigest_def dlimbs_def nlimbs_def upt_rec Let_def)

end
