(* ===== verification/ReqHistory.thy ===== *)
theory ReqHistory
  imports Arrays DSums
begin

section \<open>The request history log: \<^verbatim>\<open>protocols/common/Request_history.h\<close>\<close>

text \<open>
  \<open>Req_history_log<AReq>\<close>: an array of entries (request, sequence number, digest of the history
  at that point) and the running sum of the digests of all requests ever added. The requests
  are of an arbitrary type, their digest, client and identifier are arguments as in the
  template. \<open>truncate_history\<close> is written with its three loops; it returns the requests it
  deletes. The log's mutex is released on every path of every method, so it has no place in the
  state.
\<close>

record 'r rh_entry =
  rhe_req :: "'r option"
  rhe_seq :: seqno
  rhe_d :: digest

record 'r req_history =
  rh_arr :: "'r rh_entry arr"
  rh_sum :: dsum
  rh_mod :: dsum

definition TRUNCATE_SIZE :: nat where
  "TRUNCATE_SIZE = 1024"

definition max_nb_requests_while_checkpointing :: int where
  "max_nb_requests_while_checkpointing = 256"

text \<open>\<open>M\<close> is the value \<open>mpn_set_str\<close> writes into the log's modulus.\<close>

definition rh_new :: "dsum \<Rightarrow> 'r req_history result" where
  "rh_new M =
     rbind (array_predict_new 512)
       (\<lambda>a. Inr \<lparr>rh_arr = a, rh_sum = dsum_new, rh_mod = M\<rparr>)"

text \<open>
  \<open>rh_digest\<close> digests the 32 bytes of the sum. The buffer of the context on the stack is not
  initialised; the digest does not depend on it (\<open>digest_of_spec\<close>).
\<close>

definition rh_digest :: "'r req_history \<Rightarrow> digest" where
  "rh_digest h = digest_of (replicate 64 0) (dsum_bytes (rh_sum h))"

definition rh_size :: "'r req_history \<Rightarrow> nat" where
  "rh_size h = array_size (rh_arr h)"

definition get_top_seqno :: "'r req_history \<Rightarrow> seqno result" where
  "get_top_seqno h =
     (if rh_size h = 0 then Inr 0 else rbind (array_high (rh_arr h)) (\<lambda>e. Inr (rhe_seq e)))"

text \<open>
  \<open>add_request\<close> adds \<open>req->digest()\<close>, the argument \<open>rd\<close>, to the sum and returns the new digest
  of the history through its reference parameter \<open>d\<close>.
\<close>

definition add_request :: "mpn \<Rightarrow> 'r req_history \<Rightarrow> 'r \<Rightarrow> digest \<Rightarrow> seqno \<Rightarrow> ('r req_history \<times> digest) result" where
  "add_request g h req rd s =
     rbind (dsum_add g (rh_mod h) (rh_sum h) rd)
       (\<lambda>sum. let h1 = h\<lparr>rh_sum := sum\<rparr>; d = rh_digest h1;
                  rhe = \<lparr>rhe_req = Some req, rhe_seq = s, rhe_d = d\<rparr>
              in Inr (h1\<lparr>rh_arr := array_append (rh_arr h1) rhe\<rparr>, d))"

fun find_seq :: "'r rh_entry arr \<Rightarrow> seqno \<Rightarrow> nat list \<Rightarrow> nat option result" where
  "find_seq a seq [] = Inr None"
| "find_seq a seq (i # is) =
     rbind (array_slot a (int i))
       (\<lambda>e. if rhe_seq e = seq then Inr (Some i) else find_seq a seq is)"

text \<open>The loop that deletes the requests up to \<open>pos\<close> and resets their entries.\<close>

definition drop_entry :: "'r rh_entry arr \<times> 'r list \<Rightarrow> nat \<Rightarrow> ('r rh_entry arr \<times> 'r list) result" where
  "drop_entry s i =
     (case s of (a, deleted) \<Rightarrow>
        rbind (array_slot a (int i))
          (\<lambda>e. let deleted' = (case rhe_req e of
                      Some r \<Rightarrow> if rhe_seq e \<noteq> 0 then deleted @ [r] else deleted
                    | None \<Rightarrow> deleted)
               in rbind (array_set_slot a (int i) (e\<lparr>rhe_req := None, rhe_seq := 0\<rparr>))
                    (\<lambda>a'. Inr (a', deleted'))))"

definition move_entry :: "nat \<Rightarrow> 'r rh_entry arr \<Rightarrow> nat \<Rightarrow> 'r rh_entry arr result" where
  "move_entry pos a i =
     rbind (array_slot a (int i)) (\<lambda>e. array_set_slot a (int i - int pos - 1) e)"

definition clear_entry :: "'r rh_entry arr \<Rightarrow> nat \<Rightarrow> 'r rh_entry arr result" where
  "clear_entry a i =
     rbind (array_slot a (int i)) (\<lambda>e. array_set_slot a (int i) (e\<lparr>rhe_req := None, rhe_seq := 0\<rparr>))"

definition truncate_history :: "'r req_history \<Rightarrow> seqno \<Rightarrow> (bool \<times> 'r req_history \<times> 'r list) result" where
  "truncate_history h seq =
     (let n = rh_size h in
      rbind (find_seq (rh_arr h) seq [0..<n]) (\<lambda>found.
      case found of
        None \<Rightarrow> Inr (False, h, [])
      | Some pos \<Rightarrow>
          rbind (for_loop drop_entry [0..<pos + 1] (rh_arr h, [])) (\<lambda>(a1, deleted).
          rbind (for_loop (move_entry pos) [pos + 1..<n] a1) (\<lambda>a2.
          rbind (for_loop clear_entry [n - pos..<n] a2) (\<lambda>a3.
          Inr (True, h\<lparr>rh_arr := enlarge_to a3 (n - pos - 1)\<rparr>, deleted))))))"

text \<open>The overload with a callback hands over every request it drops and deletes none.\<close>

definition hand_over_entry :: "'r rh_entry arr \<times> 'r list \<Rightarrow> nat \<Rightarrow> ('r rh_entry arr \<times> 'r list) result" where
  "hand_over_entry s i =
     (case s of (a, calls) \<Rightarrow>
        rbind (array_slot a (int i))
          (\<lambda>e. let calls' = (case rhe_req e of Some r \<Rightarrow> calls @ [r] | None \<Rightarrow> calls)
               in rbind (array_set_slot a (int i) (e\<lparr>rhe_req := None\<rparr>)) (\<lambda>a'. Inr (a', calls'))))"

definition truncate_history_callback ::
    "'r req_history \<Rightarrow> seqno \<Rightarrow> (bool \<times> 'r req_history \<times> 'r list) result" where
  "truncate_history_callback h seq =
     (let n = rh_size h in
      rbind (find_seq (rh_arr h) seq [0..<n]) (\<lambda>found.
      case found of
        None \<Rightarrow> Inr (False, h, [])
      | Some pos \<Rightarrow>
          rbind (for_loop hand_over_entry [0..<pos + 1] (rh_arr h, [])) (\<lambda>(a1, calls).
          rbind (for_loop (move_entry pos) [pos + 1..<n] a1) (\<lambda>a2.
          Inr (True, h\<lparr>rh_arr := enlarge_to a2 (n - pos - 1)\<rparr>, calls)))))"

definition should_checkpoint :: "'r req_history \<Rightarrow> bool" where
  "should_checkpoint h \<longleftrightarrow> rh_size h \<noteq> 0 \<and> rh_size h mod TRUNCATE_SIZE = 0"

fun rh_find_loop ::
    "('r \<Rightarrow> int) \<Rightarrow> ('r \<Rightarrow> request_id) \<Rightarrow> 'r rh_entry arr \<Rightarrow> int \<Rightarrow> request_id \<Rightarrow> nat list \<Rightarrow> 'r rh_entry option result" where
  "rh_find_loop cidf ridf a cid rid [] = Inr None"
| "rh_find_loop cidf ridf a cid rid (i # is) =
     rbind (array_slot a (int i))
       (\<lambda>e. case rhe_req e of
             Some r \<Rightarrow> if cidf r = cid \<and> ridf r = rid then Inr (Some e)
                       else rh_find_loop cidf ridf a cid rid is
           | None \<Rightarrow> rh_find_loop cidf ridf a cid rid is)"

definition rh_find ::
    "('r \<Rightarrow> int) \<Rightarrow> ('r \<Rightarrow> request_id) \<Rightarrow> 'r req_history \<Rightarrow> int \<Rightarrow> request_id \<Rightarrow> 'r rh_entry option result" where
  "rh_find cidf ridf h cid rid = rh_find_loop cidf ridf (rh_arr h) cid rid [0..<rh_size h]"

lemmas rh_defs [model_defs] =
  rh_new_def rh_digest_def rh_size_def get_top_seqno_def add_request_def drop_entry_def
  move_entry_def clear_entry_def truncate_history_def hand_over_entry_def
  truncate_history_callback_def should_checkpoint_def rh_find_def TRUNCATE_SIZE_def

subsection \<open>The entries of a log\<close>

definition rh_entries :: "'r req_history \<Rightarrow> 'r rh_entry list" where
  "rh_entries h = map the (array_elems (rh_arr h))"

definition rh_ok :: "'r req_history \<Rightarrow> bool" where
  "rh_ok h \<longleftrightarrow> array_ok (rh_arr h) \<and> None \<notin> set (array_elems (rh_arr h)) \<and>
     dsum_ok (rh_sum h) \<and> limbs_val (rh_sum h) < limbs_val (rh_mod h) \<and> modulus_ok (rh_mod h)"

text \<open>\<open>holds a es\<close>: the array \<open>a\<close> has exactly the elements \<open>es\<close>, all of them written.\<close>

definition holds :: "'a arr \<Rightarrow> 'a list \<Rightarrow> bool" where
  "holds a es \<longleftrightarrow> array_ok a \<and> array_elems a = map Some es"

lemma rh_ok_holds: "rh_ok h \<Longrightarrow> holds (rh_arr h) (rh_entries h)"
proof -
  assume "rh_ok h"
  then have n: "None \<notin> set (array_elems (rh_arr h))" and "array_ok (rh_arr h)"
    by (simp_all add: rh_ok_def)
  moreover have "xs = map Some (map the xs)" if "None \<notin> set xs" for xs :: "'r rh_entry option list"
    using that by (induction xs) auto
  ultimately show ?thesis
    unfolding holds_def rh_entries_def by blast
qed

lemma holds_slot: "holds a es \<Longrightarrow> i < length es \<Longrightarrow> array_slot a (int i) = Inr (es ! i)"
  by (simp add: holds_def array_slot_elems)

lemma holds_set_slot:
  assumes "holds a es" "i < length es"
  shows "\<exists>a'. array_set_slot a (int i) x = Inr a' \<and> holds a' (es[i := x])"
proof -
  obtain a' where "array_set_slot a (int i) x = Inr a'" "array_ok a'"
    "array_elems a' = (array_elems a)[nat (int i) := Some x]"
    by (rule array_set_slot_elems [of a "int i" x]) (use assms in \<open>auto simp: holds_def\<close>)
  with assms show ?thesis
    by (auto simp: holds_def map_update)
qed

lemma holds_size: "holds a es \<Longrightarrow> array_size a = length es"
  using length_array_elems [of a] by (simp add: holds_def array_size_def)

lemma rh_size_entries: "rh_ok h \<Longrightarrow> rh_size h = length (rh_entries h)"
  by (simp add: rh_size_def holds_size rh_ok_holds)

lemma holds_shrink: "holds a es \<Longrightarrow> n \<le> length es \<Longrightarrow> holds (enlarge_to a n) (take n es)"
  using holds_size [of a es]
  by (simp add: holds_def array_ok_enlarge_to enlarge_to_shrinks take_map array_size_def)

lemma holds_append: "holds a es \<Longrightarrow> holds (array_append a x) (es @ [x])"
  by (simp add: holds_def array_append_elems array_ok_append)

lemma holds_entries: "holds (rh_arr h) es \<Longrightarrow> rh_entries h = es"
  by (simp add: holds_def rh_entries_def comp_def)

lemma holds_rh_ok:
  "rh_ok h \<Longrightarrow> holds a es \<Longrightarrow> rh_ok (h\<lparr>rh_arr := a\<rparr>)"
  by (auto simp: rh_ok_def holds_def)

lemma rh_new_ok:
  assumes "modulus_ok M"
  shows "\<exists>h. rh_new M = Inr h \<and> rh_ok h \<and> rh_entries h = [] \<and> rh_sum h = dsum_new \<and> rh_mod h = M"
  using assms
  by (auto simp: rh_new_def array_predict_new_def rh_ok_def rh_entries_def array_elems_def
      modulus_ok_def enlarge_to_def enlarge_allocation_to_def array_new_def array_ok_def Let_def)

subsection \<open>Adding requests\<close>

lemma add_request_facts:
  assumes "mpn_ok g" "rh_ok h"
  shows "\<exists>h' d. add_request g h req rd s = Inr (h', d) \<and> rh_ok h' \<and> rh_mod h' = rh_mod h \<and>
     rh_entries h' = rh_entries h @ [\<lparr>rhe_req = Some req, rhe_seq = s, rhe_d = d\<rparr>] \<and>
     limbs_val (rh_sum h') = (limbs_val (rh_sum h) + digest_val rd) mod limbs_val (rh_mod h) \<and>
     d = md5_spec (dsum_bytes (rh_sum h'))"
proof -
  obtain sm where sm: "dsum_add g (rh_mod h) (rh_sum h) rd = Inr sm" "dsum_ok sm"
    "limbs_val sm < limbs_val (rh_mod h)"
    "limbs_val sm = (limbs_val (rh_sum h) + digest_val rd) mod limbs_val (rh_mod h)"
    using dsum_add_mod [OF assms(1), of "rh_mod h" "rh_sum h" rd] assms(2) by (auto simp: rh_ok_def)
  define h1 where "h1 = h\<lparr>rh_sum := sm\<rparr>"
  define e where "e = \<lparr>rhe_req = Some req, rhe_seq = s, rhe_d = rh_digest h1\<rparr>"
  have ok1: "rh_ok h1" and ent1: "rh_entries h1 = rh_entries h"
    using assms(2) sm by (simp_all add: h1_def rh_ok_def rh_entries_def)
  have hd: "holds (array_append (rh_arr h1) e) (rh_entries h @ [e])"
    using holds_append [OF rh_ok_holds [OF ok1]] ent1 by simp
  have "add_request g h req rd s = Inr (h1\<lparr>rh_arr := array_append (rh_arr h1) e\<rparr>, rh_digest h1)"
    by (simp add: add_request_def sm Let_def e_def h1_def)
  moreover have "rh_digest h1 = md5_spec (dsum_bytes sm)"
    using digest_of_spec [of "replicate 64 0" "dsum_bytes sm"] sm(2)
    by (simp add: rh_digest_def h1_def length_dsum_bytes)
  ultimately show ?thesis
    using holds_rh_ok [OF ok1 hd] hd sm
    by (auto simp: h1_def e_def intro: holds_entries)
qed

text \<open>Adding a list of requests, as a replica does in the order in which it executes them.\<close>

fun add_requests :: "mpn \<Rightarrow> 'r req_history \<Rightarrow> ('r \<times> digest \<times> seqno) list \<Rightarrow> 'r req_history result" where
  "add_requests g h [] = Inr h"
| "add_requests g h ((r, rd, s) # xs) =
     rbind (add_request g h r rd s) (\<lambda>(h', d). add_requests g h' xs)"

lemma add_requests_sum:
  assumes "mpn_ok g" "rh_ok h"
  shows "\<exists>h'. add_requests g h xs = Inr h' \<and> rh_ok h' \<and> rh_mod h' = rh_mod h \<and>
     map (\<lambda>e. (rhe_req e, rhe_seq e)) (rh_entries h') =
       map (\<lambda>e. (rhe_req e, rhe_seq e)) (rh_entries h) @ map (\<lambda>(r, rd, s). (Some r, s)) xs \<and>
     dsum_add_all g (rh_mod h) (rh_sum h) (map (fst \<circ> snd) xs) = Inr (rh_sum h')"
  using assms(2)
proof (induction xs arbitrary: h)
  case Nil
  then show ?case by simp
next
  case (Cons x xs)
  obtain r rd s where x: "x = (r, rd, s)" by (cases x)
  obtain h1 d where h1: "add_request g h r rd s = Inr (h1, d)" "rh_ok h1" "rh_mod h1 = rh_mod h"
    "rh_entries h1 = rh_entries h @ [\<lparr>rhe_req = Some r, rhe_seq = s, rhe_d = d\<rparr>]"
    using add_request_facts [OF assms(1) Cons.prems, of r rd s] by blast
  have "dsum_add g (rh_mod h) (rh_sum h) rd = Inr (rh_sum h1)"
    using h1(1) by (auto simp: add_request_def rbind_eq_Inr Let_def)
  with Cons.IH [OF h1(2)] h1 show ?case
    by (auto simp: x)
qed

subsection \<open>Truncation\<close>

lemma find_seq_eq:
  assumes "holds a es" "k \<le> length es"
  shows "find_seq a seq [k..<length es] =
     Inr (map_option ((+) k) (if \<exists>e\<in>set (drop k es). rhe_seq e = seq
            then Some (length (takeWhile (\<lambda>e. rhe_seq e \<noteq> seq) (drop k es))) else None))"
  using assms(2)
proof (induction "length es - k" arbitrary: k)
  case 0
  then show ?case by simp
next
  case (Suc n)
  then have k: "k < length es" by simp
  have u: "[k..<length es] = k # [Suc k..<length es]" and d: "drop k es = es ! k # drop (Suc k) es"
    using k by (simp_all add: upt_conv_Cons Cons_nth_drop_Suc)
  show ?case
    using Suc.hyps(1) [of "Suc k"] Suc.hyps(2) k holds_slot [OF assms(1) k] by (auto simp: u d)
qed

lemma move_list:
  assumes "p \<le> n" "n \<le> length es"
  shows "foldl (\<lambda>xs i. xs[i - p := xs ! i]) es [p..<n] = take (n - p) (drop p es) @ drop (n - p) es"
  using assms
proof (induction "n - p" arbitrary: n)
  case 0
  then show ?case by simp
next
  case (Suc k)
  obtain m where n: "n = Suc m" "p \<le> m" "m < length es"
    using Suc by (cases n) auto
  let ?xs = "take (m - p) (drop p es) @ drop (m - p) es"
  have IH: "foldl (\<lambda>xs i. xs[i - p := xs ! i]) es [p..<m] = ?xs"
    using Suc n by auto
  have "?xs ! m = es ! m"
    using n by (auto simp: nth_append)
  moreover have "drop (m - p) es = es ! (m - p) # drop (Suc m - p) es"
    using n by (simp add: Cons_nth_drop_Suc Suc_diff_le)
  moreover have "take (Suc m - p) (drop p es) = take (m - p) (drop p es) @ [es ! m]"
    using n by (simp add: Suc_diff_le take_Suc_conv_app_nth)
  ultimately show ?case
    using n IH by (simp add: list_update_append)
qed

definition deleted_of :: "'r rh_entry list \<Rightarrow> 'r list" where
  "deleted_of es = List.map_filter (\<lambda>e. if rhe_seq e \<noteq> 0 then rhe_req e else None) es"

definition handed_over :: "'r rh_entry list \<Rightarrow> 'r list" where
  "handed_over es = List.map_filter rhe_req es"

lemma map_filter_snoc: "List.map_filter f (xs @ [x]) = List.map_filter f xs @ (case f x of None \<Rightarrow> [] | Some y \<Rightarrow> [y])"
  by (auto simp: List.map_filter_def)

text \<open>The two dropping loops have one shape: they reset a prefix and collect from it.\<close>

lemma collect_loop:
  assumes body: "\<And>a xs out i. holds a xs \<Longrightarrow> i < length xs \<Longrightarrow>
      \<exists>a' x. body (a, out) i = Inr (a', out @ (case f (xs ! i) of None \<Rightarrow> [] | Some y \<Rightarrow> [y])) \<and>
             holds a' (xs[i := x])"
    and "holds a es" "k \<le> length es"
  shows "\<exists>a' xs. for_loop body [0..<k] (a, []) = Inr (a', List.map_filter f (take k es)) \<and>
     holds a' xs \<and> length xs = length es \<and> drop k xs = drop k es"
  using assms(3)
proof (induction k)
  case 0
  then show ?case
    using assms(2) by (auto simp: List.map_filter_def)
next
  case (Suc k)
  then obtain a' xs where l: "for_loop body [0..<k] (a, []) = Inr (a', List.map_filter f (take k es))"
    "holds a' xs" "length xs = length es" "drop k xs = drop k es" by force
  have k: "k < length xs" using Suc l by simp
  have "xs ! k = es ! k" using l(3,4) k by (metis hd_drop_conv_nth)
  moreover obtain a2 x where "body (a', List.map_filter f (take k es)) k =
        Inr (a2, List.map_filter f (take k es) @ (case f (xs ! k) of None \<Rightarrow> [] | Some y \<Rightarrow> [y]))"
      "holds a2 (xs[k := x])"
    using body [OF l(2) k] by blast
  moreover have "drop (Suc k) xs = drop (Suc k) es"
    using l(4) by (metis drop_Suc tl_drop)
  moreover have "take (Suc k) es = take k es @ [es ! k]"
    using k l(3) by (simp add: take_Suc_conv_app_nth)
  ultimately show ?case
    using l by (auto simp: for_loop_append map_filter_snoc)
qed

lemma drop_entry_body:
  assumes "holds a xs" "i < length xs"
  shows "\<exists>a' x. drop_entry (a, out) i = Inr (a', out @ (case (if rhe_seq (xs ! i) \<noteq> 0 then rhe_req (xs ! i) else None)
      of None \<Rightarrow> [] | Some y \<Rightarrow> [y])) \<and> holds a' (xs[i := x])"
proof -
  obtain a' where "array_set_slot a (int i) ((xs ! i)\<lparr>rhe_req := None, rhe_seq := 0\<rparr>) = Inr a'"
    "holds a' (xs[i := (xs ! i)\<lparr>rhe_req := None, rhe_seq := 0\<rparr>])"
    using holds_set_slot [OF assms] by blast
  then show ?thesis
    using holds_slot [OF assms] by (auto simp: drop_entry_def Let_def split: option.split)
qed

lemma hand_over_entry_body:
  assumes "holds a xs" "i < length xs"
  shows "\<exists>a' x. hand_over_entry (a, out) i = Inr (a', out @ (case rhe_req (xs ! i)
      of None \<Rightarrow> [] | Some y \<Rightarrow> [y])) \<and> holds a' (xs[i := x])"
proof -
  obtain a' where "array_set_slot a (int i) ((xs ! i)\<lparr>rhe_req := None\<rparr>) = Inr a'"
    "holds a' (xs[i := (xs ! i)\<lparr>rhe_req := None\<rparr>])"
    using holds_set_slot [OF assms] by blast
  then show ?thesis
    using holds_slot [OF assms] by (auto simp: hand_over_entry_def Let_def split: option.split)
qed

lemma move_loop:
  assumes "holds a es" "pos < length es"
  shows "\<exists>a'. for_loop (move_entry pos) [pos + 1..<length es] a = Inr a' \<and>
     holds a' (drop (pos + 1) es @ drop (length es - pos - 1) es)"
proof -
  let ?R = "\<lambda>a xs. holds a xs \<and> length xs = length es"
  have "\<exists>a'. move_entry pos b i = Inr a' \<and> ?R a' (xs[i - (pos + 1) := xs ! i])"
    if "?R b xs" "i \<in> set [pos + 1..<length es]" for b xs i
  proof -
    have "int i - int pos - 1 = int (i - (pos + 1))" using that by auto
    with that show ?thesis
      using holds_slot [of b xs i] holds_set_slot [of b xs "i - (pos + 1)" "xs ! i"]
      by (auto simp: move_entry_def)
  qed
  from for_loop_sim [where R = ?R and f = "move_entry pos" and g = "\<lambda>xs i. xs[i - (pos + 1) := xs ! i]",
      OF this, of "[pos + 1..<length es]" a es]
  show ?thesis
    using assms move_list [of "pos + 1" "length es" es] by auto
qed

lemma clear_loop:
  assumes "holds a es" "m \<le> k" "k \<le> length es"
  shows "\<exists>a' xs. for_loop clear_entry [k..<length es] a = Inr a' \<and> holds a' xs \<and>
     length xs = length es \<and> take m xs = take m es"
proof -
  let ?c = "\<lambda>xs i. xs[i := (xs ! i)\<lparr>rhe_req := None, rhe_seq := 0\<rparr>]"
  let ?R = "\<lambda>a xs. holds a xs \<and> length xs = length es \<and> take m xs = take m es"
  have "\<exists>a'. clear_entry b i = Inr a' \<and> ?R a' (?c xs i)"
    if "?R b xs" "i \<in> set [k..<length es]" for b xs i
    using that assms holds_slot [of b xs i]
      holds_set_slot [of b xs i "(xs ! i)\<lparr>rhe_req := None, rhe_seq := 0\<rparr>"]
    by (auto simp: clear_entry_def)
  from for_loop_sim [where R = ?R and f = clear_entry and g = ?c, OF this, of "[k..<length es]" a es]
  show ?thesis
    using assms(1) by auto
qed

lemma find_seq_absent:
  assumes "rh_ok h" "\<forall>e\<in>set (rh_entries h). rhe_seq e \<noteq> seq"
  shows "find_seq (rh_arr h) seq [0..<rh_size h] = Inr None"
  using find_seq_eq [OF rh_ok_holds [OF assms(1)], of 0 seq] assms by (auto simp: rh_size_entries)

lemma find_seq_first:
  assumes "rh_ok h" "rh_entries h = before @ e # after" "rhe_seq e = seq"
    "\<forall>e'\<in>set before. rhe_seq e' \<noteq> seq"
  shows "find_seq (rh_arr h) seq [0..<rh_size h] = Inr (Some (length before))"
  using find_seq_eq [OF rh_ok_holds [OF assms(1)], of 0 seq] assms
  by (simp add: rh_size_entries takeWhile_tail)

lemma truncate_history_absent:
  assumes "rh_ok h" "\<forall>e\<in>set (rh_entries h). rhe_seq e \<noteq> seq"
  shows "truncate_history h seq = Inr (False, h, [])"
    and "truncate_history_callback h seq = Inr (False, h, [])"
  by (simp_all add: truncate_history_def truncate_history_callback_def find_seq_absent [OF assms])

lemma truncate_history_found:
  assumes ok: "rh_ok h" and es: "rh_entries h = before @ e # after" and e: "rhe_seq e = seq"
    and first: "\<forall>e'\<in>set before. rhe_seq e' \<noteq> seq"
  shows "\<exists>h'. truncate_history h seq = Inr (True, h', deleted_of (before @ [e])) \<and> rh_ok h' \<and>
     rh_entries h' = after \<and> rh_sum h' = rh_sum h \<and> rh_mod h' = rh_mod h"
proof -
  let ?p = "length before" and ?n = "length (rh_entries h)"
  note n = rh_size_entries [OF ok]
  obtain a1 xs where a1: "for_loop drop_entry [0..<?p + 1] (rh_arr h, []) = Inr (a1, deleted_of (before @ [e]))"
    "holds a1 xs" "length xs = ?n" "drop (?p + 1) xs = after"
    using collect_loop [where body = drop_entry, OF drop_entry_body rh_ok_holds [OF ok], of "?p + 1"] es
    by (auto simp: deleted_of_def)
  obtain a2 where a2: "for_loop (move_entry ?p) [?p + 1..<?n] a1 = Inr a2"
    "holds a2 (after @ drop (?n - ?p - 1) xs)"
    using move_loop [OF a1(2), of ?p] a1 es by auto
  let ?ys = "after @ drop (?n - ?p - 1) xs"
  have la: "length after = ?n - ?p - 1" "length ?ys = ?n"
    using a1(3) es by simp_all
  have tk: "take (?n - ?p - 1) ?ys = after" using la(1) by simp
  obtain a3 ys where a3: "for_loop clear_entry [?n - ?p..<?n] a2 = Inr a3" "holds a3 ys" "length ys = ?n"
    "take (?n - ?p - 1) ys = after"
    using clear_loop [OF a2(2) diff_le_self [of "?n - ?p" 1]] unfolding la(2) tk by auto
  have h: "holds (enlarge_to a3 (?n - ?p - 1)) after"
    using holds_shrink [OF a3(2), of "?n - ?p - 1"] a3 by simp
  show ?thesis
    using find_seq_first [OF assms] a1(1) a2(1) a3(1) holds_rh_ok [OF ok h] h
    by (auto simp: truncate_history_def n intro!: holds_entries)
qed

lemma truncate_history_callback_found:
  assumes ok: "rh_ok h" and es: "rh_entries h = before @ e # after" and e: "rhe_seq e = seq"
    and first: "\<forall>e'\<in>set before. rhe_seq e' \<noteq> seq"
  shows "\<exists>h'. truncate_history_callback h seq = Inr (True, h', handed_over (before @ [e])) \<and> rh_ok h' \<and>
     rh_entries h' = after \<and> rh_sum h' = rh_sum h \<and> rh_mod h' = rh_mod h"
proof -
  let ?p = "length before" and ?n = "length (rh_entries h)"
  note n = rh_size_entries [OF ok]
  obtain a1 xs where a1: "for_loop hand_over_entry [0..<?p + 1] (rh_arr h, []) = Inr (a1, handed_over (before @ [e]))"
    "holds a1 xs" "length xs = ?n" "drop (?p + 1) xs = after"
    using collect_loop [where body = hand_over_entry, OF hand_over_entry_body rh_ok_holds [OF ok], of "?p + 1"] es
    by (auto simp: handed_over_def)
  obtain a2 where a2: "for_loop (move_entry ?p) [?p + 1..<?n] a1 = Inr a2"
    "holds a2 (after @ drop (?n - ?p - 1) xs)"
    using move_loop [OF a1(2), of ?p] a1 es by auto
  have "length after = ?n - ?p - 1" using es by simp
  then have h: "holds (enlarge_to a2 (?n - ?p - 1)) after"
    using holds_shrink [OF a2(2), of "?n - ?p - 1"] by simp
  show ?thesis
    using find_seq_first [OF assms] a1(1) a2(1) holds_rh_ok [OF ok h] h
    by (auto simp: truncate_history_callback_def n intro!: holds_entries)
qed

subsection \<open>Lookup\<close>

definition rh_matches :: "('r \<Rightarrow> int) \<Rightarrow> ('r \<Rightarrow> request_id) \<Rightarrow> int \<Rightarrow> request_id \<Rightarrow> 'r rh_entry \<Rightarrow> bool" where
  "rh_matches cidf ridf cid rid e \<longleftrightarrow>
     (case rhe_req e of None \<Rightarrow> False | Some r \<Rightarrow> cidf r = cid \<and> ridf r = rid)"

lemma rh_find_loop_eq:
  assumes "holds a es" "k \<le> length es"
  shows "rh_find_loop cidf ridf a cid rid [k..<length es] =
     Inr (List.find (rh_matches cidf ridf cid rid) (drop k es))"
  using assms(2)
proof (induction "length es - k" arbitrary: k)
  case 0
  then show ?case by simp
next
  case (Suc n)
  then have k: "k < length es" by simp
  have u: "[k..<length es] = k # [Suc k..<length es]" and d: "drop k es = es ! k # drop (Suc k) es"
    using k by (simp_all add: upt_conv_Cons Cons_nth_drop_Suc)
  show ?case
    using Suc.hyps(1) [of "Suc k"] Suc.hyps(2) k holds_slot [OF assms(1) k]
    by (auto simp: u d rh_matches_def split: option.split)
qed

lemma rh_find_eq:
  "rh_ok h \<Longrightarrow> rh_find cidf ridf h cid rid = Inr (List.find (rh_matches cidf ridf cid rid) (rh_entries h))"
  using rh_find_loop_eq [OF rh_ok_holds, of h 0 cidf ridf cid rid]
  by (simp add: rh_find_def rh_size_entries)

lemma get_top_seqno_eq:
  "rh_ok h \<Longrightarrow> get_top_seqno h = Inr (if rh_entries h = [] then 0 else rhe_seq (last (rh_entries h)))"
  using rh_ok_holds [of h]
  by (auto simp: get_top_seqno_def rh_size_entries array_high_elems holds_def last_map)

subsection \<open>Properties\<close>

text \<open>A small log built by appending, for examples.\<close>

definition sample_log :: "'r rh_entry list \<Rightarrow> 'r req_history" where
  "sample_log es = \<lparr>rh_arr = foldl array_append array_new es, rh_sum = dsum_new,
                    rh_mod = limbs_of 8 (2 ^ 128)\<rparr>"

lemma sample_log_ok [simp]: "rh_ok (sample_log es)" "rh_entries (sample_log es) = es"
proof -
  have h: "holds (rh_arr (sample_log es)) es"
    using arr.append_all [of array_new es] by (simp add: holds_def sample_log_def)
  then show "rh_entries (sample_log es) = es" by (rule holds_entries)
  show "rh_ok (sample_log es)"
    using h modulus_ok_128 limbs_val_128 by (auto simp: rh_ok_def holds_def sample_log_def)
qed

text \<open>
  C22: a fresh log to which requests are added holds them in the order of the additions with their
  sequence numbers, and its sum is the sum of their digests modulo the modulus. No addition
  fails.
\<close>

theorem history_log_contents:
  fixes xs :: "('r \<times> digest \<times> seqno) list"
  assumes "mpn_ok g" "modulus_ok M"
  shows "\<exists>h0 h. rh_new M = Inr h0 \<and> add_requests g h0 xs = Inr h \<and> rh_ok h \<and>
     map (\<lambda>e. (rhe_req e, rhe_seq e)) (rh_entries h) = map (\<lambda>(r, rd, s). (Some r, s)) xs \<and>
     limbs_val (rh_sum h) = sum_list (map (\<lambda>(r, rd, s). digest_val rd) xs) mod limbs_val M"
proof -
  obtain h0 :: "'r req_history" where h0: "rh_new M = Inr h0" "rh_ok h0" "rh_entries h0 = []" "rh_sum h0 = dsum_new"
    "rh_mod h0 = M"
    using rh_new_ok [OF assms(2)] by (metis (full_types))
  obtain h where h: "add_requests g h0 xs = Inr h" "rh_ok h"
    "map (\<lambda>e. (rhe_req e, rhe_seq e)) (rh_entries h) = map (\<lambda>(r, rd, s). (Some r, s)) xs"
    "dsum_add_all g M dsum_new (map (fst \<circ> snd) xs) = Inr (rh_sum h)"
    using add_requests_sum [OF assms(1) h0(2), of xs] h0 by auto
  have "0 < limbs_val M" using assms(2) by (simp add: modulus_ok_def)
  then have "limbs_val (rh_sum h) = sum_list (map digest_val (map (fst \<circ> snd) xs)) mod limbs_val M"
    using dsum_add_all_mod [OF assms, of dsum_new "map (fst \<circ> snd) xs"] h(4) by auto
  moreover have "map digest_val (map (fst \<circ> snd) xs) = map (\<lambda>(r, rd, s). digest_val rd) xs"
    by auto
  ultimately show ?thesis
    using h0 h by metis
qed

theorem history_log_contents_witness:
  "\<exists>h0 h. rh_new (limbs_of 8 (2 ^ 128)) = Inr h0 \<and>
     add_requests school_mpn h0 [(True, Digest 5 0 0 0, 1), (False, Digest 6 0 0 0, 2)] = Inr h \<and>
     map (\<lambda>e. (rhe_req e, rhe_seq e)) (rh_entries h) = [(Some True, 1), (Some False, 2)] \<and>
     limbs_val (rh_sum h) = 11"
  using history_log_contents [OF school_mpn_ok modulus_ok_128,
      of "[(True, Digest 5 0 0 0, 1), (False, Digest 6 0 0 0, 2)]"]
  unfolding limbs_val_128
  by (auto simp: digest_val_def udigest_def simp del: add_requests.simps)

text \<open>
  C31: the digest of the history does not see the order of the requests: two logs to which the
  same requests were added in different orders have the same digest.
\<close>

theorem history_digest_ignores_order:
  assumes "mpn_ok g" "rh_ok h" "mset (map (fst \<circ> snd) xs) = mset (map (fst \<circ> snd) ys)"
  shows "\<exists>h1 h2. add_requests g h xs = Inr h1 \<and> add_requests g h ys = Inr h2 \<and>
           rh_digest h1 = rh_digest h2"
proof -
  have "dsum_add_all g (rh_mod h) (rh_sum h) (map (fst \<circ> snd) xs) =
        dsum_add_all g (rh_mod h) (rh_sum h) (map (fst \<circ> snd) ys)"
    using assms(2) by (intro dsum_add_all_mset assms) (auto simp: rh_ok_def)
  then show ?thesis
    using add_requests_sum [OF assms(1,2), of xs] add_requests_sum [OF assms(1,2), of ys]
    by (auto simp: rh_digest_def)
qed

theorem history_digest_ignores_order_witness:
  "\<exists>h1 h2. add_requests school_mpn (sample_log []) [(True, Digest 5 0 0 0, 1), (False, Digest 6 0 0 0, 2)] = Inr h1 \<and>
     add_requests school_mpn (sample_log []) [(False, Digest 6 0 0 0, 1), (True, Digest 5 0 0 0, 2)] = Inr h2 \<and>
     rh_digest h1 = rh_digest h2"
  by (rule history_digest_ignores_order [OF school_mpn_ok]) simp_all

text \<open>
  C21: truncating at a sequence number keeps exactly the entries after the first one with that
  number, in order, deletes the live requests before it, and leaves the running sum alone;
  without such an entry the call returns false and changes nothing.
\<close>

theorem truncate_history_correct:
  assumes "rh_ok h"
  shows "((\<forall>e\<in>set (rh_entries h). rhe_seq e \<noteq> seq) \<longrightarrow> truncate_history h seq = Inr (False, h, [])) \<and>
    (\<forall>before e after. rh_entries h = before @ e # after \<and> rhe_seq e = seq \<and>
        (\<forall>e'\<in>set before. rhe_seq e' \<noteq> seq) \<longrightarrow>
      (\<exists>h'. truncate_history h seq = Inr (True, h', deleted_of (before @ [e])) \<and> rh_ok h' \<and>
            rh_entries h' = after \<and> rh_sum h' = rh_sum h \<and> rh_mod h' = rh_mod h))"
  using truncate_history_absent [OF assms] truncate_history_found [OF assms] by blast

theorem truncate_history_correct_witness:
  "truncate_history (sample_log [\<lparr>rhe_req = Some (1 :: nat), rhe_seq = 1, rhe_d = digest_zero\<rparr>]) 7 =
     Inr (False, sample_log [\<lparr>rhe_req = Some 1, rhe_seq = 1, rhe_d = digest_zero\<rparr>], []) \<and>
   (\<exists>h'. truncate_history
       (sample_log [\<lparr>rhe_req = Some (1 :: nat), rhe_seq = 1, rhe_d = digest_zero\<rparr>,
                    \<lparr>rhe_req = Some 2, rhe_seq = 2, rhe_d = digest_zero\<rparr>]) 1 = Inr (True, h', [1]) \<and>
      rh_entries h' = [\<lparr>rhe_req = Some 2, rhe_seq = 2, rhe_d = digest_zero\<rparr>])"
  using truncate_history_correct [of "sample_log [\<lparr>rhe_req = Some (1 :: nat), rhe_seq = 1, rhe_d = digest_zero\<rparr>]" 7]
    truncate_history_correct [of "sample_log [\<lparr>rhe_req = Some (1 :: nat), rhe_seq = 1, rhe_d = digest_zero\<rparr>,
                    \<lparr>rhe_req = Some 2, rhe_seq = 2, rhe_d = digest_zero\<rparr>]" 1]
  by (auto simp: deleted_of_def List.map_filter_def dest!: spec [of _ "[]"])

text \<open>Lookup: \<open>find\<close> returns the first live entry of the log with the client and the request id.\<close>

theorem history_find_first:
  assumes "rh_ok h"
  shows "rh_find cidf ridf h cid rid = Inr (List.find (rh_matches cidf ridf cid rid) (rh_entries h))"
  using assms by (rule rh_find_eq)

theorem history_find_first_witness:
  "rh_find fst snd (sample_log [\<lparr>rhe_req = None, rhe_seq = 0, rhe_d = digest_zero\<rparr>,
       \<lparr>rhe_req = Some (3, 4), rhe_seq = 9, rhe_d = digest_zero\<rparr>]) 3 4 =
     Inr (Some \<lparr>rhe_req = Some (3, 4), rhe_seq = 9, rhe_d = digest_zero\<rparr>)"
  using history_find_first [of "sample_log [\<lparr>rhe_req = None, rhe_seq = 0, rhe_d = digest_zero\<rparr>,
       \<lparr>rhe_req = Some (3, 4), rhe_seq = 9, rhe_d = digest_zero\<rparr>]" fst snd 3 4]
  by (simp add: rh_matches_def)

end
