(* ===== verification/Bitmaps.thy ===== *)
theory Bitmaps
  imports Prelude
begin

section \<open>Bitmaps: \<^verbatim>\<open>src/common/Bitmap.h\<close>\<close>

text \<open>
  \<open>Bitmap\<close> packs booleans into chunks of type \<^verbatim>\<open>unsigned long\<close>, 32 bits in this build. \<open>bm_bits\<close> is
  the abstract value, the list of the \<open>num\<close> booleans. Sizes and indices are natural numbers;
  the code's 32-bit arithmetic on them does not wrap for sizes up to \<open>2 ^ 32 - 32\<close>, the bound in
  \<open>bm_ok\<close>. The iterator returns the indices with the wanted value in order and skips chunks that
  hold none.
\<close>

record bitmap =
  bm_num :: nat
  bm_chunks :: "u32 list"

definition ChunkBits :: nat where
  "ChunkBits = 4 * 8"

lemma ChunkBits_eq [simp]: "ChunkBits = 32"
  by (simp add: ChunkBits_def)

definition bm_new :: "nat \<Rightarrow> bool \<Rightarrow> bitmap" where
  "bm_new sz value =
     \<lparr>bm_num = sz, bm_chunks = replicate ((sz + ChunkBits - 1) div ChunkBits) (if value then NOT 0 else 0)\<rparr>"

text \<open>The copy constructor reads its own \<open>nc\<close> before anything set it: \<open>nc\<close> is what memory holds.\<close>

definition bm_copy :: "nat \<Rightarrow> bitmap \<Rightarrow> bitmap result" where
  "bm_copy nc other =
     (if nc \<le> length (bm_chunks other)
      then Inr \<lparr>bm_num = bm_num other, bm_chunks = take nc (bm_chunks other)\<rparr>
      else Inl Out_of_bounds)"

definition bm_assign_map :: "bitmap \<Rightarrow> bitmap \<Rightarrow> bitmap" where
  "bm_assign_map b other = \<lparr>bm_num = bm_num other, bm_chunks = bm_chunks other\<rparr>"

definition bitSelector :: "nat \<Rightarrow> u32" where
  "bitSelector i = push_bit (i mod ChunkBits) 1"

definition valBitSelector :: "nat \<Rightarrow> bool \<Rightarrow> u32" where
  "valBitSelector i val = push_bit (i mod ChunkBits) (if val then 1 else 0)"

definition bm_clear :: "bitmap \<Rightarrow> bitmap" where
  "bm_clear b = b\<lparr>bm_chunks := map (\<lambda>_. 0) (bm_chunks b)\<rparr>"

definition setAll :: "bitmap \<Rightarrow> bitmap" where
  "setAll b = b\<lparr>bm_chunks := map (\<lambda>_. NOT 0) (bm_chunks b)\<rparr>"

definition chunk_at :: "bitmap \<Rightarrow> nat \<Rightarrow> u32 result" where
  "chunk_at b k = (if k < length (bm_chunks b) then Inr (bm_chunks b ! k) else Inl Out_of_bounds)"

definition bm_test :: "bitmap \<Rightarrow> nat \<Rightarrow> bool result" where
  "bm_test b i =
     rbind (th_assert (i < bm_num b))
       (\<lambda>_. rbind (chunk_at b (i div ChunkBits)) (\<lambda>c. Inr (c AND bitSelector i \<noteq> 0)))"

definition bm_size :: "bitmap \<Rightarrow> nat" where
  "bm_size b = bm_num b"

text \<open>An assignment to \<open>chunks[i / ChunkBits]\<close> guarded by the bounds assertion.\<close>

definition bm_change :: "bitmap \<Rightarrow> nat \<Rightarrow> (u32 \<Rightarrow> u32) \<Rightarrow> bitmap result" where
  "bm_change b i f =
     rbind (th_assert (i < bm_num b))
       (\<lambda>_. rbind (chunk_at b (i div ChunkBits))
          (\<lambda>c. Inr (b\<lparr>bm_chunks := (bm_chunks b)[i div ChunkBits := f c]\<rparr>)))"

definition bm_set :: "bitmap \<Rightarrow> nat \<Rightarrow> bitmap result" where
  "bm_set b i = bm_change b i (\<lambda>c. c OR bitSelector i)"

definition bm_assign :: "bitmap \<Rightarrow> nat \<Rightarrow> bool \<Rightarrow> bitmap result" where
  "bm_assign b i val = bm_change b i (\<lambda>c. (c AND NOT (bitSelector i)) OR valBitSelector i val)"

definition bm_reset :: "bitmap \<Rightarrow> nat \<Rightarrow> bitmap result" where
  "bm_reset b i = bm_change b i (\<lambda>c. c AND NOT (bitSelector i))"

definition setRange :: "bitmap \<Rightarrow> nat \<Rightarrow> nat \<Rightarrow> bitmap result" where
  "setRange b mn mx =
     rbind (th_assert (mn < bm_num b \<and> mx < bm_num b)) (\<lambda>_. for_loop bm_set [mn..<mx] b)"

definition resetRange :: "bitmap \<Rightarrow> nat \<Rightarrow> nat \<Rightarrow> bitmap result" where
  "resetRange b mn mx =
     rbind (th_assert (mn < bm_num b \<and> mx < bm_num b)) (\<lambda>_. for_loop bm_reset [mn..<mx] b)"

definition total_set :: "bitmap \<Rightarrow> nat result" where
  "total_set b =
     for_loop (\<lambda>n i. rbind (bm_test b i) (\<lambda>v. Inr (if v then n + 1 else n))) [0..<bm_size b] 0"

text \<open>\<open>operator==\<close> compares the chunks of the left operand; the right one is passed by value.\<close>

definition bm_eq :: "bitmap \<Rightarrow> bitmap \<Rightarrow> bool result" where
  "bm_eq b other =
     (if bm_num b \<noteq> bm_num other then Inr False
      else for_loop (\<lambda>r i. if \<not> r then Inr r
                          else rbind (chunk_at b i) (\<lambda>c. rbind (chunk_at other i) (\<lambda>c'. Inr (c = c'))))
             [0..<length (bm_chunks b)] True)"

definition all_zero :: "bitmap \<Rightarrow> bool" where
  "all_zero b \<longleftrightarrow> list_all (\<lambda>c. c = 0) (bm_chunks b)"

record bm_iter =
  it_value :: bool
  it_index :: nat
  it_ignore :: u32

definition iter_new :: "bool \<Rightarrow> bm_iter" where
  "iter_new v = \<lparr>it_value = v, it_index = 0, it_ignore = (if v then 0 else NOT 0)\<rparr>"

function iter_get_loop :: "bitmap \<Rightarrow> bool \<Rightarrow> u32 \<Rightarrow> nat \<Rightarrow> (nat option \<times> nat) result" where
  "iter_get_loop b v ign index =
     (if index < bm_num b
      then rbind (chunk_at b (index div ChunkBits))
        (\<lambda>c. if c = ign then iter_get_loop b v ign (index + ChunkBits)
             else rbind (bm_test b index)
               (\<lambda>this_value. if this_value = v then Inr (Some index, index + 1)
                              else iter_get_loop b v ign (index + 1)))
      else Inr (None, index))"
  by pat_completeness auto
termination
  by (relation "measure (\<lambda>(b, v, ign, index). bm_num b - index)") auto

declare iter_get_loop.simps [simp del]

definition iter_get :: "bitmap \<Rightarrow> bm_iter \<Rightarrow> (nat option \<times> bm_iter) result" where
  "iter_get b it =
     rbind (iter_get_loop b (it_value it) (it_ignore it) (it_index it))
       (\<lambda>(r, index). Inr (r, it\<lparr>it_index := index\<rparr>))"

text \<open>The bytes \<open>encode\<close> writes, and \<open>decode\<close> reading them from the start of a stream.\<close>

definition bm_encode :: "bitmap \<Rightarrow> byte list" where
  "bm_encode b = u32_bytes (word_of_nat (bm_num b)) @ u32_bytes (word_of_nat (length (bm_chunks b)))
                   @ concat (map u32_bytes (bm_chunks b))"

fun read_words :: "nat \<Rightarrow> byte list \<Rightarrow> u32 list" where
  "read_words 0 s = []"
| "read_words (Suc n) s = (if length s < 4 then [] else bytes_u32 (take 4 s) # read_words n (drop 4 s))"

text \<open>
  \<open>decode\<close>: a short read of the two counters leaves the fields as they are; the chunks that a
  short read does not fill are whatever the new array holds, here 0. The result is the returned
  boolean and the object.
\<close>

definition bm_decode :: "bitmap \<Rightarrow> byte list \<Rightarrow> bool \<times> bitmap" where
  "bm_decode b s =
     (let ws = read_words 2 s;
          num = (case ws of [] \<Rightarrow> bm_num b | w # _ \<Rightarrow> unat w);
          nc = (if length ws = 2 then unat (ws ! 1) else length (bm_chunks b));
          cs = (if length ws = 2 then read_words nc (drop 8 s) else []);
          sz = length ws + length cs
      in (sz = 2 + nc \<and> num \<le> unat (word_of_nat (nc * ChunkBits) :: u32),
          \<lparr>bm_num = num, bm_chunks = cs @ replicate (nc - length cs) 0\<rparr>))"

subsection \<open>Bits in a byte array\<close>

definition Bits_set :: "byte list \<Rightarrow> nat \<Rightarrow> byte list result" where
  "Bits_set bmap i =
     (if i div 8 < length bmap
      then Inr (bmap[i div 8 := bmap ! (i div 8) OR push_bit (i mod 8) 1]) else Inl Out_of_bounds)"

definition Bits_reset :: "byte list \<Rightarrow> nat \<Rightarrow> byte list result" where
  "Bits_reset bmap i =
     (if i div 8 < length bmap
      then Inr (bmap[i div 8 := bmap ! (i div 8) AND NOT (push_bit (i mod 8) 1)]) else Inl Out_of_bounds)"

definition Bits_test :: "byte list \<Rightarrow> nat \<Rightarrow> bool result" where
  "Bits_test bmap i =
     (if i div 8 < length bmap then Inr (bmap ! (i div 8) AND push_bit (i mod 8) 1 \<noteq> 0)
      else Inl Out_of_bounds)"

subsection \<open>The abstract value\<close>

definition bm_bit :: "bitmap \<Rightarrow> nat \<Rightarrow> bool" where
  "bm_bit b i = bit (bm_chunks b ! (i div 32)) (i mod 32)"

definition bm_bits :: "bitmap \<Rightarrow> bool list" where
  "bm_bits b = map (bm_bit b) [0..<bm_num b]"

definition bm_ok :: "bitmap \<Rightarrow> bool" where
  "bm_ok b \<longleftrightarrow> length (bm_chunks b) = (bm_num b + 31) div 32 \<and> bm_num b + 32 \<le> 2 ^ 32"

lemma bm_ok_chunk: "bm_ok b \<Longrightarrow> i < bm_num b \<Longrightarrow> i div 32 < length (bm_chunks b)"
  by (auto simp: bm_ok_def)

lemma length_bm_bits [simp]: "length (bm_bits b) = bm_num b"
  by (simp add: bm_bits_def)

lemma and_bitSelector: "c AND bitSelector i \<noteq> 0 \<longleftrightarrow> bit c (i mod 32)"
  by (simp add: bitSelector_def bit_iff_and_push_bit_not_eq_0)

lemma bm_test_eq:
  assumes "bm_ok b"
  shows "bm_test b i = (if i < bm_num b then Inr (bm_bits b ! i) else Inl Assert_failed)"
  using bm_ok_chunk [OF assms, of i]
  by (simp add: bm_test_def chunk_at_def and_bitSelector bm_bits_def bm_bit_def)

lemma bm_change_eq:
  assumes ok: "bm_ok b" and i: "i < bm_num b"
    and f: "\<And>c k. k < 32 \<Longrightarrow> bit (f c) k = (if k = i mod 32 then v else bit c k)"
  shows "\<exists>b'. bm_change b i f = Inr b' \<and> bm_ok b' \<and> bm_num b' = bm_num b \<and> bm_bits b' = (bm_bits b)[i := v]"
proof -
  define b' where "b' = b\<lparr>bm_chunks := (bm_chunks b)[i div 32 := f (bm_chunks b ! (i div 32))]\<rparr>"
  have "bm_bit b' j = (if j = i then v else bm_bit b j)" if "j < bm_num b" for j
  proof (cases "j div 32 = i div 32")
    case True
    then have "j mod 32 = i mod 32 \<longleftrightarrow> j = i"
      by (metis div_mult_mod_eq)
    then show ?thesis
      using True f [of "j mod 32"] bm_ok_chunk [OF ok i] by (simp add: b'_def bm_bit_def)
  next
    case False
    then show ?thesis by (auto simp: b'_def bm_bit_def)
  qed
  then have "bm_bits b' = (bm_bits b)[i := v]"
    by (intro nth_equalityI) (simp_all add: bm_bits_def b'_def nth_list_update)
  moreover have "bm_change b i f = Inr b'"
    using bm_ok_chunk [OF ok i] i by (simp add: bm_change_def chunk_at_def b'_def)
  ultimately show ?thesis
    using ok by (auto simp: bm_ok_def b'_def)
qed

lemma bit_selector: "k < 32 \<Longrightarrow> bit (bitSelector i) k \<longleftrightarrow> k = i mod 32"
  by (auto simp: bitSelector_def bit_push_bit_iff bit_exp_iff)

lemma bit_valSelector: "k < 32 \<Longrightarrow> bit (valBitSelector i v) k \<longleftrightarrow> v \<and> k = i mod 32"
  by (auto simp: valBitSelector_def bit_push_bit_iff bit_exp_iff bit_1_iff)

lemma bm_set_eq:
  "bm_ok b \<Longrightarrow> i < bm_num b \<Longrightarrow>
     \<exists>b'. bm_set b i = Inr b' \<and> bm_ok b' \<and> bm_num b' = bm_num b \<and> bm_bits b' = (bm_bits b)[i := True]"
  unfolding bm_set_def by (rule bm_change_eq) (auto simp: bit_or_iff bit_selector)

lemma bm_reset_eq:
  "bm_ok b \<Longrightarrow> i < bm_num b \<Longrightarrow>
     \<exists>b'. bm_reset b i = Inr b' \<and> bm_ok b' \<and> bm_num b' = bm_num b \<and> bm_bits b' = (bm_bits b)[i := False]"
  unfolding bm_reset_def by (rule bm_change_eq) (auto simp: bit_and_iff bit_not_iff bit_selector)

lemma bm_assign_eq:
  "bm_ok b \<Longrightarrow> i < bm_num b \<Longrightarrow>
     \<exists>b'. bm_assign b i v = Inr b' \<and> bm_ok b' \<and> bm_num b' = bm_num b \<and> bm_bits b' = (bm_bits b)[i := v]"
  unfolding bm_assign_def
  by (rule bm_change_eq) (auto simp: bit_or_iff bit_and_iff bit_not_iff bit_selector bit_valSelector)

lemma bm_num_new [simp]: "bm_num (bm_new sz v) = sz"
  by (simp add: bm_new_def)

lemma bm_new_ok: "sz + 32 \<le> 2 ^ 32 \<Longrightarrow> bm_ok (bm_new sz v)"
  by (simp add: bm_ok_def bm_new_def)

lemma bm_bits_new: "bm_bits (bm_new sz v) = replicate sz v"
proof (rule nth_equalityI)
  fix i assume i: "i < length (bm_bits (bm_new sz v))"
  then have "i div 32 < (sz + 31) div 32"
    by (auto simp: bm_new_def)
  then show "bm_bits (bm_new sz v) ! i = replicate sz v ! i"
    using i by (simp add: bm_bits_def bm_bit_def bm_new_def bit_not_iff)
qed (simp add: bm_new_def)

subsection \<open>Ranges and counting\<close>

lemma map_upt_update: "(map f [0..<n])[m := v] = map (\<lambda>i. if i = m then v else f i) [0..<n]"
  by (cases "m < n") (auto intro!: nth_equalityI simp: nth_list_update list_update_beyond)

lemma bm_range:
  assumes step: "\<And>b i. bm_ok b \<Longrightarrow> i < bm_num b \<Longrightarrow>
      \<exists>b'. f b i = Inr b' \<and> bm_ok b' \<and> bm_num b' = bm_num b \<and> bm_bits b' = (bm_bits b)[i := v]"
    and "bm_ok b" "mx \<le> bm_num b"
  shows "\<exists>b'. for_loop f [mn..<mx] b = Inr b' \<and> bm_ok b' \<and> bm_num b' = bm_num b \<and>
     bm_bits b' = map (\<lambda>i. if mn \<le> i \<and> i < mx then v else bm_bits b ! i) [0..<bm_num b]"
proof -
  let ?R = "\<lambda>b' xs. bm_ok b' \<and> bm_num b' = bm_num b \<and> bm_bits b' = xs"
  have "foldl (\<lambda>xs i. xs[i := v]) xs [mn..<m] =
      map (\<lambda>i. if mn \<le> i \<and> i < m then v else xs ! i) [0..<length xs]" for m xs
  proof (induction m)
    case 0
    show ?case by (simp add: map_nth)
  next
    case (Suc m)
    show ?case
    proof (cases "mn \<le> m")
      case True
      then show ?thesis using Suc by (auto simp: map_upt_update intro!: map_cong)
    next
      case False
      then show ?thesis by (auto intro!: nth_equalityI)
    qed
  qed
  moreover have "\<exists>b'. f s i = Inr b' \<and> ?R b' (xs[i := v])" if "?R s xs" "i \<in> set [mn..<mx]" for s xs i
    using step [of s i] that assms(3) by auto
  then have "\<exists>b'. for_loop f [mn..<mx] b = Inr b' \<and> ?R b' (foldl (\<lambda>xs i. xs[i := v]) (bm_bits b) [mn..<mx])"
    by (rule for_loop_sim [where R = ?R]) (use assms(2) in auto)
  ultimately show ?thesis
    by auto
qed

lemma total_set_eq:
  assumes "bm_ok b"
  shows "total_set b = Inr (length (filter (\<lambda>v. v) (bm_bits b)))"
proof -
  have "for_loop (\<lambda>n i. rbind (bm_test b i) (\<lambda>v. Inr (if v then n + 1 else n))) [0..<k] 0 =
      Inr (length (filter (\<lambda>v. v) (take k (bm_bits b))))" if "k \<le> bm_num b" for k
    using that
  proof (induction k)
    case 0
    show ?case by simp
  next
    case (Suc k)
    then show ?case
      by (simp add: for_loop_append bm_test_eq [OF assms] take_Suc_conv_app_nth)
  qed
  from this [of "bm_num b"] show ?thesis
    by (simp add: total_set_def bm_size_def)
qed

subsection \<open>The iterator\<close>

definition iter_ignore :: "bool \<Rightarrow> u32" where
  "iter_ignore v = (if v then 0 else NOT 0)"

definition iter_at :: "bitmap \<Rightarrow> bool \<Rightarrow> nat \<Rightarrow> bool" where
  "iter_at b v index \<longleftrightarrow> index mod 32 = 0 \<or> bm_num b \<le> index \<or> bm_chunks b ! (index div 32) \<noteq> iter_ignore v"

lemma iter_ignored_chunk:
  assumes "bm_chunks b ! (i div 32) = iter_ignore v" "j div 32 = i div 32"
  shows "bm_bit b j \<noteq> v"
  using assms by (auto simp: bm_bit_def iter_ignore_def bit_not_iff)

lemma find_append: "List.find P (xs @ ys) = (case List.find P xs of None \<Rightarrow> List.find P ys | Some x \<Rightarrow> Some x)"
  by (induction xs) auto

lemma find_upt_skip:
  assumes "i \<le> k" "\<forall>j. i \<le> j \<longrightarrow> j < k \<longrightarrow> j < n \<longrightarrow> \<not> P j"
  shows "List.find P [i..<n] = List.find P [k..<n]"
proof (cases "k \<le> n")
  case True
  then have "[i..<n] = [i..<k] @ [k..<n]"
    using assms(1) by (metis le_add_diff_inverse upt_add_eq_append)
  moreover have "List.find P [i..<k] = None"
    using assms True by (auto simp: find_None_iff)
  ultimately show ?thesis
    by (simp add: find_append)
next
  case False
  then show ?thesis
    using assms by (auto simp: find_None_iff)
qed

lemma find_upt_Cons: "i < n \<Longrightarrow> List.find P [i..<n] = (if P i then Some i else List.find P [Suc i..<n])"
  by (simp add: upt_conv_Cons)

lemma iter_get_loop_eq:
  assumes "bm_ok b" "iter_at b v index"
  shows "case List.find (\<lambda>j. bm_bit b j = v) [index..<bm_num b] of
      Some j \<Rightarrow> iter_get_loop b v (iter_ignore v) index = Inr (Some j, j + 1) \<and> iter_at b v (j + 1)
    | None \<Rightarrow> \<exists>k. iter_get_loop b v (iter_ignore v) index = Inr (None, k)"
  using assms(2)
proof (induction "bm_num b - index" arbitrary: index rule: less_induct)
  case less
  show ?case
  proof (cases "index < bm_num b")
    case False
    then show ?thesis by (simp add: iter_get_loop.simps)
  next
    case True
    have c: "chunk_at b (index div 32) = Inr (bm_chunks b ! (index div 32))"
      using bm_ok_chunk [OF assms(1) True] by (simp add: chunk_at_def)
    show ?thesis
    proof (cases "bm_chunks b ! (index div 32) = iter_ignore v")
      case ign: True
      then have al: "index mod 32 = 0" using less.prems True by (simp add: iter_at_def)
      have eq: "iter_get_loop b v (iter_ignore v) index = iter_get_loop b v (iter_ignore v) (index + 32)"
        by (subst iter_get_loop.simps) (simp add: True c ign)
      have "\<not> bm_bit b j = v" if "index \<le> j" "j < index + 32" for j
      proof -
        have "index = 32 * (index div 32)" using al mult_div_mod_eq [of 32 index] by simp
        then have "j div 32 = index div 32" using that by (intro div_nat_eqI) auto
        then show ?thesis using iter_ignored_chunk [OF ign] by simp
      qed
      then have "List.find (\<lambda>j. bm_bit b j = v) [index..<bm_num b] =
                 List.find (\<lambda>j. bm_bit b j = v) [index + 32..<bm_num b]"
        by (intro find_upt_skip) auto
      moreover have "iter_at b v (index + 32)" using al by (simp add: iter_at_def)
      ultimately show ?thesis
        unfolding eq using less.hyps [of "index + 32"] True by simp
    next
      case ign: False
      have nxt: "iter_at b v (index + 1)"
      proof (cases "(index + 1) mod 32 = 0")
        case False
        then have "(index + 1) div 32 = index div 32" by (simp add: div_Suc)
        then show ?thesis using ign by (simp add: iter_at_def)
      qed (simp add: iter_at_def)
      have t: "bm_test b index = Inr (bm_bit b index)"
        using True by (simp add: bm_test_eq [OF assms(1)] bm_bits_def)
      have eq: "iter_get_loop b v (iter_ignore v) index =
          (if bm_bit b index = v then Inr (Some index, index + 1)
           else iter_get_loop b v (iter_ignore v) (index + 1))"
        by (subst iter_get_loop.simps) (simp add: True c ign t)
      show ?thesis
        unfolding eq using less.hyps [of "index + 1"] True nxt by (simp add: find_upt_Cons)
    qed
  qed
qed

text \<open>All the indices an iterator yields, by at most \<open>n\<close> calls of \<open>get\<close>.\<close>

fun iter_all :: "nat \<Rightarrow> bitmap \<Rightarrow> bm_iter \<Rightarrow> nat list result" where
  "iter_all 0 b it = Inr []"
| "iter_all (Suc n) b it =
     rbind (iter_get b it)
       (\<lambda>(r, it'). case r of None \<Rightarrow> Inr [] | Some j \<Rightarrow> rbind (iter_all n b it') (\<lambda>js. Inr (j # js)))"

lemma filter_upt_find:
  "filter P [i..<n] = (case List.find P [i..<n] of None \<Rightarrow> [] | Some j \<Rightarrow> j # filter P [Suc j..<n])"
proof (induction "n - i" arbitrary: i)
  case 0
  then show ?case by simp
next
  case (Suc k)
  then have "i < n" by simp
  then show ?case
    using Suc(1) [of "Suc i"] Suc(2) by (simp add: upt_conv_Cons)
qed

lemma iter_all_from:
  assumes "bm_ok b" "iter_at b v index" "length (filter (\<lambda>j. bm_bit b j = v) [index..<bm_num b]) < n"
  shows "iter_all n b \<lparr>it_value = v, it_index = index, it_ignore = iter_ignore v\<rparr> =
    Inr (filter (\<lambda>j. bm_bit b j = v) [index..<bm_num b])"
  using assms(2,3)
proof (induction n arbitrary: index)
  case 0
  then show ?case by simp
next
  case (Suc n)
  let ?f = "List.find (\<lambda>j. bm_bit b j = v) [index..<bm_num b]"
  show ?case
  proof (cases ?f)
    case None
    then show ?thesis
      using iter_get_loop_eq [OF assms(1) Suc.prems(1)]
      by (auto simp: iter_get_def filter_upt_find [of _ index])
  next
    case (Some j)
    then have "filter (\<lambda>j. bm_bit b j = v) [index..<bm_num b] = j # filter (\<lambda>j. bm_bit b j = v) [Suc j..<bm_num b]"
      by (simp add: filter_upt_find [of _ index])
    with Some show ?thesis
      using iter_get_loop_eq [OF assms(1) Suc.prems(1)] Suc.IH [of "Suc j"] Suc.prems(2)
      by (simp add: iter_get_def)
  qed
qed

subsection \<open>Encoding\<close>

lemma read_words_encode: "read_words (length cs) (concat (map u32_bytes cs) @ rest) = cs"
  by (induction cs) simp_all

lemma bm_decode_encode:
  assumes "bm_ok b"
  shows "bm_decode b0 (bm_encode b @ rest) = (True, b)"
proof -
  have n: "bm_num b < 2 ^ 32" "length (bm_chunks b) < 2 ^ 32"
    using assms by (auto simp: bm_ok_def)
  have nc: "length (bm_chunks b) * 32 < 2 ^ 32" "bm_num b \<le> length (bm_chunks b) * 32"
    using assms by (auto simp: bm_ok_def)
  have ws: "read_words 2 (bm_encode b @ rest) = [word_of_nat (bm_num b), word_of_nat (length (bm_chunks b))]"
    by (simp add: bm_encode_def numeral_2_eq_2)
  have cs: "read_words (length (bm_chunks b)) (drop 8 (bm_encode b @ rest)) = bm_chunks b"
    using read_words_encode [of "bm_chunks b" rest] by (simp add: bm_encode_def)
  have "unat (word_of_nat (length (bm_chunks b) * 32) :: u32) = length (bm_chunks b) * 32"
    using nc by (subst unat_of_nat) (simp add: mod_less)
  then show ?thesis
    using n nc cs unfolding bm_decode_def ws by (simp add: unat_of_nat Let_def)
qed

subsection \<open>Properties\<close>



text \<open>
  C32: iterating over a bitmap yields exactly the indices with the wanted value, in increasing
  order, although whole chunks are skipped, and ends after that.
\<close>

theorem bitmap_iterator_complete:
  assumes "bm_ok b"
  shows "iter_all (bm_num b + 1) b (iter_new v) = Inr (filter (\<lambda>j. bm_bits b ! j = v) [0..<bm_num b])"
proof -
  have "length (filter (\<lambda>j. bm_bit b j = v) [0..<bm_num b]) < bm_num b + 1"
    using length_filter_le [of _ "[0..<bm_num b]"] by (simp add: le_imp_less_Suc)
  from iter_all_from [OF assms _ this] show ?thesis
    by (auto simp: iter_at_def iter_new_def iter_ignore_def bm_bits_def intro!: filter_cong)
qed

theorem bitmap_iterator_complete_witness:
  "iter_all 71 (bm_new 70 True) (iter_new False) = Inr []"
  using bitmap_iterator_complete [OF bm_new_ok, of 70 True False]
  by (auto simp: bm_bits_new filter_empty_conv)

text \<open>C33: decoding what \<open>encode\<close> wrote restores the bitmap and reports success.\<close>

theorem bitmap_encode_decode:
  assumes "bm_ok b"
  shows "bm_decode b0 (bm_encode b @ rest) = (True, b)"
  using assms by (rule bm_decode_encode)

theorem bitmap_encode_decode_witness:
  "bm_decode (bm_new 0 False) (bm_encode (bm_new 40 True)) = (True, bm_new 40 True)"
  using bitmap_encode_decode [OF bm_new_ok, of 40 "bm_new 0 False" True "[]"] by simp

text \<open>
  The bits beyond \<open>num\<close> in the last chunk count for \<open>all_zero\<close>: a bitmap built with all ones and
  then reset bit by bit is not \<open>all_zero\<close>. A range that ends at \<open>num\<close> is refused although the
  header allows it. The copy constructor may copy no chunk at all.
\<close>

lemma all_zero_sees_padding:
  "\<exists>b. bm_reset (bm_new 1 True) 0 = Inr b \<and> bm_bits b = [False] \<and> \<not> all_zero b"
  by (simp add: bm_reset_def bm_change_def bm_new_def chunk_at_def all_zero_def bm_bits_def bm_bit_def
      bitSelector_def bit_and_iff bit_not_iff)

lemma setRange_refuses_end: "setRange b mn (bm_num b) = Inl Assert_failed"
  by (simp add: setRange_def)

lemma bm_copy_loses_chunks:
  "\<exists>b. bm_copy 0 (bm_new 8 True) = Inr b \<and> bm_test b 0 = Inl Out_of_bounds"
  by (simp add: bm_copy_def bm_new_def bm_test_def chunk_at_def)

end
