(* ===== verification/Queues.thy ===== *)
theory Queues
  imports Prelude
begin

section \<open>Message queues\<close>

text \<open>
  Two queues of the replicas. \<open>zl_Mes_queue\<close> (\<^verbatim>\<open>protocols/zlight/zl_Mes_queue.cc\<close>; the other protocols
  have the same class under their own prefix) is a doubly linked list on the heap, modelled with
  an explicit store of nodes. \<open>Blocking_circular_buffer\<close>
  (\<^verbatim>\<open>protocols/chain/Blocking_circular_buffer.cc\<close>) is a ring shared by threads, with its two
  condition variables; the threads are a step relation. Both meet the contract of the locale
  \<open>fifo_queue\<close>.
\<close>

subsection \<open>The contract\<close>

text \<open>Removing \<open>n\<close> elements one after the other.\<close>

fun drain :: "('q \<Rightarrow> ('a option \<times> 'q) result) \<Rightarrow> nat \<Rightarrow> 'q \<Rightarrow> ('a list \<times> 'q) result" where
  "drain deq 0 q = Inr ([], q)"
| "drain deq (Suc n) q =
     rbind (deq q) (\<lambda>(r, q'). case r of None \<Rightarrow> Inr ([], q')
       | Some x \<Rightarrow> rbind (drain deq n q') (\<lambda>(xs, q''). Inr (x # xs, q'')))"

locale fifo_queue =
  fixes ok :: "'q \<Rightarrow> bool" and elems :: "'q \<Rightarrow> 'a list" and room :: "'q \<Rightarrow> nat \<Rightarrow> bool"
    and enq :: "'q \<Rightarrow> 'a \<Rightarrow> 'q result" and deq :: "'q \<Rightarrow> ('a option \<times> 'q) result"
  assumes enq_elems: "ok q \<Longrightarrow> room q (Suc n) \<Longrightarrow>
            \<exists>q'. enq q x = Inr q' \<and> ok q' \<and> elems q' = elems q @ [x] \<and> room q' n"
    and deq_empty: "ok q \<Longrightarrow> elems q = [] \<Longrightarrow> deq q = Inr (None, q)"
    and deq_elems: "ok q \<Longrightarrow> elems q = x # xs \<Longrightarrow>
            \<exists>q'. deq q = Inr (Some x, q') \<and> ok q' \<and> elems q' = xs"
begin

lemma enq_all:
  "ok q \<Longrightarrow> room q (length xs) \<Longrightarrow>
     \<exists>q'. for_loop enq xs q = Inr q' \<and> ok q' \<and> elems q' = elems q @ xs"
proof (induction xs arbitrary: q)
  case Nil
  then show ?case by simp
next
  case (Cons x xs)
  then obtain q1 where "enq q x = Inr q1" "ok q1" "elems q1 = elems q @ [x]" "room q1 (length xs)"
    using enq_elems [of q "length xs" x] by auto
  with Cons.IH [of q1] show ?case by auto
qed

lemma drain_elems:
  "ok q \<Longrightarrow> elems q = xs @ ys \<Longrightarrow> \<exists>q'. drain deq (length xs) q = Inr (xs, q') \<and> ok q' \<and> elems q' = ys"
proof (induction xs arbitrary: q)
  case Nil
  then show ?case by simp
next
  case (Cons x xs)
  then obtain q1 where "deq q = Inr (Some x, q1)" "ok q1" "elems q1 = xs @ ys"
    using deq_elems [of q x "xs @ ys"] by auto
  with Cons.IH [of q1] show ?case by auto
qed

text \<open>What is put in comes out in the same order, and then the queue is empty.\<close>

lemma enq_drain:
  assumes "ok q" "elems q = []" "room q (length xs)"
  shows "\<exists>q1 q2. for_loop enq xs q = Inr q1 \<and> drain deq (length xs) q1 = Inr (xs, q2) \<and>
           deq q2 = Inr (None, q2)"
proof -
  obtain q1 where q1: "for_loop enq xs q = Inr q1" "ok q1" "elems q1 = xs @ []"
    using enq_all [OF assms(1,3)] assms(2) by auto
  obtain q2 where "drain deq (length xs) q1 = Inr (xs, q2)" "ok q2" "elems q2 = []"
    using drain_elems [OF q1(2,3)] by auto
  with q1(1) deq_empty show ?thesis by blast
qed

end

subsection \<open>\<open>zl_Mes_queue\<close>\<close>

record 'm pc_node =
  n_m :: 'm
  n_next :: "nat option"
  n_prev :: "nat option"

text \<open>The store maps the addresses of live nodes; \<open>mq_fresh\<close> is where the next \<open>new\<close> allocates.\<close>

record 'm mes_queue =
  mq_store :: "nat \<rightharpoonup> 'm pc_node"
  mq_fresh :: nat
  mq_head :: "nat option"
  mq_tail :: "nat option"
  mq_nelems :: int
  mq_nbytes :: int

definition mq_new :: "'m mes_queue" where
  "mq_new = \<lparr>mq_store = Map.empty, mq_fresh = 0, mq_head = None, mq_tail = None,
             mq_nelems = 0, mq_nbytes = 0\<rparr>"

definition mq_append :: "('m \<Rightarrow> int) \<Rightarrow> 'm mes_queue \<Rightarrow> 'm \<Rightarrow> 'm mes_queue result" where
  "mq_append msize q m =
     (let cn = mq_fresh q;
          q1 = q\<lparr>mq_fresh := Suc cn, mq_nbytes := mq_nbytes q + msize m, mq_nelems := mq_nelems q + 1\<rparr>
      in case mq_head q1 of
           None \<Rightarrow> Inr (q1\<lparr>mq_store := (mq_store q1)(cn \<mapsto> \<lparr>n_m = m, n_next = None, n_prev = None\<rparr>),
                         mq_head := Some cn, mq_tail := Some cn\<rparr>)
         | Some h \<Rightarrow>
             (case mq_tail q1 of
                None \<Rightarrow> Inl Null_deref
              | Some t \<Rightarrow>
                  (case mq_store q1 t of
                     None \<Rightarrow> Inl Out_of_bounds
                   | Some tn \<Rightarrow>
                       Inr (q1\<lparr>mq_store := (mq_store q1)(t \<mapsto> tn\<lparr>n_next := Some cn\<rparr>,
                                   cn \<mapsto> \<lparr>n_m = m, n_next = None, n_prev = Some t\<rparr>),
                               mq_tail := Some cn\<rparr>))))"

definition mq_remove :: "('m \<Rightarrow> int) \<Rightarrow> 'm mes_queue \<Rightarrow> ('m option \<times> 'm mes_queue) result" where
  "mq_remove msize q =
     (case mq_head q of
        None \<Rightarrow> Inr (None, q)
      | Some h \<Rightarrow>
          (case mq_store q h of
             None \<Rightarrow> Inl Out_of_bounds
           | Some hn \<Rightarrow>
               let ret = n_m hn;
                   q1 = q\<lparr>mq_head := n_next hn, mq_store := (mq_store q)(h := None)\<rparr>
               in rbind
                    (case mq_head q1 of
                       None \<Rightarrow> Inr (q1\<lparr>mq_tail := None\<rparr>)
                     | Some h' \<Rightarrow>
                         (case mq_store q1 h' of
                            None \<Rightarrow> Inl Out_of_bounds
                          | Some n' \<Rightarrow> Inr (q1\<lparr>mq_store := (mq_store q1)(h' \<mapsto> n'\<lparr>n_prev := None\<rparr>)\<rparr>)))
                    (\<lambda>q2. Inr (Some ret, q2\<lparr>mq_nelems := mq_nelems q2 - 1,
                                           mq_nbytes := mq_nbytes q2 - msize ret\<rparr>))))"

definition mq_first :: "'m mes_queue \<Rightarrow> 'm option result" where
  "mq_first q = (case mq_head q of None \<Rightarrow> Inr None
     | Some h \<Rightarrow> (case mq_store q h of None \<Rightarrow> Inl Out_of_bounds | Some n \<Rightarrow> Inr (Some (n_m n))))"

definition mq_size :: "'m mes_queue \<Rightarrow> int" where
  "mq_size q = mq_nelems q"

definition mq_num_bytes :: "'m mes_queue \<Rightarrow> int" where
  "mq_num_bytes q = mq_nbytes q"

text \<open>
  The shape: \<open>linked st prev p as ms\<close> says that the nodes from \<open>p\<close> on are at the addresses
  \<open>as\<close>, carry \<open>ms\<close>, and are linked both ways.
\<close>

fun linked :: "(nat \<rightharpoonup> 'm pc_node) \<Rightarrow> nat option \<Rightarrow> nat option \<Rightarrow> nat list \<Rightarrow> 'm list \<Rightarrow> bool" where
  "linked st prev p [] [] \<longleftrightarrow> p = None"
| "linked st prev p (a # as) (m # ms) \<longleftrightarrow>
     p = Some a \<and> (\<exists>n. st a = Some n \<and> n_m n = m \<and> n_prev n = prev \<and> linked st (Some a) (n_next n) as ms)"
| "linked st prev p _ _ \<longleftrightarrow> False"

definition mq_repr :: "('m \<Rightarrow> int) \<Rightarrow> 'm mes_queue \<Rightarrow> nat list \<Rightarrow> 'm list \<Rightarrow> bool" where
  "mq_repr msize q as ms \<longleftrightarrow>
     linked (mq_store q) None (mq_head q) as ms \<and> distinct as \<and> (\<forall>a\<in>set as. a < mq_fresh q) \<and>
     mq_tail q = (if as = [] then None else Some (last as)) \<and>
     mq_nelems q = int (length ms) \<and> mq_nbytes q = sum_list (map msize ms)"

fun mq_walk :: "(nat \<rightharpoonup> 'm pc_node) \<Rightarrow> nat \<Rightarrow> nat option \<Rightarrow> 'm list" where
  "mq_walk st 0 p = []"
| "mq_walk st (Suc k) p =
     (case p of None \<Rightarrow> [] | Some a \<Rightarrow>
        (case st a of None \<Rightarrow> [] | Some n \<Rightarrow> n_m n # mq_walk st k (n_next n)))"

definition mq_msgs :: "'m mes_queue \<Rightarrow> 'm list" where
  "mq_msgs q = mq_walk (mq_store q) (nat (mq_nelems q)) (mq_head q)"

definition mq_ok :: "('m \<Rightarrow> int) \<Rightarrow> 'm mes_queue \<Rightarrow> bool" where
  "mq_ok msize q \<longleftrightarrow> (\<exists>as. mq_repr msize q as (mq_msgs q))"

lemma linked_length: "linked st prev p as ms \<Longrightarrow> length as = length ms"
  by (induction st prev p as ms rule: linked.induct) auto

lemma linked_walk: "linked st prev p as ms \<Longrightarrow> mq_walk st (length ms) p = ms"
  by (induction st prev p as ms rule: linked.induct) auto

lemma linked_update: "a \<notin> set as \<Longrightarrow> linked (st(a := x)) prev p as ms = linked st prev p as ms"
  by (induction as ms arbitrary: prev p rule: list_induct2') auto

lemma mq_repr_msgs: "mq_repr msize q as ms \<Longrightarrow> mq_msgs q = ms \<and> mq_ok msize q"
proof -
  assume r: "mq_repr msize q as ms"
  then have "mq_msgs q = ms"
    using linked_walk [of "mq_store q" None "mq_head q" as ms] by (simp add: mq_repr_def mq_msgs_def)
  with r show ?thesis by (auto simp: mq_ok_def)
qed

lemma linked_snoc:
  assumes "linked st prev p as ms" "as \<noteq> []" "distinct as" "cn \<notin> set as"
  shows "\<exists>tn. st (last as) = Some tn \<and>
     linked (st(last as \<mapsto> tn\<lparr>n_next := Some cn\<rparr>, cn \<mapsto> \<lparr>n_m = m, n_next = None, n_prev = Some (last as)\<rparr>))
       prev p (as @ [cn]) (ms @ [m])"
  using assms
proof (induction st prev p as ms rule: linked.induct)
  case (2 st prev p a as m' ms)
  then obtain n where n: "st a = Some n" "n_m n = m'" "n_prev n = prev"
    "linked st (Some a) (n_next n) as ms" "p = Some a" by auto
  show ?case
  proof (cases "as = []")
    case True
    with n have "ms = []" using linked_length [OF n(4)] by simp
    then show ?thesis using True n 2(5) by auto
  next
    case False
    from "2.IH" [OF n(4) False] "2.prems"(3,4) obtain tn where tn: "st (last as) = Some tn"
      "linked (st(last as \<mapsto> tn\<lparr>n_next := Some cn\<rparr>, cn \<mapsto> \<lparr>n_m = m, n_next = None, n_prev = Some (last as)\<rparr>))
         (Some a) (n_next n) (as @ [cn]) (ms @ [m])" by (auto simp del: fun_upd_apply)
    moreover have "a \<noteq> last as" "a \<noteq> cn" using 2(4,5) False by auto
    ultimately show ?thesis using n False by (auto simp: fun_upd_def)
  qed
qed auto

lemma mq_append_repr:
  assumes "mq_repr msize q as ms"
  shows "\<exists>q'. mq_append msize q m = Inr q' \<and> mq_repr msize q' (as @ [mq_fresh q]) (ms @ [m])"
proof (cases "as = []")
  case True
  with assms have "ms = []" "mq_head q = None"
    using linked_length by (auto simp: mq_repr_def elim: linked.elims)
  with True assms show ?thesis
    by (auto simp: mq_append_def mq_repr_def Let_def)
next
  case False
  let ?cn = "mq_fresh q"
  have l: "linked (mq_store q) None (mq_head q) as ms" and d: "distinct as" and f: "?cn \<notin> set as"
    using assms by (auto simp: mq_repr_def)
  obtain h where h: "mq_head q = Some h"
    using l False by (cases as; cases ms) auto
  obtain tn where tn: "mq_store q (last as) = Some tn"
    "linked ((mq_store q)(last as \<mapsto> tn\<lparr>n_next := Some ?cn\<rparr>,
        ?cn \<mapsto> \<lparr>n_m = m, n_next = None, n_prev = Some (last as)\<rparr>)) None (mq_head q) (as @ [?cn]) (ms @ [m])"
    using linked_snoc [OF l False d f] by blast
  show ?thesis
    using assms False h tn by (auto simp: mq_append_def mq_repr_def Let_def)
qed

lemma linked_new_head:
  "linked st prev (Some a) (a # as) (m # ms) \<Longrightarrow> st a = Some n \<Longrightarrow>
   linked (st(a \<mapsto> n\<lparr>n_prev := x\<rparr>)) x (Some a) (a # as) (m # ms)" if "a \<notin> set as"
  using that by (auto simp: linked_update)

lemma mq_remove_repr:
  assumes "mq_repr msize q as (m # ms)"
  shows "\<exists>q'. mq_remove msize q = Inr (Some m, q') \<and> mq_repr msize q' (tl as) ms"
proof -
  obtain h as' where as: "as = h # as'"
    using assms linked_length by (cases as) (fastforce simp: mq_repr_def)+
  obtain n where n: "mq_store q h = Some n" "n_m n = m" "mq_head q = Some h"
    "linked (mq_store q) (Some h) (n_next n) as' ms"
    using assms by (auto simp: mq_repr_def as)
  have d: "h \<notin> set as'" "distinct as'" using assms by (auto simp: mq_repr_def as)
  let ?st = "(mq_store q)(h := None)"
  have l: "linked ?st (Some h) (n_next n) as' ms"
    using n(4) d by (simp add: linked_update)
  show ?thesis
  proof (cases as')
    case Nil
    then have "ms = []" "n_next n = None" using n(4) linked_length [OF n(4)] by auto
    then show ?thesis
      using assms n Nil as by (auto simp: mq_remove_def mq_repr_def Let_def)
  next
    case (Cons h' as'')
    then obtain m' ms' where ms: "ms = m' # ms'"
      using linked_length [OF n(4)] by (cases ms) auto
    then obtain n' where n': "?st h' = Some n'" "n_next n = Some h'"
      using l Cons by auto
    have "linked (?st(h' \<mapsto> n'\<lparr>n_prev := None\<rparr>)) None (Some h') as' ms"
      using linked_new_head [of h' as'' ?st "Some h" m' ms' n' None] l n' Cons ms d by auto
    then show ?thesis
      using assms n n' Cons as ms by (auto simp: mq_remove_def mq_repr_def Let_def)
  qed
qed

lemma mq_new_ok: "mq_ok msize mq_new" "mq_msgs mq_new = []"
  by (auto simp: mq_ok_def mq_repr_def mq_new_def mq_msgs_def intro!: exI [of _ "[]"])

interpretation mq: fifo_queue "mq_ok msize" mq_msgs "\<lambda>q n. True" "mq_append msize" "mq_remove msize"
proof unfold_locales
  fix q :: "'a mes_queue" and n x
  assume "mq_ok msize q"
  then obtain as where "mq_repr msize q as (mq_msgs q)" by (auto simp: mq_ok_def)
  from mq_append_repr [OF this, of x]
  show "\<exists>q'. mq_append msize q x = Inr q' \<and> mq_ok msize q' \<and> mq_msgs q' = mq_msgs q @ [x] \<and> True"
    using mq_repr_msgs by metis
next
  fix q :: "'a mes_queue"
  assume "mq_ok msize q" "mq_msgs q = []"
  then have "mq_head q = None"
    using linked_length by (fastforce simp: mq_ok_def mq_repr_def elim: linked.elims)
  then show "mq_remove msize q = Inr (None, q)"
    by (simp add: mq_remove_def)
next
  fix q :: "'a mes_queue" and x xs
  assume "mq_ok msize q" "mq_msgs q = x # xs"
  then obtain as where "mq_repr msize q as (x # xs)" by (auto simp: mq_ok_def)
  from mq_remove_repr [OF this]
  show "\<exists>q'. mq_remove msize q = Inr (Some x, q') \<and> mq_ok msize q' \<and> mq_msgs q' = xs"
    using mq_repr_msgs by metis
qed

subsection \<open>\<open>Blocking_circular_buffer\<close>\<close>

text \<open>\<open>None\<close> in a cell is the value \<open>bcb_magic()\<close> of a free cell.\<close>

record 'm bcb =
  cb :: "'m option list"
  bc_length :: int
  read_idx :: int
  write_idx :: int
  nb_msg :: int

definition bcb_new :: "int \<Rightarrow> 'm bcb" where
  "bcb_new sz =
     \<lparr>cb = (if sz > 0 then replicate (nat sz) None else []), bc_length = sz,
      read_idx = 0, write_idx = 0, nb_msg = 0\<rparr>"

definition bcb_nb_msg :: "'m bcb \<Rightarrow> int" where
  "bcb_nb_msg b = nb_msg b"

text \<open>
  \<open>bcb_write_msg\<close> and \<open>bcb_read_msg\<close> from the point where the mutex is held: the loop condition
  sends the thread to wait (\<open>None\<close>), otherwise the body runs. The boolean says whether it signals
  the other side.
\<close>

definition bcb_write_msg :: "'m bcb \<Rightarrow> 'm \<Rightarrow> ('m bcb \<times> bool) option result" where
  "bcb_write_msg b m =
     (if nb_msg b \<ge> bc_length b then Inr None
      else if 0 \<le> write_idx b \<and> write_idx b < int (length (cb b))
      then let b1 = b\<lparr>cb := (cb b)[nat (write_idx b) := Some m]\<rparr>;
               b2 = b1\<lparr>write_idx := (write_idx b1 + 1) mod bc_length b1\<rparr>;
               b3 = b2\<lparr>nb_msg := nb_msg b2 + 1\<rparr>
           in Inr (Some (b3, nb_msg b3 = 1))
      else Inl Out_of_bounds)"

definition bcb_read_msg :: "'m bcb \<Rightarrow> ('m option \<times> 'm bcb \<times> bool) option result" where
  "bcb_read_msg b =
     (if nb_msg b < 1 then Inr None
      else if 0 \<le> read_idx b \<and> read_idx b < int (length (cb b))
      then let m = cb b ! nat (read_idx b);
               b1 = b\<lparr>cb := (cb b)[nat (read_idx b) := None]\<rparr>;
               b2 = b1\<lparr>read_idx := (read_idx b1 + 1) mod bc_length b1\<rparr>;
               b3 = b2\<lparr>nb_msg := nb_msg b2 - 1\<rparr>
           in Inr (Some (m, b3, nb_msg b2 = bc_length b2))
      else Inl Out_of_bounds)"

text \<open>The cell that holds the \<open>i\<close>-th message of the buffer, counted from the oldest.\<close>

definition bcb_cell :: "'m bcb \<Rightarrow> nat \<Rightarrow> nat" where
  "bcb_cell b i = (nat (read_idx b) + i) mod nat (bc_length b)"

definition bcb_items :: "'m bcb \<Rightarrow> 'm list" where
  "bcb_items b = map (\<lambda>i. the (cb b ! bcb_cell b i)) [0..<nat (nb_msg b)]"

definition bcb_ok :: "'m bcb \<Rightarrow> bool" where
  "bcb_ok b \<longleftrightarrow> 0 < bc_length b \<and> length (cb b) = nat (bc_length b) \<and>
     0 \<le> read_idx b \<and> read_idx b < bc_length b \<and> 0 \<le> nb_msg b \<and> nb_msg b \<le> bc_length b \<and>
     write_idx b = int (bcb_cell b (nat (nb_msg b))) \<and>
     (\<forall>i < nat (nb_msg b). cb b ! bcb_cell b i \<noteq> None)"

lemma bcb_ok_new: "0 < n \<Longrightarrow> bcb_ok (bcb_new n)" "bcb_items (bcb_new n) = []"
  by (simp_all add: bcb_ok_def bcb_new_def bcb_cell_def bcb_items_def)

lemma add_mod_inj:
  fixes r i j n :: nat
  assumes "(r + i) mod n = (r + j) mod n" "i < n" "j < n"
  shows "i = j"
proof -
  have "(int r + int i) mod int n = (int r + int j) mod int n"
    using assms(1) by (metis of_nat_add of_nat_mod)
  then have "int i mod int n = int j mod int n"
    by (metis add_diff_cancel_left' mod_diff_left_eq)
  then show ?thesis using assms(2,3) by simp
qed

lemma bcb_next_cell:
  assumes "bcb_ok b"
  shows "(int (bcb_cell b i) + 1) mod bc_length b = int (bcb_cell b (Suc i))"
proof -
  define L where "L = nat (bc_length b)"
  have L: "bc_length b = int L" using assms by (simp add: bcb_ok_def L_def)
  have "(int (bcb_cell b i) + 1) mod int L = int (Suc (bcb_cell b i) mod L)"
    by (simp add: zmod_int add.commute)
  also have "Suc (bcb_cell b i) mod L = bcb_cell b (Suc i)"
    by (simp add: bcb_cell_def L mod_Suc_eq)
  finally show ?thesis by (simp add: L)
qed

lemma length_bcb_items: "length (bcb_items b) = nat (nb_msg b)"
  by (simp add: bcb_items_def)

lemma bcb_write_eq:
  assumes ok: "bcb_ok b" and nf: "nb_msg b < bc_length b"
  shows "\<exists>b'. bcb_write_msg b m = Inr (Some (b', nb_msg b = 0)) \<and> bcb_ok b' \<and>
     bcb_items b' = bcb_items b @ [m] \<and> nb_msg b' = nb_msg b + 1 \<and> bc_length b' = bc_length b"
proof -
  define n where "n = nat (nb_msg b)"
  define b' where "b' = b\<lparr>cb := (cb b)[bcb_cell b n := Some m],
      write_idx := (write_idx b + 1) mod bc_length b, nb_msg := nb_msg b + 1\<rparr>"
  have w: "write_idx b = int (bcb_cell b n)" "bcb_cell b n < length (cb b)" "nat (nb_msg b + 1) = Suc n"
    "n < nat (bc_length b)" "nb_msg b = int n"
    using ok nf by (auto simp: bcb_ok_def n_def bcb_cell_def)
  have cell: "bcb_cell b' i = bcb_cell b i" for i
    by (simp add: bcb_cell_def b'_def)
  have diff: "bcb_cell b i \<noteq> bcb_cell b n" if "i < n" for i
    using add_mod_inj [of "nat (read_idx b)" i "nat (bc_length b)" n] that w(4) by (auto simp: bcb_cell_def)
  have "(write_idx b + 1) mod bc_length b = int (bcb_cell b (Suc n))"
    unfolding w(1) by (rule bcb_next_cell [OF ok])
  moreover have "cb b' ! bcb_cell b i \<noteq> None" if "i < Suc n" for i
  proof (cases "i = n")
    case True
    then show ?thesis using w(2) by (simp add: b'_def)
  next
    case False
    then have "bcb_cell b n \<noteq> bcb_cell b i" using diff [of i] that by auto
    then have "cb b' ! bcb_cell b i = cb b ! bcb_cell b i" by (simp add: b'_def)
    then show ?thesis using ok False that by (simp add: bcb_ok_def n_def)
  qed
  ultimately have "bcb_ok b'"
    using ok nf w(3,5) unfolding bcb_ok_def cell by (simp add: b'_def)
  moreover have "bcb_items b' = bcb_items b @ [m]"
  proof -
    have "nat (nb_msg b') = Suc n" "nat (nb_msg b) = n"
      using w(3) by (simp_all add: b'_def n_def)
    then show ?thesis
      unfolding bcb_items_def cell using w(2) diff not_sym by (fastforce simp: b'_def)
  qed
  moreover have "bcb_write_msg b m = Inr (Some (b', nb_msg b = 0))"
    using nf w(1,2) by (simp add: bcb_write_msg_def Let_def b'_def)
  moreover have "nb_msg b' = nb_msg b + 1" "bc_length b' = bc_length b"
    by (simp_all add: b'_def)
  ultimately show ?thesis by blast
qed

lemma bcb_read_eq:
  assumes ok: "bcb_ok b" and ne: "bcb_items b = x # xs"
  shows "\<exists>b'. bcb_read_msg b = Inr (Some (Some x, b', nb_msg b = bc_length b)) \<and> bcb_ok b' \<and>
     bcb_items b' = xs \<and> nb_msg b' = nb_msg b - 1 \<and> bc_length b' = bc_length b"
proof -
  define n where "n = nat (nb_msg b) - 1"
  define r where "r = nat (read_idx b)"
  have n: "nb_msg b = int (Suc n)" "Suc n \<le> nat (bc_length b)"
  proof -
    have "0 < nat (nb_msg b)" using length_bcb_items [of b] ne by (cases "nat (nb_msg b)") auto
    moreover have "nb_msg b \<le> bc_length b" using ok unfolding bcb_ok_def by blast
    ultimately show "nb_msg b = int (Suc n)" "Suc n \<le> nat (bc_length b)"
      unfolding n_def by linarith+
  qed
  have r: "r < length (cb b)" "bcb_cell b 0 = r" "cb b ! r = Some x" "read_idx b = int r"
  proof -
    show "r < length (cb b)" "read_idx b = int r" and c0: "bcb_cell b 0 = r"
      using ok by (auto simp: r_def bcb_cell_def bcb_ok_def)
    have pos: "0 < nat (nb_msg b)" using n by simp
    then have "cb b ! r \<noteq> None" using ok c0 by (auto simp: bcb_ok_def)
    moreover have "x = the (cb b ! r)"
      using ne pos c0 by (simp add: bcb_items_def upt_conv_Cons)
    ultimately show "cb b ! r = Some x" by auto
  qed
  define b' where "b' = b\<lparr>cb := (cb b)[r := None],
      read_idx := (read_idx b + 1) mod bc_length b, nb_msg := nb_msg b - 1\<rparr>"
  have rd: "read_idx b' = int (bcb_cell b 1)"
    using bcb_next_cell [OF ok, of 0] r(2,4) by (simp add: b'_def)
  have cell: "bcb_cell b' i = bcb_cell b (Suc i)" for i
    unfolding bcb_cell_def rd by (simp add: b'_def bcb_cell_def mod_simps)
  have diff: "r \<noteq> bcb_cell b (Suc i)" if "i < n" for i
  proof
    assume "r = bcb_cell b (Suc i)"
    then have "(r + Suc i) mod nat (bc_length b) = (r + 0) mod nat (bc_length b)"
      using r(2) by (simp add: bcb_cell_def r_def)
    then have "Suc i = 0"
      by (rule add_mod_inj) (use that n(2) in linarith)+
    then show False by simp
  qed
  have nn: "nat (nb_msg b) = Suc n" using n(1) by simp
  have o: "0 < bc_length b \<and> length (cb b) = nat (bc_length b) \<and> write_idx b = int (bcb_cell b (Suc n)) \<and>
      (\<forall>i < Suc n. cb b ! bcb_cell b i \<noteq> None)"
    using ok unfolding bcb_ok_def nn by (elim conjE) (intro conjI)
  then have L: "0 < bc_length b" "length (cb b) = nat (bc_length b)" "write_idx b = int (bcb_cell b (Suc n))"
    by simp_all
  have Ln: "int n \<le> bc_length b" using n(2) by linarith
  have "cb b ! bcb_cell b (Suc i) \<noteq> None" if "i < n" for i
    using o that by simp
  then have live: "cb b' ! bcb_cell b (Suc i) \<noteq> None" if "i < n" for i
    using diff [OF that] that by (simp add: b'_def)
  have "bcb_cell b 1 < nat (bc_length b)"
    using L by (simp add: bcb_cell_def)
  moreover have f: "bc_length b' = bc_length b" "length (cb b') = length (cb b)" "nb_msg b' = int n"
    "write_idx b' = write_idx b"
    using n(1) by (simp_all add: b'_def)
  ultimately have "bcb_ok b'"
    using L Ln live unfolding bcb_ok_def cell f rd by simp
  moreover have "bcb_items b' = xs"
  proof -
    have "bcb_items b = the (cb b ! r) # map (\<lambda>i. the (cb b ! bcb_cell b (Suc i))) [0..<n]"
      unfolding bcb_items_def nn map_upt_Suc using r(2) by simp
    moreover have "bcb_items b' = map (\<lambda>i. the (cb b ! bcb_cell b (Suc i))) [0..<n]"
      using diff unfolding bcb_items_def cell f by (auto simp: b'_def)
    ultimately show ?thesis using ne by simp
  qed
  moreover have "bcb_read_msg b = Inr (Some (Some x, b', nb_msg b = bc_length b))"
    using n(1) r by (simp add: bcb_read_msg_def Let_def b'_def)
  ultimately show ?thesis
    using f n(1) by (intro exI [of _ b'] conjI) simp_all
qed

text \<open>A single thread that uses the buffer: a write that would wait for ever is a deadlock.\<close>

definition bcb_put :: "'m bcb \<Rightarrow> 'm \<Rightarrow> 'm bcb result" where
  "bcb_put b m = rbind (bcb_write_msg b m) (\<lambda>r. case r of None \<Rightarrow> Inl Deadlock | Some (b', _) \<Rightarrow> Inr b')"

definition bcb_take :: "'m bcb \<Rightarrow> ('m option \<times> 'm bcb) result" where
  "bcb_take b = rbind (bcb_read_msg b) (\<lambda>r. case r of None \<Rightarrow> Inr (None, b) | Some (m, b', _) \<Rightarrow> Inr (m, b'))"

interpretation ring: fifo_queue bcb_ok bcb_items "\<lambda>b n. nb_msg b + int n \<le> bc_length b" bcb_put bcb_take
proof unfold_locales
  fix b :: "'a bcb" and n x
  assume ok: "bcb_ok b" and "nb_msg b + int (Suc n) \<le> bc_length b"
  then have "nb_msg b < bc_length b" by simp
  from bcb_write_eq [OF ok this, of x]
  show "\<exists>b'. bcb_put b x = Inr b' \<and> bcb_ok b' \<and> bcb_items b' = bcb_items b @ [x] \<and>
          nb_msg b' + int n \<le> bc_length b'"
    using \<open>nb_msg b + int (Suc n) \<le> bc_length b\<close> by (auto simp: bcb_put_def)
next
  fix b :: "'a bcb"
  assume "bcb_ok b" "bcb_items b = []"
  then have "nb_msg b < 1" using length_bcb_items [of b] by simp
  then show "bcb_take b = Inr (None, b)"
    by (simp add: bcb_take_def bcb_read_msg_def)
next
  fix b :: "'a bcb" and x xs
  assume "bcb_ok b" "bcb_items b = x # xs"
  from bcb_read_eq [OF this]
  show "\<exists>b'. bcb_take b = Inr (Some x, b') \<and> bcb_ok b' \<and> bcb_items b' = xs"
    by (auto simp: bcb_take_def)
qed

subsection \<open>Threads on the circular buffer\<close>

text \<open>
  A thread is either running (it holds or competes for the mutex) or it sleeps in
  \<open>pthread_cond_wait\<close>. A signal wakes one sleeping thread of the other side, if there is one; the
  woken thread tests its loop condition again. \<open>sys_in\<close> and \<open>sys_out\<close> record what was written
  and read.
\<close>

datatype thread = Running | Sleeping

record 'm bcb_sys =
  sys_buf :: "'m bcb"
  sys_rd :: "nat \<Rightarrow> thread"
  sys_wr :: "nat \<Rightarrow> thread"
  sys_in :: "'m list"
  sys_out :: "'m list"

definition bcb_init :: "int \<Rightarrow> 'm bcb_sys" where
  "bcb_init n = \<lparr>sys_buf = bcb_new n, sys_rd = (\<lambda>_. Running), sys_wr = (\<lambda>_. Running), sys_in = [], sys_out = []\<rparr>"

definition cond_signal :: "nat \<Rightarrow> bool \<Rightarrow> (nat \<Rightarrow> thread) \<Rightarrow> (nat \<Rightarrow> thread) \<Rightarrow> bool" where
  "cond_signal k sig f f' \<longleftrightarrow>
     (if sig \<and> (\<exists>i<k. f i = Sleeping) then \<exists>i<k. f i = Sleeping \<and> f' = f(i := Running) else f' = f)"

inductive bcb_step :: "nat \<Rightarrow> nat \<Rightarrow> 'm bcb_sys \<Rightarrow> 'm bcb_sys \<Rightarrow> bool" for nr nw where
  write_wait: "w < nw \<Longrightarrow> sys_wr s w = Running \<Longrightarrow> bcb_write_msg (sys_buf s) m = Inr None \<Longrightarrow>
     bcb_step nr nw s (s\<lparr>sys_wr := (sys_wr s)(w := Sleeping)\<rparr>)"
| write_now: "w < nw \<Longrightarrow> sys_wr s w = Running \<Longrightarrow> bcb_write_msg (sys_buf s) m = Inr (Some (b, sig)) \<Longrightarrow>
     cond_signal nr sig (sys_rd s) rd \<Longrightarrow>
     bcb_step nr nw s (s\<lparr>sys_buf := b, sys_rd := rd, sys_in := sys_in s @ [m]\<rparr>)"
| read_wait: "r < nr \<Longrightarrow> sys_rd s r = Running \<Longrightarrow> bcb_read_msg (sys_buf s) = Inr None \<Longrightarrow>
     bcb_step nr nw s (s\<lparr>sys_rd := (sys_rd s)(r := Sleeping)\<rparr>)"
| read_now: "r < nr \<Longrightarrow> sys_rd s r = Running \<Longrightarrow> bcb_read_msg (sys_buf s) = Inr (Some (Some m, b, sig)) \<Longrightarrow>
     cond_signal nw sig (sys_wr s) wr \<Longrightarrow>
     bcb_step nr nw s (s\<lparr>sys_buf := b, sys_wr := wr, sys_out := sys_out s @ [m]\<rparr>)"

inductive bcb_reach :: "nat \<Rightarrow> nat \<Rightarrow> int \<Rightarrow> 'm bcb_sys \<Rightarrow> bool" for nr nw n where
  start: "bcb_reach nr nw n (bcb_init n)"
| step: "bcb_reach nr nw n s \<Longrightarrow> bcb_step nr nw s s' \<Longrightarrow> bcb_reach nr nw n s'"

inductive_cases bcb_stepE: "bcb_step nr nw s s'"

lemma bcb_read_None: "bcb_ok b \<Longrightarrow> bcb_read_msg b = Inr None \<longleftrightarrow> nb_msg b = 0"
  by (auto simp: bcb_read_msg_def bcb_ok_def Let_def split: if_splits)

lemma bcb_write_None: "bcb_ok b \<Longrightarrow> bcb_write_msg b m = Inr None \<longleftrightarrow> nb_msg b = bc_length b"
  by (auto simp: bcb_write_msg_def bcb_ok_def Let_def split: if_splits)

lemma bcb_write_SomeD:
  assumes "bcb_ok b" "bcb_write_msg b m = Inr (Some (b', sig))"
  shows "bcb_ok b'" "bcb_items b' = bcb_items b @ [m]" "nb_msg b' = nb_msg b + 1"
    "bc_length b' = bc_length b" "sig \<longleftrightarrow> nb_msg b = 0"
proof -
  have "nb_msg b < bc_length b" using assms(2) by (auto simp: bcb_write_msg_def split: if_splits)
  from bcb_write_eq [OF assms(1) this, of m] assms(2)
  show "bcb_ok b'" "bcb_items b' = bcb_items b @ [m]" "nb_msg b' = nb_msg b + 1"
    "bc_length b' = bc_length b" "sig \<longleftrightarrow> nb_msg b = 0" by auto
qed

lemma bcb_read_SomeD:
  assumes "bcb_ok b" "bcb_read_msg b = Inr (Some (Some m, b', sig))"
  shows "bcb_ok b'" "bcb_items b = m # bcb_items b'" "nb_msg b' = nb_msg b - 1"
    "bc_length b' = bc_length b" "sig \<longleftrightarrow> nb_msg b = bc_length b"
proof -
  have "\<not> nb_msg b < 1" using assms(2) by (auto simp: bcb_read_msg_def split: if_splits)
  then obtain x xs where x: "bcb_items b = x # xs"
    using length_bcb_items [of b] by (cases "bcb_items b") auto
  from bcb_read_eq [OF assms(1) x] assms(2) x
  show "bcb_ok b'" "bcb_items b = m # bcb_items b'" "nb_msg b' = nb_msg b - 1"
    "bc_length b' = bc_length b" "sig \<longleftrightarrow> nb_msg b = bc_length b" by auto
qed

text \<open>Any number of threads: the buffer is well formed and nothing is lost, doubled or reordered.\<close>

definition bcb_order_inv :: "'m bcb_sys \<Rightarrow> bool" where
  "bcb_order_inv s \<longleftrightarrow> bcb_ok (sys_buf s) \<and> sys_in s = sys_out s @ bcb_items (sys_buf s)"

lemma bcb_order_step: "bcb_step nr nw s s' \<Longrightarrow> bcb_order_inv s \<Longrightarrow> bcb_order_inv s'"
proof (induction rule: bcb_step.induct)
  case (write_now w s m b sig rd)
  then have ok: "bcb_ok (sys_buf s)" by (simp add: bcb_order_inv_def)
  from bcb_write_SomeD [OF ok write_now(3)] write_now(5) show ?case
    by (simp add: bcb_order_inv_def)
next
  case (read_now r s m b sig wr)
  then have ok: "bcb_ok (sys_buf s)" by (simp add: bcb_order_inv_def)
  from bcb_read_SomeD [OF ok read_now(3)] read_now(5) show ?case
    by (simp add: bcb_order_inv_def)
qed (simp_all add: bcb_order_inv_def)

lemma bcb_reach_order:
  assumes "bcb_reach nr nw n s" "0 < n"
  shows "bcb_order_inv s"
  using assms(1)
proof (induction rule: bcb_reach.induct)
  case start
  then show ?case using assms(2) by (simp add: bcb_order_inv_def bcb_init_def bcb_ok_new)
next
  case (step s s')
  then show ?case by (blast intro: bcb_order_step)
qed

text \<open>One reader and one writer: nobody sleeps while there is something to do.\<close>

definition bcb_wake_inv :: "'m bcb_sys \<Rightarrow> bool" where
  "bcb_wake_inv s \<longleftrightarrow>
     (sys_rd s 0 = Sleeping \<longrightarrow> nb_msg (sys_buf s) = 0) \<and>
     (sys_wr s 0 = Sleeping \<longrightarrow> nb_msg (sys_buf s) = bc_length (sys_buf s))"

lemma cond_signal_one: "cond_signal 1 sig f f' \<Longrightarrow> f' 0 = Sleeping \<longleftrightarrow> f 0 = Sleeping \<and> \<not> sig"
  by (auto simp: cond_signal_def split: if_splits)

lemma bcb_wake_step:
  assumes "bcb_step 1 1 s s'" "bcb_ok (sys_buf s)" "bcb_wake_inv s"
  shows "bcb_wake_inv s'"
  using assms
proof (induction rule: bcb_step.induct)
  case (write_now w s m b sig rd)
  then show ?case
    using bcb_write_SomeD [OF write_now(5,3)] cond_signal_one [OF write_now(4)] by (auto simp: bcb_wake_inv_def)
next
  case (read_now r s m b sig wr)
  then show ?case
    using bcb_read_SomeD [OF read_now(5,3)] cond_signal_one [OF read_now(4)] by (auto simp: bcb_wake_inv_def)
qed (auto simp: bcb_wake_inv_def bcb_read_None bcb_write_None)

lemma bcb_reach_wake:
  assumes "bcb_reach 1 1 n s" "0 < n"
  shows "bcb_wake_inv s"
  using assms(1)
proof (induction rule: bcb_reach.induct)
  case start
  then show ?case by (simp add: bcb_wake_inv_def bcb_init_def)
next
  case (step s s')
  moreover have "bcb_ok (sys_buf s)"
    using bcb_reach_order [OF step(1) assms(2)] by (simp add: bcb_order_inv_def)
  ultimately show ?case by (blast intro: bcb_wake_step)
qed

subsection \<open>Properties\<close>

text \<open>
  C34: messages leave a message queue in the order in which they were appended; no append or
  removal follows a dangling pointer, and the emptied queue says so.
\<close>

theorem mes_queue_fifo:
  "\<exists>q1 q2. for_loop (mq_append msize) xs mq_new = Inr q1 \<and>
     drain (mq_remove msize) (length xs) q1 = Inr (xs, q2) \<and> mq_remove msize q2 = Inr (None, q2)"
  by (rule mq.enq_drain) (simp_all add: mq_new_ok)

text \<open>
  C24: with any number of reader and writer threads the circular buffer never leaves its bounds, and
  the messages read so far followed by the messages in the buffer are the messages written, in
  order.
\<close>

theorem ring_order:
  assumes "bcb_reach nr nw n s" "0 < n"
  shows "bcb_ok (sys_buf s) \<and> sys_in s = sys_out s @ bcb_items (sys_buf s)"
  using bcb_reach_order [OF assms] by (simp add: bcb_order_inv_def)

text \<open>One write into the fresh buffer, for the examples.\<close>

lemma bcb_reach_example:
  "bcb_reach 1 1 1 \<lparr>sys_buf = \<lparr>cb = [Some (5 :: nat)], bc_length = 1, read_idx = 0, write_idx = 0, nb_msg = 1\<rparr>,
     sys_rd = (\<lambda>_. Running), sys_wr = (\<lambda>_. Running), sys_in = [5], sys_out = []\<rparr>"
proof -
  let ?s = "bcb_init 1 :: nat bcb_sys"
  have "bcb_write_msg (sys_buf ?s) 5 =
      Inr (Some (\<lparr>cb = [Some 5], bc_length = 1, read_idx = 0, write_idx = 0, nb_msg = 1\<rparr>, True))"
    by (simp add: bcb_init_def bcb_new_def bcb_write_msg_def)
  from write_now [OF _ _ this, of 0 1 1 "sys_rd ?s"] bcb_reach.start
  have "bcb_reach 1 1 1 (?s\<lparr>sys_buf := \<lparr>cb = [Some 5], bc_length = 1, read_idx = 0, write_idx = 0, nb_msg = 1\<rparr>,
      sys_rd := sys_rd ?s, sys_in := sys_in ?s @ [5]\<rparr>)"
    by (intro bcb_reach.step [OF bcb_reach.start]) (simp add: bcb_init_def cond_signal_def)
  then show ?thesis by (simp add: bcb_init_def)
qed

theorem ring_order_witness:
  "bcb_ok \<lparr>cb = [Some (5 :: nat)], bc_length = 1, read_idx = 0, write_idx = 0, nb_msg = 1\<rparr>"
  using ring_order [OF bcb_reach_example] by simp

text \<open>
  C25: with one reader and one writer no wakeup is lost: in every reachable state the reader sleeps
  only when the buffer is empty and the writer only when it is full, so never both.
\<close>

theorem ring_no_lost_wakeup:
  assumes "bcb_reach 1 1 n s" "0 < n"
  shows "(sys_rd s 0 = Sleeping \<longrightarrow> nb_msg (sys_buf s) = 0) \<and>
     (sys_wr s 0 = Sleeping \<longrightarrow> nb_msg (sys_buf s) = bc_length (sys_buf s)) \<and>
     \<not> (sys_rd s 0 = Sleeping \<and> sys_wr s 0 = Sleeping)"
  using bcb_reach_wake [OF assms] bcb_reach_order [OF assms]
  by (auto simp: bcb_wake_inv_def bcb_order_inv_def bcb_ok_def)

theorem ring_no_lost_wakeup_witness:
  "\<exists>s :: nat bcb_sys. bcb_reach 1 1 1 s \<and> nb_msg (sys_buf s) = 1 \<and> sys_rd s 0 \<noteq> Sleeping"
  using ring_no_lost_wakeup [OF bcb_reach_example] bcb_reach_example
  by (intro exI conjI) (assumption, simp_all)

text \<open>
  With two readers a wakeup can be lost: both sleep, two messages are written before the first one
  wakes, and only the first write signals. One reader then sleeps although a message is there.
\<close>

lemma ring_lost_wakeup:
  "\<exists>s :: nat bcb_sys. bcb_reach 2 1 2 s \<and> sys_rd s 1 = Sleeping \<and> nb_msg (sys_buf s) = 1"
proof -
  define b0 :: "nat bcb" where "b0 = bcb_new 2"
  define b1 where "b1 = \<lparr>cb = [Some (7 :: nat), None], bc_length = 2, read_idx = 0, write_idx = 1, nb_msg = 1\<rparr>"
  define b2 where "b2 = \<lparr>cb = [Some (7 :: nat), Some 8], bc_length = 2, read_idx = 0, write_idx = 0, nb_msg = 2\<rparr>"
  define b3 where "b3 = \<lparr>cb = [None, Some (8 :: nat)], bc_length = 2, read_idx = 1, write_idx = 0, nb_msg = 1\<rparr>"
  define st where "st b rd xs ys = \<lparr>sys_buf = b, sys_rd = rd, sys_wr = (\<lambda>_. Running), sys_in = xs, sys_out = ys\<rparr>"
    for b :: "nat bcb" and rd xs ys
  define f0 :: "nat \<Rightarrow> thread" where "f0 = (\<lambda>_. Running)"
  have b: "bcb_read_msg b0 = Inr None" "bcb_write_msg b0 7 = Inr (Some (b1, True))"
    "bcb_write_msg b1 8 = Inr (Some (b2, False))" "bcb_read_msg b2 = Inr (Some (Some 7, b3, True))"
    by (simp_all add: b0_def b1_def b2_def b3_def bcb_new_def bcb_read_msg_def bcb_write_msg_def numeral_2_eq_2)
  have "bcb_reach 2 1 2 (st b0 f0 [] [])"
    using bcb_reach.start [of 2 1 2] by (simp add: st_def b0_def f0_def bcb_init_def)
  from bcb_reach.step [OF this read_wait [of 0]] b(1)
  have "bcb_reach 2 1 2 (st b0 (f0(0 := Sleeping)) [] [])" by (simp add: st_def f0_def)
  from bcb_reach.step [OF this read_wait [of 1]] b(1)
  have "bcb_reach 2 1 2 (st b0 (f0(0 := Sleeping, 1 := Sleeping)) [] [])" by (simp add: st_def f0_def)
  moreover have "cond_signal 2 True (f0(0 := Sleeping, 1 := Sleeping)) (f0(1 := Sleeping))"
    unfolding cond_signal_def f0_def by (auto simp: fun_eq_iff intro!: exI [of _ 0])
  ultimately have "bcb_reach 2 1 2 (st b1 (f0(1 := Sleeping)) [7] [])"
    using bcb_reach.step [OF _ write_now [of 0 1 "st b0 (f0(0 := Sleeping, 1 := Sleeping)) [] []" 7 b1 True 2
        "f0(1 := Sleeping)"], of 2] b(2) by (simp add: st_def)
  from bcb_reach.step [OF this write_now [of 0 _ _ 8 b2 False _ "f0(1 := Sleeping)"]] b(3)
  have "bcb_reach 2 1 2 (st b2 (f0(1 := Sleeping)) [7, 8] [])"
    by (simp add: st_def f0_def cond_signal_def)
  from bcb_reach.step [OF this read_now [of 0 _ _ 7 b3 True _ "\<lambda>_. Running"]] b(4)
  have "bcb_reach 2 1 2 (st b3 (f0(1 := Sleeping)) [7, 8] [7])"
    by (simp add: st_def f0_def cond_signal_def)
  then show ?thesis
    by (intro exI [of _ "st b3 (f0(1 := Sleeping)) [7, 8] [7]"]) (simp add: st_def b3_def)
qed

end
