(* ===== verification/Registry.thy ===== *)
theory Registry
  imports Prelude
begin

section \<open>Protocol registries: \<^verbatim>\<open>src/common/Switcher.h\<close> and \<^verbatim>\<open>protocols/common/RobustMonitor.cc\<close>\<close>

text \<open>
  The protocols compiled into a replica register a function each with the \<open>Switcher\<close> (which turns a
  protocol on or off) and with the \<open>RobustMonitor\<close> (which hands over received messages). Both keep
  a singly linked list on the heap with the same routines; they are modelled once, on an explicit
  store of list elements, and used by both classes. The loops over the list may not end, so they
  are \<open>partial_function (option)\<close>: \<open>None\<close> means that the call does not return.
\<close>

datatype protocols_e = quorum | chain | pbft | zlight | ring | aardvark

record 'f le =
  le_protocol :: protocols_e
  le_func :: 'f
  le_next :: "nat option"

record 'f registry =
  rg_store :: "nat \<rightharpoonup> 'f le"
  rg_fresh :: nat
  rg_list :: "nat option"

text \<open>Sequencing of calls that may fail or not return.\<close>

definition obind :: "'a result option \<Rightarrow> ('a \<Rightarrow> 'b result option) \<Rightarrow> 'b result option" where
  "obind m k = (case m of None \<Rightarrow> None | Some (Inl e) \<Rightarrow> Some (Inl e) | Some (Inr x) \<Rightarrow> k x)"

lemma obind_simps [simp]:
  "obind None k = None" "obind (Some (Inl e)) k = Some (Inl e)" "obind (Some (Inr x)) k = k x"
  by (simp_all add: obind_def)

definition deref :: "(nat \<rightharpoonup> 'f le) \<Rightarrow> nat option \<Rightarrow> 'f le result" where
  "deref st p = (case p of None \<Rightarrow> Inl Null_deref
     | Some a \<Rightarrow> (case st a of None \<Rightarrow> Inl Out_of_bounds | Some n \<Rightarrow> Inr n))"

subsection \<open>The list routines\<close>

definition rg_new :: "'f registry" where
  "rg_new = \<lparr>rg_store = Map.empty, rg_fresh = 0, rg_list = None\<rparr>"

partial_function (option) le_find :: "(nat \<rightharpoonup> 'f le) \<Rightarrow> nat option \<Rightarrow> protocols_e \<Rightarrow> nat option result option" where
  "le_find st ptr p =
     (case ptr of
        None \<Rightarrow> Some (Inr None)
      | Some a \<Rightarrow>
          (case st a of
             None \<Rightarrow> Some (Inl Out_of_bounds)
           | Some n \<Rightarrow> if le_protocol n = p then Some (Inr (Some a)) else le_find st (le_next n) p))"

definition rg_register :: "'f registry \<Rightarrow> protocols_e \<Rightarrow> 'f \<Rightarrow> 'f registry result option" where
  "rg_register s p f =
     obind (le_find (rg_store s) (rg_list s) p)
       (\<lambda>found. let (a, s1) = (case found of None \<Rightarrow> (rg_fresh s, s\<lparr>rg_fresh := Suc (rg_fresh s)\<rparr>)
                                         | Some a \<Rightarrow> (a, s))
                in Some (Inr (s1\<lparr>rg_store := (rg_store s1)(a \<mapsto> \<lparr>le_protocol = p, le_func = f, le_next = rg_list s1\<rparr>),
                                 rg_list := Some a\<rparr>)))"

text \<open>The loop \<open>while (ptr2->next && ptr2->next != ptr) ptr2 = ptr2->next\<close>.\<close>

partial_function (option) le_before :: "(nat \<rightharpoonup> 'f le) \<Rightarrow> nat option \<Rightarrow> nat \<Rightarrow> nat option result option" where
  "le_before st ptr2 a =
     (case deref st ptr2 of
        Inl e \<Rightarrow> Some (Inl e)
      | Inr n \<Rightarrow> if le_next n \<noteq> None \<and> le_next n \<noteq> Some a then le_before st (le_next n) a
                 else Some (Inr ptr2))"

definition rg_deregister :: "'f registry \<Rightarrow> protocols_e \<Rightarrow> 'f registry result option" where
  "rg_deregister s p =
     obind (le_find (rg_store s) (rg_list s) p)
       (\<lambda>found. case found of
          None \<Rightarrow> Some (Inr s)
        | Some a \<Rightarrow>
            obind (Some (deref (rg_store s) (Some a))) (\<lambda>n.
              if rg_list s = Some a
              then Some (Inr (s\<lparr>rg_list := le_next n, rg_store := (rg_store s)(a := None)\<rparr>))
              else obind (le_before (rg_store s) (rg_list s) a) (\<lambda>ptr2.
                   obind (Some (deref (rg_store s) ptr2)) (\<lambda>n2.
                     Some (Inr (s\<lparr>rg_store := (rg_store s)(the ptr2 \<mapsto> n2\<lparr>le_next := le_next n\<rparr>, a := None)\<rparr>))))))"

text \<open>
  The destructors: \<open>delete ptr; ptr = list->next\<close> where \<open>list\<close> is still the element just deleted.
\<close>

definition rg_destroy :: "'f registry \<Rightarrow> 'f registry result" where
  "rg_destroy s =
     (case rg_list s of
        None \<Rightarrow> Inr s
      | Some a \<Rightarrow>
          rbind (deref (rg_store s) (Some a))
            (\<lambda>_. let st = (rg_store s)(a := None)
                 in rbind (deref st (Some a)) (\<lambda>n. Inr (s\<lparr>rg_store := st, rg_list := le_next n\<rparr>))))"

subsection \<open>\<open>Switcher\<close>\<close>

type_synonym switcher = "nat registry"

definition sw_find :: "switcher \<Rightarrow> protocols_e \<Rightarrow> nat option result option" where
  "sw_find s p = le_find (rg_store s) (rg_list s) p"

definition register_switcher :: "switcher \<Rightarrow> protocols_e \<Rightarrow> nat \<Rightarrow> switcher result option" where
  "register_switcher s p f = rg_register s p f"

definition deregister_switcher :: "switcher \<Rightarrow> protocols_e \<Rightarrow> switcher result option" where
  "deregister_switcher s p = rg_deregister s p"

text \<open>\<open>switch_state\<close> returns the call \<open>func(state)\<close> it makes, if any.\<close>

definition switch_state :: "switcher \<Rightarrow> protocols_e \<Rightarrow> bool \<Rightarrow> (nat \<times> bool) option result option" where
  "switch_state s p st =
     obind (sw_find s p) (\<lambda>ptr. case ptr of None \<Rightarrow> Some (Inr None)
       | Some a \<Rightarrow> obind (Some (deref (rg_store s) (Some a))) (\<lambda>n. Some (Inr (Some (le_func n, st)))))"

definition switcher_delete :: "switcher \<Rightarrow> switcher result" where
  "switcher_delete s = rg_destroy s"

subsection \<open>Well-formed lists\<close>

fun le_path :: "(nat \<rightharpoonup> 'f le) \<Rightarrow> nat option \<Rightarrow> (nat \<times> protocols_e \<times> 'f) list \<Rightarrow> bool" where
  "le_path st p [] \<longleftrightarrow> p = None"
| "le_path st p ((a, pr, f) # xs) \<longleftrightarrow> p = Some a \<and>
     (\<exists>nx. st a = Some \<lparr>le_protocol = pr, le_func = f, le_next = nx\<rparr> \<and> le_path st nx xs)"

definition rg_repr :: "'f registry \<Rightarrow> (nat \<times> protocols_e \<times> 'f) list \<Rightarrow> bool" where
  "rg_repr s xs \<longleftrightarrow> le_path (rg_store s) (rg_list s) xs \<and> distinct (map fst xs) \<and>
     distinct (map (fst \<circ> snd) xs) \<and> (\<forall>a\<in>set (map fst xs). a < rg_fresh s)"

text \<open>The registrations of a registry, as a map from protocols to functions.\<close>

definition regs :: "(nat \<times> protocols_e \<times> 'f) list \<Rightarrow> protocols_e \<rightharpoonup> 'f" where
  "regs xs = map_of (map snd xs)"

fun le_lookup :: "(nat \<times> protocols_e \<times> 'f) list \<Rightarrow> protocols_e \<Rightarrow> (nat \<times> 'f) option" where
  "le_lookup [] p = None"
| "le_lookup ((a, pr, f) # xs) p = (if pr = p then Some (a, f) else le_lookup xs p)"

lemma le_find_path: "le_path st ptr xs \<Longrightarrow> le_find st ptr p = Some (Inr (map_option fst (le_lookup xs p)))"
  by (induction xs arbitrary: ptr) (auto simp: le_find.simps)

lemma regs_lookup: "regs xs p = map_option snd (le_lookup xs p)"
  by (induction xs) (auto simp: regs_def)

lemma le_path_update: "a \<notin> fst ` set xs \<Longrightarrow> le_path (st(a := x)) p xs = le_path st p xs"
  by (induction xs arbitrary: p) auto

lemma le_lookup_node:
  "le_path st ptr xs \<Longrightarrow> le_lookup xs p = Some (a, f) \<Longrightarrow> \<exists>nx. st a = Some \<lparr>le_protocol = p, le_func = f, le_next = nx\<rparr>"
  by (induction xs arbitrary: ptr) (auto split: if_splits)

lemma rg_register_new:
  assumes r: "rg_repr s xs" and p: "regs xs p = None"
  shows "\<exists>s'. rg_register s p f = Some (Inr s') \<and> rg_repr s' ((rg_fresh s, p, f) # xs)"
proof -
  have l: "le_lookup xs p = None" using p by (simp add: regs_lookup)
  have "p \<notin> set (map (fst \<circ> snd) xs)"
    using p by (auto simp: regs_def map_of_eq_None_iff image_comp)
  moreover have "rg_fresh s \<notin> fst ` set xs" using r by (auto simp: rg_repr_def)
  moreover have "a < Suc (rg_fresh s)" if "a \<in> set (map fst xs)" for a
    using r that by (auto simp: rg_repr_def less_SucI)
  ultimately show ?thesis
    using r l by (auto simp: rg_register_def le_find_path rg_repr_def le_path_update)
qed

lemma switch_state_eq:
  assumes "rg_repr s xs"
  shows "switch_state s p st = Some (Inr (map_option (\<lambda>f. (f, st)) (regs xs p)))"
proof -
  have pth: "le_path (rg_store s) (rg_list s) xs" using assms by (simp add: rg_repr_def)
  show ?thesis
  proof (cases "le_lookup xs p")
    case None
    then show ?thesis by (simp add: switch_state_def sw_find_def le_find_path [OF pth] regs_lookup)
  next
    case (Some af)
    obtain a f where af: "af = (a, f)" by (cases af)
    from le_lookup_node [OF pth] Some af
    obtain nx where "rg_store s a = Some \<lparr>le_protocol = p, le_func = f, le_next = nx\<rparr>" by blast
    then show ?thesis
      using Some af by (simp add: switch_state_def sw_find_def le_find_path [OF pth] regs_lookup deref_def)
  qed
qed

lemma le_lookup_split:
  "le_lookup xs p = Some (a, f) \<Longrightarrow> \<exists>ys zs. xs = ys @ (a, p, f) # zs \<and> p \<notin> (fst \<circ> snd) ` set ys"
proof (induction xs)
  case Nil
  then show ?case by simp
next
  case (Cons x xs)
  obtain b q g where x: "x = (b, q, g)" by (cases x)
  show ?case
  proof (cases "q = p")
    case True
    then show ?thesis using Cons x by (intro exI [of _ "[]"] exI [of _ xs]) simp
  next
    case False
    then obtain ys zs where "xs = ys @ (a, p, f) # zs \<and> p \<notin> (fst \<circ> snd) ` set ys"
      using Cons x by auto
    then show ?thesis
      using False x by (intro exI [of _ "x # ys"] exI [of _ zs]) auto
  qed
qed

lemma le_path_nodes: "le_path st ptr xs \<Longrightarrow> (a, p, f) \<in> set xs \<Longrightarrow> \<exists>nx. st a = Some \<lparr>le_protocol = p, le_func = f, le_next = nx\<rparr>"
  by (induction xs arbitrary: ptr) auto

lemma le_before_eq:
  assumes "le_path st ptr (ys @ (a, p, f) # zs)" "ys \<noteq> []" "a \<notin> fst ` set ys"
  shows "le_before st ptr a = Some (Inr (Some (fst (last ys))))"
  using assms
proof (induction ys arbitrary: ptr)
  case Nil
  then show ?case by simp
next
  case (Cons y ys)
  obtain b q g where y: "y = (b, q, g)" by (cases y)
  obtain nx where nx: "st b = Some \<lparr>le_protocol = q, le_func = g, le_next = nx\<rparr>" "ptr = Some b"
    "le_path st nx (ys @ (a, p, f) # zs)"
    using Cons.prems(1) y by auto
  show ?case
  proof (cases "ys = []")
    case True
    then show ?thesis using nx y by (auto simp: le_before.simps deref_def)
  next
    case False
    then have "nx \<noteq> None" "nx \<noteq> Some a"
      using nx(3) Cons.prems(3) by (cases ys; force)+
    then show ?thesis
      using Cons.IH [OF nx(3) False] Cons.prems(3) nx y False
      by (subst le_before.simps) (simp add: deref_def)
  qed
qed

lemma le_path_unlink:
  assumes "le_path st ptr (ys @ (a, p, f) # zs)" "ys \<noteq> []" "distinct (map fst (ys @ (a, p, f) # zs))"
    "st a = Some n" "st (fst (last ys)) = Some n2"
  shows "le_path (st(fst (last ys) \<mapsto> n2\<lparr>le_next := le_next n\<rparr>, a := None)) ptr (ys @ zs)"
  using assms
proof (induction ys arbitrary: ptr)
  case Nil
  then show ?case by simp
next
  case (Cons y ys)
  obtain b q g where y: "y = (b, q, g)" by (cases y)
  obtain nx where nx: "st b = Some \<lparr>le_protocol = q, le_func = g, le_next = nx\<rparr>" "ptr = Some b"
    "le_path st nx (ys @ (a, p, f) # zs)"
    using Cons.prems(1) y by auto
  have ab: "a \<noteq> b" using Cons.prems(3) y by auto
  show ?case
  proof (cases "ys = []")
    case True
    have "le_path st (le_next n) zs" using nx(3) True Cons.prems(4) by auto
    moreover have "a \<notin> fst ` set zs" "b \<notin> fst ` set zs" using Cons.prems(3) y True by auto
    ultimately have "le_path (st(b \<mapsto> n2\<lparr>le_next := le_next n\<rparr>, a := None)) (le_next n) zs"
      by (simp add: le_path_update del: fun_upd_apply)
    then show ?thesis
      using True y nx ab Cons.prems(5) by (auto simp: fun_upd_def)
  next
    case False
    then have "fst (last ys) \<in> fst ` set ys" by simp
    then have "b \<noteq> fst (last ys)" using Cons.prems(3) y by auto
    moreover have "le_path (st(fst (last ys) \<mapsto> n2\<lparr>le_next := le_next n\<rparr>, a := None)) nx (ys @ zs)"
      using Cons.IH [OF nx(3) False] Cons.prems(3-5) False by (simp del: fun_upd_apply)
    ultimately show ?thesis
      using y nx ab False by (auto simp: fun_upd_def)
  qed
qed

lemma rg_deregister_eq:
  assumes r: "rg_repr s xs"
  shows "\<exists>s' ys. rg_deregister s p = Some (Inr s') \<and> rg_repr s' ys \<and> regs ys = (regs xs)(p := None)"
proof (cases "le_lookup xs p")
  case None
  then have "regs xs p = None" by (simp add: regs_lookup)
  moreover have "rg_deregister s p = Some (Inr s)"
    using r None le_find_path [of "rg_store s" "rg_list s" xs p]
    by (simp add: rg_deregister_def rg_repr_def)
  ultimately show ?thesis using r by (metis fun_upd_triv)
next
  case (Some af)
  obtain a f where "af = (a, f)" by (cases af)
  with le_lookup_split Some obtain ys zs where xs: "xs = ys @ (a, p, f) # zs" by metis
  have pth: "le_path (rg_store s) (rg_list s) (ys @ (a, p, f) # zs)" and d: "distinct (map fst xs)"
    and dp: "distinct (map (fst \<circ> snd) xs)"
    using r xs by (auto simp: rg_repr_def)
  obtain nx where n: "rg_store s a = Some \<lparr>le_protocol = p, le_func = f, le_next = nx\<rparr>"
    using le_path_nodes [OF pth, of a p f] by auto
  have fnd: "le_find (rg_store s) (rg_list s) p = Some (Inr (Some a))"
    using le_find_path [OF pth, of p] Some \<open>af = (a, f)\<close> xs by simp
  have rg: "regs (ys @ zs) = (regs xs)(p := None)"
  proof -
    have "p \<notin> fst ` set (map snd ys)" "p \<notin> fst ` set (map snd zs)"
      using dp xs by (auto simp: image_iff)
    then have "map_of (map snd ys) p = None" "map_of (map snd zs) p = None"
      by (simp_all add: map_of_eq_None_iff)
    then show ?thesis
      by (auto simp: regs_def xs map_add_def fun_eq_iff split: option.split)
  qed
  show ?thesis
  proof (cases "ys = []")
    case True
    define s' where "s' = s\<lparr>rg_list := nx, rg_store := (rg_store s)(a := None)\<rparr>"
    have "le_path (rg_store s) nx zs" using pth n True by auto
    then have "rg_repr s' (ys @ zs)"
      using r xs True d by (auto simp: s'_def rg_repr_def le_path_update)
    moreover have "rg_deregister s p = Some (Inr s')"
      using pth n True unfolding rg_deregister_def fnd by (simp add: deref_def s'_def)
    ultimately show ?thesis using rg by blast
  next
    case False
    define b where "b = fst (last ys)"
    have bin: "b \<in> fst ` set ys" using False by (simp add: b_def)
    then have "a \<noteq> b" "a \<notin> fst ` set ys" using d xs by auto
    obtain n2 where n2: "rg_store s b = Some n2"
      using bin le_path_nodes [OF pth] by (auto simp: image_iff) (metis UnCI)
    define s' where "s' = s\<lparr>rg_store := (rg_store s)(b \<mapsto> n2\<lparr>le_next := nx\<rparr>, a := None)\<rparr>"
    have "rg_repr s' (ys @ zs)"
      using le_path_unlink [OF pth False _ n, of n2] d xs n2 r
      by (auto simp: s'_def rg_repr_def b_def simp del: fun_upd_apply)
    moreover have "rg_list s \<noteq> Some a"
      using pth False \<open>a \<notin> fst ` set ys\<close> by (cases ys) auto
    then have "rg_deregister s p = Some (Inr s')"
      using n n2 le_before_eq [OF pth False \<open>a \<notin> fst ` set ys\<close>]
      unfolding rg_deregister_def fnd by (simp add: deref_def s'_def b_def)
    ultimately show ?thesis using rg by blast
  qed
qed

subsection \<open>Registering a protocol twice\<close>

text \<open>
  Nodes that only lead to each other and do not carry the protocol: the search never returns.
\<close>

lemma le_find_diverges:
  assumes closed: "\<And>a. a \<in> S \<Longrightarrow> \<exists>n b. st a = Some n \<and> le_protocol n \<noteq> p \<and> le_next n = Some b \<and> b \<in> S"
    and "a \<in> S"
  shows "le_find st (Some a) p = None"
proof (rule ccontr)
  assume "le_find st (Some a) p \<noteq> None"
  then obtain r where "le_find st (Some a) p = Some r" by blast
  have "\<not> (st = st \<and> p = p \<and> (\<exists>a'\<in>S. Some a = Some a'))"
  proof (rule le_find.raw_induct [where P = "\<lambda>st' ptr p' r. \<not> (st' = st \<and> p' = p \<and> (\<exists>a\<in>S. ptr = Some a))"])
    fix le_find' :: "(nat \<rightharpoonup> 'a le) \<Rightarrow> nat option \<Rightarrow> protocols_e \<Rightarrow> nat option result option"
      and st' ptr p' r
    assume IH: "\<And>st' ptr p' r. le_find' st' ptr p' = Some r \<Longrightarrow>
        \<not> (st' = st \<and> p' = p \<and> (\<exists>a\<in>S. ptr = Some a))"
      and eq: "(case ptr of None \<Rightarrow> Some (Inr None)
        | Some a \<Rightarrow> (case st' a of None \<Rightarrow> Some (Inl Out_of_bounds)
            | Some n \<Rightarrow> if le_protocol n = p' then Some (Inr (Some a)) else le_find' st' (le_next n) p')) = Some r"
    show "\<not> (st' = st \<and> p' = p \<and> (\<exists>a\<in>S. ptr = Some a))"
    proof
      assume "st' = st \<and> p' = p \<and> (\<exists>a\<in>S. ptr = Some a)"
      then obtain a where "st' = st" "p' = p" "a \<in> S" "ptr = Some a" by blast
      with closed [OF \<open>a \<in> S\<close>] eq IH show False by fastforce
    qed
  next
    show "le_find st (Some a) p = Some r" by fact
  qed
  with assms(2) show False by blast
qed

text \<open>
  Registering a protocol that is registered already moves its element to the front without taking
  it out of its place: the list becomes a cycle.
\<close>

lemma reregister_cycle:
  assumes r: "rg_repr s xs" and p: "regs xs p \<noteq> None" and q: "regs xs q = None"
  shows "\<exists>s'. rg_register s p f = Some (Inr s') \<and> le_find (rg_store s') (rg_list s') q = None"
proof -
  obtain a f0 where l: "le_lookup xs p = Some (a, f0)"
    using p by (cases "le_lookup xs p") (auto simp: regs_lookup)
  from le_lookup_split [OF l] obtain ys zs where xs: "xs = ys @ (a, p, f0) # zs" by blast
  have pth: "le_path (rg_store s) (rg_list s) (ys @ (a, p, f0) # zs)" and d: "distinct (map fst xs)"
    using r unfolding rg_repr_def xs by blast+
  define st where "st = (rg_store s)(a \<mapsto> \<lparr>le_protocol = p, le_func = f, le_next = rg_list s\<rparr>)"
  have reg: "rg_register s p f = Some (Inr (s\<lparr>rg_store := st, rg_list := Some a\<rparr>))"
    using le_find_path [OF pth, of p] l xs by (simp add: rg_register_def st_def)
  let ?S = "insert a (fst ` set ys)"
  have hd: "\<exists>b\<in>?S. rg_list s = Some b"
    using pth by (cases ys) auto
  have walk: "le_path st' ptr (ys @ (a, p, f0) # zs) \<Longrightarrow> b \<in> fst ` set ys \<Longrightarrow>
      \<exists>n c. st' b = Some n \<and> le_protocol n \<in> (fst \<circ> snd) ` set ys \<and> le_next n = Some c \<and> c \<in> ?S" for st' ptr b
  proof (induction ys arbitrary: ptr)
    case Nil
    then show ?case by simp
  next
    case (Cons y ys)
    obtain e q' g where y: "y = (e, q', g)" by (cases y)
    obtain nx where nx: "st' e = Some \<lparr>le_protocol = q', le_func = g, le_next = nx\<rparr>"
      "le_path st' nx (ys @ (a, p, f0) # zs)" using Cons.prems(1) y by auto
    obtain c where c: "c \<in> insert a (fst ` set ys)" "nx = Some c" using nx(2) by (cases ys) auto
    show ?case
    proof (cases "b = e")
      case True
      then show ?thesis using nx(1) c y by (intro exI conjI) (simp, simp, simp, auto)
    next
      case False
      then have "b \<in> fst ` set ys" using Cons.prems(2) y by auto
      from Cons.IH [OF nx(2) this] show ?thesis
        by (elim exE conjE) (intro exI conjI; auto)
    qed
  qed
  have qn: "q \<noteq> p" "q \<notin> (fst \<circ> snd) ` set ys"
    using q xs by (auto simp: regs_def map_of_eq_None_iff image_iff)
  have "le_find st (Some a) q = None"
  proof (rule le_find_diverges [where S = ?S])
    fix b assume "b \<in> ?S"
    then show "\<exists>n c. st b = Some n \<and> le_protocol n \<noteq> q \<and> le_next n = Some c \<and> c \<in> ?S"
    proof
      assume "b = a"
      then show ?thesis using hd qn by (auto simp: st_def)
    next
      assume b: "b \<in> fst ` set ys"
      then have "b \<noteq> a" using d xs by auto
      then show ?thesis using walk [OF pth b] qn by (auto simp: st_def)
    qed
  qed simp
  then show ?thesis using reg by auto
qed

lemma destroy_nonempty: "rg_list s = Some a \<Longrightarrow> rg_store s a \<noteq> None \<Longrightarrow> rg_destroy s = Inl Out_of_bounds"
  by (auto simp: rg_destroy_def deref_def)

subsection \<open>The table of registrations\<close>

text \<open>
  What the users of a registry rely on: a table from protocols to functions. Every operation
  returns, as long as no protocol is registered twice.
\<close>

locale protocol_table =
  fixes ok :: "'s \<Rightarrow> bool" and tab :: "'s \<Rightarrow> protocols_e \<rightharpoonup> 'f"
    and add :: "'s \<Rightarrow> protocols_e \<Rightarrow> 'f \<Rightarrow> 's result option"
    and del :: "'s \<Rightarrow> protocols_e \<Rightarrow> 's result option"
  assumes add_tab: "ok s \<Longrightarrow> tab s p = None \<Longrightarrow>
      \<exists>s'. add s p f = Some (Inr s') \<and> ok s' \<and> tab s' = (tab s)(p \<mapsto> f)"
    and del_tab: "ok s \<Longrightarrow> \<exists>s'. del s p = Some (Inr s') \<and> ok s' \<and> tab s' = (tab s)(p := None)"
begin

lemma add_then_del:
  assumes "ok s" "tab s p = None"
  shows "\<exists>s1 s2. add s p f = Some (Inr s1) \<and> del s1 p = Some (Inr s2) \<and> ok s2 \<and> tab s2 = tab s"
  using add_tab [OF assms, of f] del_tab assms(2) by (metis fun_upd_triv fun_upd_upd)

lemma replace:
  assumes "ok s"
  shows "\<exists>s1 s2. del s p = Some (Inr s1) \<and> add s1 p f = Some (Inr s2) \<and> ok s2 \<and> tab s2 = (tab s)(p \<mapsto> f)"
proof -
  obtain s1 where s1: "del s p = Some (Inr s1)" "ok s1" "tab s1 = (tab s)(p := None)"
    using del_tab [OF assms] by blast
  then obtain s2 where "add s1 p f = Some (Inr s2)" "ok s2" "tab s2 = (tab s1)(p \<mapsto> f)"
    using add_tab [of s1 p f] by auto
  with s1 show ?thesis by auto
qed

end

definition rg_ok :: "'f registry \<Rightarrow> bool" where
  "rg_ok s \<longleftrightarrow> (\<exists>xs. rg_repr s xs)"

definition rg_tab :: "'f registry \<Rightarrow> protocols_e \<rightharpoonup> 'f" where
  "rg_tab s p = (case le_find (rg_store s) (rg_list s) p of
     Some (Inr (Some a)) \<Rightarrow> map_option le_func (rg_store s a) | _ \<Rightarrow> None)"

lemma rg_tab_repr:
  assumes "rg_repr s xs"
  shows "rg_tab s = regs xs"
proof
  fix p
  have pth: "le_path (rg_store s) (rg_list s) xs" using assms by (simp add: rg_repr_def)
  show "rg_tab s p = regs xs p"
  proof (cases "le_lookup xs p")
    case None
    then show ?thesis by (simp add: rg_tab_def le_find_path [OF pth] regs_lookup)
  next
    case (Some af)
    then obtain a f where af: "le_lookup xs p = Some (a, f)" by (cases af) simp
    from le_lookup_node [OF pth af] show ?thesis
      by (auto simp: rg_tab_def le_find_path [OF pth] regs_lookup af)
  qed
qed

lemma rg_ok_new [simp]: "rg_ok rg_new" "rg_tab rg_new = Map.empty"
proof -
  have r: "rg_repr rg_new []" by (simp add: rg_repr_def rg_new_def)
  then show "rg_ok rg_new" by (auto simp: rg_ok_def)
  show "rg_tab rg_new = Map.empty" using rg_tab_repr [OF r] by (simp add: regs_def)
qed

lemma regs_Cons: "regs ((a, p, f) # xs) = (regs xs)(p \<mapsto> f)"
  by (simp add: regs_def)

interpretation reg: protocol_table rg_ok rg_tab rg_register rg_deregister
proof unfold_locales
  fix s :: "'f registry" and p f
  assume "rg_ok s" and t: "rg_tab s p = None"
  then obtain xs where xs: "rg_repr s xs" by (auto simp: rg_ok_def)
  with t have "regs xs p = None" by (simp add: rg_tab_repr)
  from rg_register_new [OF xs this, of f]
  obtain s' where "rg_register s p f = Some (Inr s')" "rg_repr s' ((rg_fresh s, p, f) # xs)" by blast
  with xs show "\<exists>s'. rg_register s p f = Some (Inr s') \<and> rg_ok s' \<and> rg_tab s' = (rg_tab s)(p \<mapsto> f)"
    by (auto simp: rg_ok_def rg_tab_repr regs_Cons)
next
  fix s :: "'f registry" and p
  assume "rg_ok s"
  then obtain xs where xs: "rg_repr s xs" by (auto simp: rg_ok_def)
  from rg_deregister_eq [OF this, of p]
  show "\<exists>s'. rg_deregister s p = Some (Inr s') \<and> rg_ok s' \<and> rg_tab s' = (rg_tab s)(p := None)"
    using xs by (auto simp: rg_ok_def rg_tab_repr)
qed

lemma switch_state_tab: "rg_ok s \<Longrightarrow> switch_state s p st = Some (Inr (map_option (\<lambda>f. (f, st)) (rg_tab s p)))"
  by (auto simp: rg_ok_def rg_tab_repr switch_state_eq)

subsection \<open>Properties\<close>

text \<open>
  C35: taking a protocol out of the switcher and registering it again with a new function ends, and
  from then on \<open>switch_state\<close> calls that function for the protocol and the old ones for all others.
\<close>

theorem switcher_replace:
  assumes "rg_ok s"
  shows "\<exists>s1 s2. deregister_switcher s p = Some (Inr s1) \<and> register_switcher s1 p f = Some (Inr s2) \<and>
     rg_ok s2 \<and> switch_state s2 p b = Some (Inr (Some (f, b))) \<and>
     (\<forall>q. q = p \<or> switch_state s2 q b = switch_state s q b)"
  using reg.replace [OF assms, of p f] assms
  by (auto simp: deregister_switcher_def register_switcher_def switch_state_tab)

theorem switcher_replace_witness:
  "\<exists>s1 s2. deregister_switcher rg_new chain = Some (Inr s1) \<and> register_switcher s1 chain 7 = Some (Inr s2) \<and>
     switch_state s2 chain True = Some (Inr (Some (7, True)))"
  using switcher_replace [OF rg_ok_new(1), of chain 7 True] by blast

text \<open>
  C36: registering a protocol that is registered already breaks the list: afterwards a search for
  any protocol that is not registered never returns.
\<close>

theorem switcher_reregister_diverges:
  assumes "rg_ok s" "rg_tab s p = Some f0" "rg_tab s q = None"
  shows "\<exists>s'. register_switcher s p f = Some (Inr s') \<and> switch_state s' q b = None"
proof -
  obtain xs where xs: "rg_repr s xs" using assms(1) by (auto simp: rg_ok_def)
  then have "regs xs p \<noteq> None" "regs xs q = None" using assms by (simp_all add: rg_tab_repr)
  from reregister_cycle [OF xs this, of f] show ?thesis
    by (auto simp: register_switcher_def switch_state_def sw_find_def)
qed

theorem switcher_reregister_diverges_witness:
  "\<exists>s s'. register_switcher rg_new chain 5 = Some (Inr s) \<and> register_switcher s chain 2 = Some (Inr s') \<and>
     switch_state s' pbft True = None"
proof -
  obtain s where s: "rg_register (rg_new :: switcher) chain 5 = Some (Inr s)" "rg_ok s"
    "rg_tab s = (rg_tab rg_new)(chain \<mapsto> 5)"
    using reg.add_tab [of rg_new chain 5] by auto
  then show ?thesis
    using switcher_reregister_diverges [of s chain 5 pbft 2 True] by (auto simp: register_switcher_def)
qed

end
