(* ===== verification/Monitor.thy ===== *)
theory Monitor
  imports Complex_Main Registry
begin

section \<open>The robust monitor: \<^verbatim>\<open>protocols/common/RobustMonitor.h\<close> and \<^verbatim>\<open>RobustMonitor.cc\<close>\<close>

text \<open>
  The monitor of a replica: the message handlers of the protocols (a registry), the protocol in
  use, and the expectations, that is the observed against the required throughput. Throughputs are
  rationals instead of floats, so rounding is left out; a division by zero gives an infinity or a
  NaN, for which every comparison with \<open><\<close> is false, and is \<open>None\<close>. The clock is the time stamp
  counter, an argument of the operations that read it; \<open>mhz\<close> is \<open>RM_clock_mhz\<close>. The sockets of
  the constructor are left out.
\<close>

record monitor =
  mon_list :: "nat registry"
  mon_cur :: "nat option"
  mon_name :: protocols_e
  mon_num_replicas :: nat
  mon_id :: int
  obs_thr :: "rat option"
  req_thr :: rat
  nb_recv_rep :: nat
  last_switch_time :: u64
  in_grace_period :: bool
  nb_compute_calls :: nat
  last_client_req :: "int \<rightharpoonup> request_id"
  last_client_req_notif :: "int \<rightharpoonup> request_id"
  nb_client_rep_notif :: "int \<rightharpoonup> nat"
  total_nb_client_rep_notif :: nat

definition NOTIF_PERIOD :: nat where "NOTIF_PERIOD = 5"

definition GRACE_PERIOD :: nat where "GRACE_PERIOD = 5"

definition RM_req_throughput_init :: rat where "RM_req_throughput_init = 0"

text \<open>The division by a clock rate of 0 raises a signal that ends the process.\<close>

definition RM_diff_time :: "u64 \<Rightarrow> u64 \<Rightarrow> u64 \<Rightarrow> u64 result" where
  "RM_diff_time mhz t1 t2 = (if mhz = 0 then Inl Process_exit else Inr ((t1 - t2) div mhz))"

text \<open>The members the constructor sets, with \<open>max_faulty\<close> and \<open>id\<close> as read from the configuration.\<close>

definition mon_new :: "u64 \<Rightarrow> nat \<Rightarrow> int \<Rightarrow> monitor" where
  "mon_new now max_faulty node =
     \<lparr>mon_list = rg_new, mon_cur = None, mon_name = chain, mon_num_replicas = 3 * max_faulty + 1, mon_id = node,
      obs_thr = Some (RM_req_throughput_init * 10), req_thr = RM_req_throughput_init, nb_recv_rep = 0,
      last_switch_time = now, in_grace_period = True, nb_compute_calls = 0,
      last_client_req = Map.empty, last_client_req_notif = Map.empty, nb_client_rep_notif = Map.empty,
      total_nb_client_rep_notif = 0\<rparr>"

definition register_handle_msg_func :: "monitor \<Rightarrow> protocols_e \<Rightarrow> nat \<Rightarrow> monitor result option" where
  "register_handle_msg_func m p f = obind (rg_register (mon_list m) p f) (\<lambda>l. Some (Inr (m\<lparr>mon_list := l\<rparr>)))"

definition deregister_handle_msg_func :: "monitor \<Rightarrow> protocols_e \<Rightarrow> monitor result option" where
  "deregister_handle_msg_func m p = obind (rg_deregister (mon_list m) p) (\<lambda>l. Some (Inr (m\<lparr>mon_list := l\<rparr>)))"

definition mon_find :: "monitor \<Rightarrow> protocols_e \<Rightarrow> nat option result option" where
  "mon_find m p = le_find (rg_store (mon_list m)) (rg_list (mon_list m)) p"

definition mon_delete :: "monitor \<Rightarrow> nat registry result" where
  "mon_delete m = rg_destroy (mon_list m)"

definition switch_protocol :: "u64 \<Rightarrow> monitor \<Rightarrow> protocols_e \<Rightarrow> monitor result option" where
  "switch_protocol now m p =
     obind (mon_find m p) (\<lambda>ptr. Some (Inr (m\<lparr>
        mon_cur := ptr, mon_name := p, nb_recv_rep := 0, last_switch_time := now, in_grace_period := True,
        last_client_req := Map.empty, last_client_req_notif := Map.empty, nb_client_rep_notif := Map.empty\<rparr>)))"

text \<open>\<open>send_message\<close> returns what it puts on the sockets: destination, protocol instance, bytes.\<close>

definition send_one :: "monitor \<Rightarrow> byte list \<Rightarrow> int \<Rightarrow> protocols_e \<Rightarrow> (int \<times> protocols_e \<times> byte list) list" where
  "send_one m msg dest p = (if dest = mon_id m then [] else [(dest, p, msg)])"

definition send_message :: "monitor \<Rightarrow> byte list \<Rightarrow> int \<Rightarrow> protocols_e \<Rightarrow> (int \<times> protocols_e \<times> byte list) list" where
  "send_message m msg dest p =
     (if dest = -1 then concat (map (\<lambda>i. send_one m msg (int i) p) [0..<mon_num_replicas m])
      else send_one m msg dest p)"

text \<open>
  One ready socket in the loop of \<open>run\<close>: the protocol read from it decides which handler runs on
  the socket. The result is the handler's identity, if there is one.
\<close>

definition mon_dispatch :: "monitor \<Rightarrow> protocols_e \<Rightarrow> nat option result option" where
  "mon_dispatch m instance_id =
     (if instance_id = mon_name m \<and> mon_cur m \<noteq> None
      then obind (Some (deref (rg_store (mon_list m)) (mon_cur m))) (\<lambda>n. Some (Inr (Some (le_func n))))
      else obind (mon_find m instance_id) (\<lambda>ptr. case ptr of None \<Rightarrow> Some (Inr None)
        | Some a \<Rightarrow> obind (Some (deref (rg_store (mon_list m)) (Some a))) (\<lambda>n. Some (Inr (Some (le_func n))))))"

subsection \<open>Expectations\<close>

definition add_client_req :: "monitor \<Rightarrow> int \<Rightarrow> request_id \<Rightarrow> monitor" where
  "add_client_req m cid rid =
     (case last_client_req m cid of
        None \<Rightarrow> m\<lparr>last_client_req := (last_client_req m)(cid \<mapsto> rid)\<rparr>
      | Some r \<Rightarrow> if rid > r then m\<lparr>last_client_req := (last_client_req m)(cid \<mapsto> rid)\<rparr> else m)"

definition add_client_req_notif :: "monitor \<Rightarrow> int \<Rightarrow> request_id \<Rightarrow> monitor" where
  "add_client_req_notif m cid rid =
     (case last_client_req_notif m cid of
        None \<Rightarrow> m\<lparr>last_client_req_notif := (last_client_req_notif m)(cid \<mapsto> rid)\<rparr>
      | Some r \<Rightarrow> if rid > r then m\<lparr>last_client_req_notif := (last_client_req_notif m)(cid \<mapsto> rid)\<rparr> else m)"

definition add_client_rep_notif_any :: "monitor \<Rightarrow> monitor" where
  "add_client_rep_notif_any m = m\<lparr>nb_recv_rep := nb_recv_rep m + 1\<rparr>"

definition add_client_rep_notif :: "monitor \<Rightarrow> int \<Rightarrow> monitor" where
  "add_client_rep_notif m cid =
     (let m1 = add_client_rep_notif_any m;
          m2 = m1\<lparr>total_nb_client_rep_notif := total_nb_client_rep_notif m1 + 1\<rparr>
      in m2\<lparr>nb_client_rep_notif := (nb_client_rep_notif m2)
             (cid \<mapsto> (case nb_client_rep_notif m2 cid of None \<Rightarrow> 1 | Some n \<Rightarrow> n + 1))\<rparr>)"

definition set_aardvark_req_throughput :: "monitor \<Rightarrow> rat \<Rightarrow> monitor" where
  "set_aardvark_req_throughput m thr = m\<lparr>req_thr := thr\<rparr>"

definition should_panic :: "monitor \<Rightarrow> bool" where
  "should_panic m \<longleftrightarrow> \<not> in_grace_period m \<and> (case obs_thr m of None \<Rightarrow> False | Some x \<Rightarrow> x < req_thr m)"

text \<open>\<open>now'\<close> is the second reading of the clock, at the end of the grace period.\<close>

definition compute_expectations :: "u64 \<Rightarrow> u64 \<Rightarrow> u64 \<Rightarrow> monitor \<Rightarrow> monitor result" where
  "compute_expectations mhz now now' m =
     (let m1 = m\<lparr>nb_compute_calls := nb_compute_calls m + 1\<rparr> in
      rbind (RM_diff_time mhz now (last_switch_time m1)) (\<lambda>d.
        let diff = unat d;
            m2 = m1\<lparr>obs_thr := (if diff = 0 then None
                     else Some (of_nat (nb_recv_rep m1 * NOTIF_PERIOD * 10 ^ 6) / of_nat diff))\<rparr>
        in if in_grace_period m2
           then if diff > GRACE_PERIOD * 10 ^ 6
                then Inr (m2\<lparr>in_grace_period := False, last_switch_time := now', nb_recv_rep := 0\<rparr>)
                else Inr m2
           else Inr m2))"

text \<open>Without \<^verbatim>\<open>CLIENT_SENDS_NOTIFICATION\<close> both return false at once.\<close>

definition not_enough_requests :: "monitor \<Rightarrow> bool" where
  "not_enough_requests m = False"

definition fairness_problem :: "monitor \<Rightarrow> bool" where
  "fairness_problem m = False"

lemmas mon_defs [model_defs] =
  register_handle_msg_func_def deregister_handle_msg_func_def mon_find_def switch_protocol_def
  send_one_def send_message_def mon_dispatch_def add_client_req_def add_client_req_notif_def
  add_client_rep_notif_any_def add_client_rep_notif_def should_panic_def compute_expectations_def

subsection \<open>Lemmas\<close>

lemma unat_div_le: "unat ((t1 - t2) div (mhz :: u64)) \<le> unat (t1 - t2)"
  by (simp add: unat_div_distrib)

text \<open>The largest request id a client has sent, as the monitor keeps it.\<close>

lemma add_client_req_max:
  "last_client_req (add_client_req m cid rid) =
     (last_client_req m)(cid \<mapsto> (case last_client_req m cid of None \<Rightarrow> rid | Some r \<Rightarrow> max r rid))"
  by (auto simp: add_client_req_def max_def fun_eq_iff split: option.split)

lemma add_client_reqs_Max:
  assumes "last_client_req m cid = None" "rids \<noteq> []"
  shows "last_client_req (foldl (\<lambda>m r. add_client_req m cid r) m rids) cid = Some (Max (set rids))"
  using assms(2)
proof (induction rids rule: rev_nonempty_induct)
  case (single r)
  then show ?case using assms(1) by (simp add: add_client_req_max)
next
  case (snoc r rids)
  then show ?case by (simp add: add_client_req_max max.commute)
qed

lemma send_message_all:
  "send_message m msg (-1) p =
     map (\<lambda>i. (int i, p, msg)) (filter (\<lambda>i. int i \<noteq> mon_id m) [0..<mon_num_replicas m])"
proof -
  have "concat (map (\<lambda>i. send_one m msg (int i) p) xs) =
        map (\<lambda>i. (int i, p, msg)) (filter (\<lambda>i. int i \<noteq> mon_id m) xs)" for xs
    by (induction xs) (auto simp: send_one_def)
  then show ?thesis by (simp add: send_message_def)
qed

lemma compute_keeps_grace:
  assumes "in_grace_period m" "mhz \<noteq> 0" "unat ((now - last_switch_time m) div mhz) \<le> GRACE_PERIOD * 10 ^ 6"
  shows "\<exists>m'. compute_expectations mhz now now' m = Inr m' \<and> in_grace_period m' \<and>
     last_switch_time m' = last_switch_time m \<and> nb_recv_rep m' = nb_recv_rep m"
  using assms by (simp add: compute_expectations_def RM_diff_time_def Let_def)

fun compute_all :: "u64 \<Rightarrow> (u64 \<times> u64) list \<Rightarrow> monitor \<Rightarrow> monitor result" where
  "compute_all mhz [] m = Inr m"
| "compute_all mhz ((t, t') # ts) m = rbind (compute_expectations mhz t t' m) (compute_all mhz ts)"

lemma compute_all_grace:
  assumes "in_grace_period m" "mhz \<noteq> 0"
    "\<forall>(t, t')\<in>set ts. unat ((t - last_switch_time m) div mhz) \<le> GRACE_PERIOD * 10 ^ 6"
  shows "\<exists>m'. compute_all mhz ts m = Inr m' \<and> in_grace_period m'"
  using assms
proof (induction ts arbitrary: m)
  case Nil
  then show ?case by simp
next
  case (Cons tt ts)
  obtain t t' where tt: "tt = (t, t')" by (cases tt)
  obtain m1 where m1: "compute_expectations mhz t t' m = Inr m1" "in_grace_period m1"
    "last_switch_time m1 = last_switch_time m"
    using compute_keeps_grace [of m mhz t t'] Cons.prems tt by auto
  show ?case
    using Cons.IH [OF m1(2) Cons.prems(2)] Cons.prems(3) m1 tt by auto
qed

subsection \<open>Properties\<close>

text \<open>
  C37: after a switch of protocol the monitor does not ask for another one during the grace period:
  however often the expectations are computed in the first five seconds (with the clock read as
  the code reads it, in unsigned 64-bit arithmetic), \<open>should_panic\<close> stays false.
\<close>

theorem monitor_grace_period:
  assumes "rg_ok (mon_list m)" "mhz \<noteq> 0" "\<forall>(t, t')\<in>set ts. unat ((t - t0) div mhz) \<le> GRACE_PERIOD * 10 ^ 6"
  shows "\<exists>m1 m2. switch_protocol t0 m p = Some (Inr m1) \<and> compute_all mhz ts m1 = Inr m2 \<and> \<not> should_panic m2"
proof -
  obtain xs where xs: "rg_repr (mon_list m) xs" using assms(1) by (auto simp: rg_ok_def)
  then obtain ptr where "mon_find m p = Some (Inr ptr)"
    using le_find_path by (fastforce simp: mon_find_def rg_repr_def)
  then obtain m1 where m1: "switch_protocol t0 m p = Some (Inr m1)" "in_grace_period m1"
    "last_switch_time m1 = t0"
    by (simp add: switch_protocol_def)
  with compute_all_grace [of m1 mhz ts] assms(2,3) show ?thesis
    by (auto simp: should_panic_def)
qed

theorem monitor_grace_period_witness:
  "\<exists>m1 m2. switch_protocol 0 (mon_new 0 1 2) zlight = Some (Inr m1) \<and>
     compute_all 1 [(5000000, 0), (4000000, 0)] m1 = Inr m2 \<and> \<not> should_panic m2"
  using monitor_grace_period [of "mon_new 0 1 2" 1 "[(5000000, 0), (4000000, 0)]" 0 zlight]
  by (simp add: mon_new_def GRACE_PERIOD_def)

text \<open>A broadcast of the monitor reaches every replica but the sender itself, each once.\<close>

theorem monitor_broadcast:
  "map fst (send_message m msg (-1) p) = filter (\<lambda>i. i \<noteq> mon_id m) (map int [0..<mon_num_replicas m])"
  by (simp add: send_message_all comp_def filter_map)

text \<open>
  A handler that is taken out while its protocol is the current one leaves \<open>current_protocol_LE\<close>
  dangling; the next message for that protocol follows the freed element.
\<close>

lemma dispatch_dangling:
  "\<exists>m1 m2 m3. register_handle_msg_func (mon_new 0 1 2) zlight 9 = Some (Inr m1) \<and>
     switch_protocol 0 m1 zlight = Some (Inr m2) \<and> deregister_handle_msg_func m2 zlight = Some (Inr m3) \<and>
     mon_dispatch m3 zlight = Some (Inl Out_of_bounds)"
  by (simp add: register_handle_msg_func_def deregister_handle_msg_func_def switch_protocol_def mon_find_def
      mon_dispatch_def mon_new_def rg_new_def rg_register_def rg_deregister_def le_find.simps deref_def)

end
