(* ===== verification/Timers.thy ===== *)
theory Timers
  imports Prelude
begin

section \<open>Interval timers: \<^verbatim>\<open>protocols/zlight/zl_ITimer.h\<close> and \<^verbatim>\<open>zl_ITimer.cc\<close>\<close>

text \<open>
  The timers of a process live in one static array together with \<open>min_deadline\<close>, a lower bound on
  the deadlines of the running timers that lets \<open>handle_timeouts\<close> return without a scan. A timer
  is named by its index. Every reading of the cycle counter is an argument. The handlers are code
  of the protocols: a handler is the list of timer operations it performs, with the clock it reads.
  The other protocols have the same class under their own prefixes.
\<close>

datatype timer_state = stopped | running | expired

record itimer =
  t_state :: timer_state
  t_handler :: nat
  t_deadline :: int
  t_period :: int

record timers =
  tm_list :: "itimer list"
  min_deadline :: int

definition Long_max :: int where
  "Long_max = 9223372036854775807"

definition timers_new :: timers where
  "timers_new = \<lparr>tm_list = [], min_deadline = Long_max\<rparr>"

text \<open>\<open>t*clock_mhz*1000\<close>: the clock rate is unsigned and 64 bits wide, so is the product.\<close>

definition timer_period :: "u64 \<Rightarrow> int \<Rightarrow> int" where
  "timer_period mhz t = sint (word_of_int t * mhz * 1000)"

text \<open>The deadline of a new timer is whatever memory holds, the argument \<open>junk\<close>.\<close>

definition timer_new :: "u64 \<Rightarrow> int \<Rightarrow> timers \<Rightarrow> int \<Rightarrow> nat \<Rightarrow> timers" where
  "timer_new mhz junk s t h =
     s\<lparr>tm_list := tm_list s @ [\<lparr>t_state = stopped, t_handler = h, t_deadline = junk, t_period = timer_period mhz t\<rparr>]\<rparr>"

text \<open>The destructor puts the last timer into the place of the deleted one.\<close>

definition timer_delete :: "timers \<Rightarrow> nat \<Rightarrow> timers" where
  "timer_delete s i =
     (if i < length (tm_list s)
      then s\<lparr>tm_list := butlast ((tm_list s)[i := last (tm_list s)])\<rparr> else s)"

definition set_timer :: "timers \<Rightarrow> nat \<Rightarrow> itimer \<Rightarrow> timers" where
  "set_timer s i t = s\<lparr>tm_list := (tm_list s)[i := t]\<rparr>"

definition timer_restart :: "int \<Rightarrow> timers \<Rightarrow> nat \<Rightarrow> timers" where
  "timer_restart rdtsc s i =
     (let t = tm_list s ! i
      in if t_state t \<noteq> stopped \<and> t_state t \<noteq> expired then s
         else let d = rdtsc + t_period t;
                  s1 = set_timer s i (t\<lparr>t_state := running, t_deadline := d\<rparr>)
              in if d < min_deadline s1 then s1\<lparr>min_deadline := d\<rparr> else s1)"

definition timer_start :: "int \<Rightarrow> timers \<Rightarrow> nat \<Rightarrow> timers" where
  "timer_start rdtsc s i = (if t_state (tm_list s ! i) \<noteq> stopped then s else timer_restart rdtsc s i)"

definition timer_adjust :: "u64 \<Rightarrow> timers \<Rightarrow> nat \<Rightarrow> int \<Rightarrow> timers" where
  "timer_adjust mhz s i t = set_timer s i ((tm_list s ! i)\<lparr>t_period := timer_period mhz t\<rparr>)"

definition timer_stop :: "timers \<Rightarrow> nat \<Rightarrow> timers" where
  "timer_stop s i =
     (if t_state (tm_list s ! i) \<noteq> running then s
      else set_timer s i ((tm_list s ! i)\<lparr>t_state := stopped\<rparr>))"

definition timer_restop :: "timers \<Rightarrow> nat \<Rightarrow> timers" where
  "timer_restop s i = set_timer s i ((tm_list s ! i)\<lparr>t_state := stopped\<rparr>)"

datatype timer_op = Start int nat | Restart int nat | Adjust u64 int nat | Stop nat | Restop nat

fun op_target :: "timer_op \<Rightarrow> nat" where
  "op_target (Start now i) = i"
| "op_target (Restart now i) = i"
| "op_target (Adjust mhz t i) = i"
| "op_target (Stop i) = i"
| "op_target (Restop i) = i"

fun timer_apply :: "timers \<Rightarrow> timer_op \<Rightarrow> timers" where
  "timer_apply s (Start now i) = (if i < length (tm_list s) then timer_start now s i else s)"
| "timer_apply s (Restart now i) = (if i < length (tm_list s) then timer_restart now s i else s)"
| "timer_apply s (Adjust mhz t i) = (if i < length (tm_list s) then timer_adjust mhz s i t else s)"
| "timer_apply s (Stop i) = (if i < length (tm_list s) then timer_stop s i else s)"
| "timer_apply s (Restop i) = (if i < length (tm_list s) then timer_restop s i else s)"

text \<open>The body of the loop of \<open>_handle_timeouts\<close>; the second component lists the timers fired.\<close>

definition timeout_step :: "(nat \<Rightarrow> timer_op list) \<Rightarrow> int \<Rightarrow> timers \<times> nat list \<Rightarrow> nat \<Rightarrow> timers \<times> nat list" where
  "timeout_step hs current sf i =
     (case sf of (s, fired) \<Rightarrow>
        let t = tm_list s ! i
        in if t_state t = running
           then if t_deadline t < current
                then (foldl timer_apply (set_timer s i (t\<lparr>t_state := expired\<rparr>)) (hs (t_handler t)), fired @ [i])
                else if t_deadline t < min_deadline s then (s\<lparr>min_deadline := t_deadline t\<rparr>, fired)
                else (s, fired)
           else (s, fired))"

definition handle_timeouts_all :: "(nat \<Rightarrow> timer_op list) \<Rightarrow> int \<Rightarrow> timers \<Rightarrow> timers \<times> nat list" where
  "handle_timeouts_all hs current s =
     foldl (timeout_step hs current) (s\<lparr>min_deadline := Long_max\<rparr>, []) [0..<length (tm_list s)]"

definition handle_timeouts :: "(nat \<Rightarrow> timer_op list) \<Rightarrow> int \<Rightarrow> timers \<Rightarrow> timers \<times> nat list" where
  "handle_timeouts hs current s =
     (if current < min_deadline s then (s, []) else handle_timeouts_all hs current s)"

lemmas timer_defs [model_defs] =
  set_timer_def timer_restart_def timer_start_def timer_adjust_def timer_stop_def timer_restop_def

subsection \<open>The lower bound on the deadlines\<close>

text \<open>\<open>deadlines_ok k s\<close>: the bound holds for the timers before \<open>k\<close>.\<close>

definition deadlines_ok :: "nat \<Rightarrow> timers \<Rightarrow> bool" where
  "deadlines_ok k s \<longleftrightarrow>
     (\<forall>i < k. i < length (tm_list s) \<longrightarrow> t_state (tm_list s ! i) = running \<longrightarrow>
        min_deadline s \<le> t_deadline (tm_list s ! i))"

definition timers_ok :: "timers \<Rightarrow> bool" where
  "timers_ok s \<longleftrightarrow> deadlines_ok (length (tm_list s)) s"

lemma length_timer_apply [simp]: "length (tm_list (timer_apply s op)) = length (tm_list s)"
  by (cases op) (simp_all add: timer_defs Let_def)

lemma length_timer_applys [simp]: "length (tm_list (foldl timer_apply s ops)) = length (tm_list s)"
  by (induction ops arbitrary: s) simp_all

lemma deadlines_ok_restart:
  assumes "deadlines_ok k s"
  shows "deadlines_ok k (timer_restart now s i)"
proof (cases "t_state (tm_list s ! i) = running")
  case True
  then show ?thesis using assms by (simp add: timer_restart_def Let_def)
next
  case False
  then have st: "t_state (tm_list s ! i) = stopped \<or> t_state (tm_list s ! i) = expired"
    by (cases "t_state (tm_list s ! i)") auto
  define d where "d = now + t_period (tm_list s ! i)"
  define s' where "s' = timer_restart now s i"
  have s': "tm_list s' = (tm_list s)[i := (tm_list s ! i)\<lparr>t_state := running, t_deadline := d\<rparr>]"
    "min_deadline s' = min d (min_deadline s)"
    using st by (auto simp: s'_def timer_restart_def set_timer_def Let_def d_def)
  have "min_deadline s' \<le> t_deadline (tm_list s' ! j)"
    if "j < k" "j < length (tm_list s')" "t_state (tm_list s' ! j) = running" for j
  proof (cases "j = i")
    case True
    then show ?thesis using that s' by simp
  next
    case False
    then have "min_deadline s \<le> t_deadline (tm_list s ! j)"
      using assms that s' by (simp add: deadlines_ok_def)
    then show ?thesis using False s' by (simp add: min.coboundedI2)
  qed
  then show ?thesis unfolding deadlines_ok_def s'_def by blast
qed

lemma deadlines_ok_apply [kept]: "deadlines_ok k s \<Longrightarrow> deadlines_ok k (timer_apply s op)"
proof (cases op)
  case (Start now i)
  then show "deadlines_ok k s \<Longrightarrow> ?thesis" by (auto simp: timer_start_def intro: deadlines_ok_restart)
next
  case (Restart now i)
  then show "deadlines_ok k s \<Longrightarrow> ?thesis" by (auto intro: deadlines_ok_restart)
qed (auto simp: deadlines_ok_def timer_adjust_def timer_stop_def timer_restop_def set_timer_def nth_list_update)

lemma deadlines_ok_applys: "deadlines_ok k s \<Longrightarrow> deadlines_ok k (foldl timer_apply s ops)"
  by (induction ops arbitrary: s) (auto intro: deadlines_ok_apply)

lemma deadlines_ok_expire:
  assumes "deadlines_ok k s"
  shows "deadlines_ok (Suc k) (set_timer s k ((tm_list s ! k)\<lparr>t_state := expired\<rparr>))"
  using assms by (auto simp: deadlines_ok_def set_timer_def nth_list_update less_Suc_eq)

lemma deadlines_ok_step:
  assumes "deadlines_ok k s"
  shows "deadlines_ok (Suc k) (fst (timeout_step hs current (s, fired) k))"
proof -
  let ?t = "tm_list s ! k"
  consider "t_state ?t = running \<and> t_deadline ?t < current"
    | "t_state ?t = running \<and> \<not> t_deadline ?t < current" | "t_state ?t \<noteq> running" by blast
  then show ?thesis
  proof cases
    case 1
    then show ?thesis
      by (simp add: timeout_step_def Let_def deadlines_ok_applys deadlines_ok_expire [OF assms])
  next
    case 2
    then show ?thesis
      using assms by (auto simp: timeout_step_def Let_def deadlines_ok_def less_Suc_eq dest: order_less_imp_le order.trans)
  next
    case 3
    then show ?thesis
      using assms by (auto simp: timeout_step_def Let_def deadlines_ok_def less_Suc_eq)
  qed
qed

lemma length_timeout_step [simp]:
  "length (tm_list (fst (timeout_step hs current sf k))) = length (tm_list (fst sf))"
  by (cases sf) (simp add: timeout_step_def Let_def set_timer_def)

lemma scan_ok:
  "deadlines_ok k (fst (foldl (timeout_step hs current) (s\<lparr>min_deadline := Long_max\<rparr>, []) [0..<k])) \<and>
   length (tm_list (fst (foldl (timeout_step hs current) (s\<lparr>min_deadline := Long_max\<rparr>, []) [0..<k]))) = length (tm_list s)"
proof (induction k)
  case 0
  show ?case by (simp add: deadlines_ok_def)
next
  case (Suc k)
  let ?r = "foldl (timeout_step hs current) (s\<lparr>min_deadline := Long_max\<rparr>, []) [0..<k]"
  have "deadlines_ok (Suc k) (fst (timeout_step hs current (fst ?r, snd ?r) k))"
    using Suc by (intro deadlines_ok_step) simp
  then show ?case using Suc by simp
qed

lemma handle_timeouts_all_ok [kept]: "timers_ok (fst (handle_timeouts_all hs current s))"
  using scan_ok [of "length (tm_list s)" hs current s] by (simp add: timers_ok_def handle_timeouts_all_def)

lemma handle_timeouts_ok [kept]: "timers_ok s \<Longrightarrow> timers_ok (fst (handle_timeouts hs current s))"
  by (simp add: handle_timeouts_def handle_timeouts_all_ok)

subsection \<open>Which timers fire\<close>

lemma timer_apply_other: "op_target op \<noteq> i \<Longrightarrow> tm_list (timer_apply s op) ! i = tm_list s ! i"
  by (cases op) (auto simp: timer_defs Let_def)

lemma timer_applys_other:
  "\<forall>op\<in>set ops. op_target op \<noteq> i \<Longrightarrow> tm_list (foldl timer_apply s ops) ! i = tm_list s ! i"
  by (induction ops arbitrary: s) (simp_all add: timer_apply_other)

text \<open>A timer no handler touches keeps its state until its turn, fires if it is due, and then stays.\<close>

lemma scan_fires:
  assumes free: "\<And>h op. op \<in> set (hs h) \<Longrightarrow> op_target op \<noteq> i" and i: "i < length (tm_list s)"
    and due: "due \<longleftrightarrow> t_state (tm_list s ! i) = running \<and> t_deadline (tm_list s ! i) < current"
  shows "let r = foldl (timeout_step hs current) (s\<lparr>min_deadline := Long_max\<rparr>, []) [0..<k] in
     (i \<in> set (snd r) \<longleftrightarrow> due \<and> i < k) \<and>
     tm_list (fst r) ! i = (if due \<and> i < k then (tm_list s ! i)\<lparr>t_state := expired\<rparr> else tm_list s ! i)"
proof (induction k)
  case 0
  show ?case by simp
next
  case (Suc k)
  define r where "r = foldl (timeout_step hs current) (s\<lparr>min_deadline := Long_max\<rparr>, []) [0..<k]"
  obtain s' fired where r': "r = (s', fired)" by (cases r)
  have IH: "i \<in> set fired \<longleftrightarrow> due \<and> i < k"
    "tm_list s' ! i = (if due \<and> i < k then (tm_list s ! i)\<lparr>t_state := expired\<rparr> else tm_list s ! i)"
    using Suc by (simp_all add: r' flip: r_def)
  have len: "length (tm_list s') = length (tm_list s)"
    using scan_ok [of k hs current s] by (simp add: r' flip: r_def)
  have o: "tm_list (foldl timer_apply u (hs h)) ! i = tm_list u ! i" for u h
    by (rule timer_applys_other) (use free in blast)
  have "i \<in> set (snd (timeout_step hs current (s', fired) k)) \<longleftrightarrow> due \<and> i < Suc k"
    "tm_list (fst (timeout_step hs current (s', fired) k)) ! i =
       (if due \<and> i < Suc k then (tm_list s ! i)\<lparr>t_state := expired\<rparr> else tm_list s ! i)"
    using IH due i len by (cases "k = i"; auto simp: timeout_step_def Let_def o set_timer_def)+
  then show ?case by (simp add: r' flip: r_def)
qed

lemma handle_timeouts_fires:
  assumes ok: "timers_ok s" and i: "i < length (tm_list s)"
    and free: "\<And>h op. op \<in> set (hs h) \<Longrightarrow> op_target op \<noteq> i"
    and due: "due \<longleftrightarrow> t_state (tm_list s ! i) = running \<and> t_deadline (tm_list s ! i) < current"
  shows "(i \<in> set (snd (handle_timeouts hs current s)) \<longleftrightarrow> due) \<and>
     tm_list (fst (handle_timeouts hs current s)) ! i =
       (if due then (tm_list s ! i)\<lparr>t_state := expired\<rparr> else tm_list s ! i)"
proof (cases "current < min_deadline s")
  case True
  then have "\<not> due" using ok i due by (auto simp: timers_ok_def deadlines_ok_def)
  with True show ?thesis by (simp add: handle_timeouts_def)
next
  case False
  then show ?thesis
    using scan_fires [where k = "length (tm_list s)", OF free i due] i
    by (simp add: handle_timeouts_def handle_timeouts_all_def Let_def)
qed

subsection \<open>Properties\<close>



text \<open>
  C38: the bound is an invariant: it holds for the empty table, every operation on a timer keeps
  it, whatever the clock says, and so does every call of \<open>handle_timeouts\<close> with whatever the
  handlers do.
\<close>

theorem timer_bound_invariant:
  "timers_ok timers_new \<and>
   (timers_ok s \<longrightarrow> timers_ok (timer_new mhz junk s t h) \<and> timers_ok (foldl timer_apply s ops) \<and>
      timers_ok (fst (handle_timeouts hs current s)))"
proof (intro conjI impI)
  show "timers_ok timers_new" by (simp add: timers_ok_def timers_new_def deadlines_ok_def)
  assume ok: "timers_ok s"
  show "timers_ok (timer_new mhz junk s t h)"
    using ok by (auto simp: timers_ok_def deadlines_ok_def timer_new_def nth_append)
  show "timers_ok (foldl timer_apply s ops)"
    using ok deadlines_ok_applys [of "length (tm_list s)" s ops] by (simp add: timers_ok_def)
  show "timers_ok (fst (handle_timeouts hs current s))" using ok by (rule handle_timeouts_ok)
qed

theorem timer_bound_invariant_witness:
  "timers_ok (fst (handle_timeouts (\<lambda>_. [Restart 30 0]) 20 (timer_new 1 7 timers_new 3 0)))"
  using timer_bound_invariant [of timers_new 1 7 3 0]
    timer_bound_invariant [of "timer_new 1 7 timers_new 3 0" _ _ _ _ _ "\<lambda>_. [Restart 30 0]" 20] by blast

end
