(* ===== verification/Wire.thy ===== *)
theory Wire
  imports Prelude
begin

section \<open>Messages: \<^verbatim>\<open>protocols/zlight/zl_Message.h\<close> and \<^verbatim>\<open>zl_Message.cc\<close>\<close>

text \<open>
  The generic message: an eight-byte header (tag, extra, size) and the bytes after it.
  \<open>m_payload\<close> are the bytes of the allocated block behind the header, so its length is the
  capacity of the block; the contents of fresh storage are an argument. A message that does not own
  its storage has \<open>max_size\<close> -1. The message classes of the other protocols differ in the prefix
  only.
\<close>

text \<open>Integers of type \<open>unsigned\<close>.\<close>

definition wrap32 :: "int \<Rightarrow> int" where
  "wrap32 i = i mod 2 ^ 32"

definition ALIGNMENT :: int where
  "ALIGNMENT = 8"

definition ALIGNED :: "int \<Rightarrow> bool" where
  "ALIGNED sz \<longleftrightarrow> sz mod ALIGNMENT = 0"

definition ALIGNED_SIZE :: "int \<Rightarrow> int" where
  "ALIGNED_SIZE sz = (if ALIGNED sz then sz else sz - sz mod ALIGNMENT + ALIGNMENT)"

definition zl_Max_message_size :: int where
  "zl_Max_message_size = 60000"

record zl_message =
  m_tag :: int
  m_extra :: int
  m_size :: int
  m_payload :: "byte list"
  m_max_size :: int

definition header_size :: nat where
  "header_size = 8"

text \<open>\<open>zl_Message(unsigned sz)\<close>: without storage when \<open>sz\<close> is 0, which is \<open>None\<close>.\<close>

definition msg_new :: "(nat \<Rightarrow> byte list) \<Rightarrow> int \<Rightarrow> zl_message option" where
  "msg_new junk sz =
     (if sz \<noteq> 0
      then Some \<lparr>m_tag = -1, m_extra = 0, m_size = 0, m_payload = junk (nat (ALIGNED_SIZE sz) - header_size),
                 m_max_size = ALIGNED_SIZE sz\<rparr>
      else None)"

definition msg_tagged :: "(nat \<Rightarrow> byte list) \<Rightarrow> int \<Rightarrow> int \<Rightarrow> zl_message" where
  "msg_tagged junk t sz =
     \<lparr>m_tag = t, m_extra = 0, m_size = ALIGNED_SIZE sz, m_payload = junk (nat (ALIGNED_SIZE sz) - header_size),
      m_max_size = ALIGNED_SIZE sz\<rparr>"

definition msg_of_contents :: "int \<Rightarrow> int \<Rightarrow> int \<Rightarrow> byte list \<Rightarrow> zl_message" where
  "msg_of_contents t ex sz payload =
     \<lparr>m_tag = t, m_extra = ex, m_size = sz, m_payload = payload, m_max_size = -1\<rparr>"

definition msg_trim :: "zl_message \<Rightarrow> zl_message" where
  "msg_trim m =
     (if m_max_size m > 0
      then m\<lparr>m_payload := take (nat (m_size m) - header_size) (m_payload m), m_max_size := m_size m\<rparr> else m)"

text \<open>Both return \<open>unsigned\<close>.\<close>

definition msg_size :: "zl_message \<Rightarrow> int" where
  "msg_size m = m_size m mod 2 ^ 32"

definition msize :: "zl_message \<Rightarrow> int" where
  "msize m = (if m_max_size m \<ge> 0 then m_max_size m else m_size m) mod 2 ^ 32"

definition has_tag :: "zl_message \<Rightarrow> int \<Rightarrow> int \<Rightarrow> bool" where
  "has_tag m t sz \<longleftrightarrow>
     (if m_max_size m \<ge> 0 \<and> m_size m > m_max_size m then False
      else \<not> (m_tag m \<noteq> t \<or> m_size m < sz \<or> \<not> ALIGNED (m_size m)))"

text \<open>\<open>((char*)msg)[i] = 0\<close>, for an index behind the header.\<close>

definition put_zero :: "zl_message \<Rightarrow> int \<Rightarrow> zl_message result" where
  "put_zero m i =
     (if int header_size \<le> i \<and> i < int header_size + int (length (m_payload m))
      then Inr (m\<lparr>m_payload := (m_payload m)[nat i - header_size := 0]\<rparr>) else Inl Out_of_bounds)"

definition msg_set_size :: "zl_message \<Rightarrow> int \<Rightarrow> zl_message result" where
  "msg_set_size m size' =
     rbind (th_assert (m_max_size m < 0 \<or> ALIGNED_SIZE size' \<le> m_max_size m)) (\<lambda>_.
     rbind (for_loop put_zero [size'..ALIGNED_SIZE size' - 1] m) (\<lambda>m1.
     Inr (m1\<lparr>m_size := ALIGNED_SIZE size'\<rparr>)))"

subsection \<open>Alignment\<close>

lemma ALIGNED_SIZE_props:
  "ALIGNED (ALIGNED_SIZE sz)" "sz \<le> ALIGNED_SIZE sz" "ALIGNED_SIZE sz < sz + 8"
  unfolding ALIGNED_SIZE_def ALIGNED_def ALIGNMENT_def by presburger+

lemma ALIGNED_SIZE_least: "ALIGNED x \<Longrightarrow> sz \<le> x \<Longrightarrow> ALIGNED_SIZE sz \<le> x"
  unfolding ALIGNED_SIZE_def ALIGNED_def ALIGNMENT_def by presburger

lemma ALIGNED_SIZE_idem [simp]: "ALIGNED_SIZE (ALIGNED_SIZE sz) = ALIGNED_SIZE sz"
  using ALIGNED_SIZE_props(1) by (simp add: ALIGNED_SIZE_def [of "ALIGNED_SIZE sz"])

text \<open>A message that owns its storage has room for what its capacity says.\<close>

definition msg_ok :: "zl_message \<Rightarrow> bool" where
  "msg_ok m \<longleftrightarrow> int (length (m_payload m)) + int header_size = m_max_size m \<and> ALIGNED (m_max_size m) \<and>
     m_size m \<le> m_max_size m"

lemma msg_tagged_ok:
  assumes "\<And>n. length (junk n) = n" "8 \<le> sz"
  shows "msg_ok (msg_tagged junk t sz)"
  using assms ALIGNED_SIZE_props [of sz] by (simp add: msg_ok_def msg_tagged_def header_size_def)

lemma put_zero_ok:
  "msg_ok m \<Longrightarrow> 8 \<le> i \<Longrightarrow> i < m_max_size m \<Longrightarrow>
     put_zero m i = Inr (m\<lparr>m_payload := (m_payload m)[nat i - 8 := 0]\<rparr>)"
  by (simp add: put_zero_def msg_ok_def header_size_def)

lemma zero_extend:
  assumes "x \<le> y" "y < length p"
  shows "(take x p @ replicate (y - x) 0 @ drop y p)[y := 0] =
     take x p @ replicate (Suc y - x) (0 :: byte) @ drop (Suc y) p"
proof -
  have len: "length (take x p @ replicate (y - x) (0 :: byte)) = y"
    using assms by simp
  have "take x p @ replicate (y - x) 0 @ drop y p = (take x p @ replicate (y - x) 0) @ p ! y # drop (Suc y) p"
    using assms by (simp add: Cons_nth_drop_Suc)
  moreover have "((take x p @ replicate (y - x) 0) @ p ! y # drop (Suc y) p)[y := 0] =
      (take x p @ replicate (y - x) 0) @ 0 # drop (Suc y) p"
    using list_update_length [of "take x p @ replicate (y - x) (0 :: byte)" "p ! y" "drop (Suc y) p" 0]
    unfolding len .
  moreover have "replicate (Suc y - x) (0 :: byte) = replicate (y - x) 0 @ [0]"
    using assms(1) by (simp add: Suc_diff_le replicate_append_same)
  ultimately show ?thesis by simp
qed

lemma length_zero_extend:
  "x \<le> y \<Longrightarrow> y \<le> length p \<Longrightarrow> length (take x p @ replicate (y - x) (0 :: byte) @ drop y p) = length p"
  by simp

lemma for_put_zero:
  assumes "msg_ok m" "8 \<le> a" "b \<le> m_max_size m" "a \<le> b"
  shows "for_loop put_zero [a..b - 1] m =
     Inr (m\<lparr>m_payload := take (nat a - 8) (m_payload m) @ replicate (nat b - 8 - (nat a - 8)) 0 @
            drop (nat b - 8) (m_payload m)\<rparr>)"
  using assms(3,4)
proof (induction "nat (b - a)" arbitrary: b)
  case 0
  then have "b = a" by simp
  then show ?case by simp
next
  case (Suc k)
  define c where "c = b - 1"
  have c: "a \<le> c" "c < m_max_size m" "k = nat (c - a)" "b = c + 1"
    using Suc by (auto simp: c_def)
  define x y where "x = nat a - 8" and "y = nat c - 8"
  have xy: "x \<le> y" "y < length (m_payload m)" "nat b - 8 = Suc y"
    using assms(1,2) c unfolding x_def y_def msg_ok_def header_size_def by linarith+
  let ?p = "\<lambda>z. take x (m_payload m) @ replicate (z - x) 0 @ drop z (m_payload m)"
  have IH: "for_loop put_zero [a..c - 1] m = Inr (m\<lparr>m_payload := ?p y\<rparr>)"
    using Suc(1) [of c] c unfolding x_def y_def by simp
  have ok: "msg_ok (m\<lparr>m_payload := ?p y\<rparr>)"
    using assms(1) length_zero_extend [OF xy(1) less_imp_le [OF xy(2)]] by (simp add: msg_ok_def)
  have "for_loop put_zero [a..b - 1] m = put_zero (m\<lparr>m_payload := ?p y\<rparr>) c"
    using c by (simp add: upto_rec2 for_loop_append IH) (cases "put_zero (m\<lparr>m_payload := ?p y\<rparr>) c", auto)
  also have "\<dots> = Inr (m\<lparr>m_payload := (?p y)[y := 0]\<rparr>)"
    using put_zero_ok [OF ok, of c] c assms(2) unfolding y_def by simp
  also have "\<dots> = Inr (m\<lparr>m_payload := ?p (Suc y)\<rparr>)"
    by (simp only: zero_extend [OF xy(1,2)])
  finally show ?case
    unfolding xy(3) x_def .
qed

lemma set_size_eq:
  assumes "msg_ok m" "8 \<le> sz" "sz \<le> m_max_size m"
  shows "msg_set_size m sz = Inr (m\<lparr>m_payload := take (nat sz - 8) (m_payload m) @
       replicate (nat (ALIGNED_SIZE sz) - 8 - (nat sz - 8)) 0 @ drop (nat (ALIGNED_SIZE sz) - 8) (m_payload m),
       m_size := ALIGNED_SIZE sz\<rparr>)"
proof -
  have "ALIGNED_SIZE sz \<le> m_max_size m"
    using assms by (intro ALIGNED_SIZE_least) (auto simp: msg_ok_def)
  then show ?thesis
    using for_put_zero [OF assms(1,2), of "ALIGNED_SIZE sz"] ALIGNED_SIZE_props [of sz]
    by (simp add: msg_set_size_def)
qed

subsection \<open>Fields of the payload\<close>

text \<open>
  \<open>memcpy\<close> into and out of the bytes behind the header. A header field is read with \<open>field\<close>,
  whose bytes the size check of \<open>has_tag\<close> has vouched for; everything behind the fixed part is
  read with \<open>read_bytes\<close>, which fails outside the block.
\<close>

definition field :: "byte list \<Rightarrow> nat \<Rightarrow> nat \<Rightarrow> byte list" where
  "field bs off n = take n (drop off bs)"

definition put_bytes :: "byte list \<Rightarrow> nat \<Rightarrow> byte list \<Rightarrow> byte list result" where
  "put_bytes m off bs =
     (if off + length bs \<le> length m then Inr (take off m @ bs @ drop (off + length bs) m) else Inl Out_of_bounds)"

text \<open>\<open>contents()\<close> as a sequence of bytes, up to byte \<open>k\<close>.\<close>

definition header_bytes :: "zl_message \<Rightarrow> byte list" where
  "header_bytes m = le_bytes 2 (nat (m_tag m mod 65536)) @ le_bytes 2 (nat (m_extra m mod 65536)) @ int32_bytes (m_size m)"

definition contents_upto :: "zl_message \<Rightarrow> nat \<Rightarrow> byte list" where
  "contents_upto m k = header_bytes m @ take (k - header_size) (m_payload m)"

text \<open>\<open>memcpy\<close> to \<open>contents() + off\<close>, for an offset behind the header.\<close>

definition msg_put :: "zl_message \<Rightarrow> nat \<Rightarrow> byte list \<Rightarrow> zl_message result" where
  "msg_put m off bs = rbind (put_bytes (m_payload m) (off - header_size) bs) (\<lambda>p. Inr (m\<lparr>m_payload := p\<rparr>))"

definition msg_read :: "zl_message \<Rightarrow> nat \<Rightarrow> nat \<Rightarrow> byte list result" where
  "msg_read m off n = read_bytes (m_payload m) (off - header_size) n"

definition msg_field :: "zl_message \<Rightarrow> nat \<Rightarrow> nat \<Rightarrow> byte list" where
  "msg_field m off n = field (m_payload m) (off - header_size) n"

text \<open>A signed \<open>short\<close>.\<close>

definition short_bytes :: "int \<Rightarrow> byte list" where
  "short_bytes i = le_bytes 2 (nat (i mod 65536))"

definition bytes_short :: "byte list \<Rightarrow> int" where
  "bytes_short bs = (let n = int (le_nat bs) in if n < 32768 then n else n - 65536)"

lemma length_short_bytes [simp]: "length (short_bytes i) = 2"
  by (simp add: short_bytes_def)

lemma bytes_short_bytes: "0 \<le> i \<Longrightarrow> i < 32768 \<Longrightarrow> bytes_short (short_bytes i) = i"
  by (simp add: bytes_short_def short_bytes_def Let_def nat_mod_distrib)

lemma le_nat_short_bytes: "0 \<le> i \<Longrightarrow> i < 65536 \<Longrightarrow> le_nat (short_bytes i) = nat i"
  by (simp add: short_bytes_def nat_mod_distrib nat_less_iff)

lemma put_bytes_append:
  "rbind (put_bytes m off a) (\<lambda>m'. put_bytes m' (off + length a) b) = put_bytes m off (a @ b)"
  by (auto simp: put_bytes_def ac_simps)

lemma read_bytes_field: "off + n \<le> length m \<Longrightarrow> read_bytes m off n = Inr (field m off n)"
  by (simp add: read_bytes_def field_def)

lemma length_field [simp]: "off + n \<le> length m \<Longrightarrow> length (field m off n) = n"
  by (simp add: field_def)

lemma put_bytes_ok:
  "off + length bs \<le> length m \<Longrightarrow> put_bytes m off bs = Inr (take off m @ bs @ drop (off + length bs) m)"
  by (simp add: put_bytes_def)

lemma put_bytes_length: "put_bytes m off bs = Inr m' \<Longrightarrow> length m' = length m"
  by (auto simp: put_bytes_def split: if_splits)

lemma field_put_same:
  "put_bytes m off bs = Inr m' \<Longrightarrow> n = length bs \<Longrightarrow> field m' off n = bs"
  by (auto simp: put_bytes_def field_def split: if_splits)

lemma field_put_before:
  "put_bytes m off bs = Inr m' \<Longrightarrow> off' + n \<le> off \<Longrightarrow> field m' off' n = field m off' n"
  by (auto simp: put_bytes_def field_def take_drop min_def split: if_splits)

lemma field_put_after:
  "put_bytes m off bs = Inr m' \<Longrightarrow> off + length bs \<le> off' \<Longrightarrow> field m' off' n = field m off' n"
  by (auto simp: put_bytes_def field_def split: if_splits)

lemmas field_put = field_put_same field_put_before field_put_after

lemma field_take: "off + n \<le> k \<Longrightarrow> k \<le> length m \<Longrightarrow> field (take k m @ ys) off n = field (take k m) off n"
  by (auto simp: field_def take_drop min_def)

lemma field_take_self: "off + n \<le> k \<Longrightarrow> k \<le> length m \<Longrightarrow> field (take k m) off n = field m off n"
  by (auto simp: field_def take_drop min_def)

lemma field_split: "field m off (a + b) = field m off a @ field m (off + a) b"
  by (simp add: field_def take_add add.commute)

lemma msg_set_size_fields:
  assumes "msg_ok m" "8 \<le> sz" "sz \<le> m_max_size m"
  obtains p where "msg_set_size m sz = Inr (m\<lparr>m_payload := p, m_size := ALIGNED_SIZE sz\<rparr>)"
    "length p = length (m_payload m)" "ALIGNED_SIZE sz \<le> m_max_size m"
    "\<And>off n. off + n \<le> nat sz - 8 \<Longrightarrow> field p off n = field (m_payload m) off n"
proof -
  define x y where "x = nat sz - 8" and "y = nat (ALIGNED_SIZE sz) - 8"
  have A: "ALIGNED_SIZE sz \<le> m_max_size m" "sz \<le> ALIGNED_SIZE sz"
    using assms ALIGNED_SIZE_least [of "m_max_size m" sz] ALIGNED_SIZE_props [of sz] by (auto simp: msg_ok_def)
  have xy: "x \<le> y" "y \<le> length (m_payload m)"
    using A assms unfolding x_def y_def msg_ok_def header_size_def by linarith+
  let ?p = "take x (m_payload m) @ replicate (y - x) 0 @ drop y (m_payload m)"
  have "field ?p off n = field (m_payload m) off n" if "off + n \<le> x" for off n
    using that xy by (simp add: field_take field_take_self)
  then show ?thesis
    using that [OF set_size_eq [OF assms]] length_zero_extend [OF xy] A unfolding x_def y_def by blast
qed

end
