(* ===== verification/ZNode.thy ===== *)
theory ZNode
  imports Wire
begin

section \<open>Nodes and principals: \<^verbatim>\<open>zl_Principal\<close>, \<^verbatim>\<open>zl_Node\<close>, \<^verbatim>\<open>zl_Cryptography.h\<close>\<close>

text \<open>
  A node reads the configuration, makes a principal for every line, and authenticates messages:
  vectors of MACs between the replicas, signatures, and request identifiers drawn from the clock.

  UMAC and the Rabin functions are libraries. They are the fields of \<open>crypto\<close>: the tag of a message
  under a key and a nonce, signing with the two primes, verifying and encrypting with the modulus,
  decrypting, the number of bits of an integer and its raw bytes. Integers of the
  library are natural numbers here. The laws the code relies on are \<open>crypto_ok\<close>.

  \<open>th_fail\<close> ends the process. Sockets are not part of the state: \<open>node_send\<close> returns the
  address, \<open>recv\<close> consumes the sequence of results of \<open>recvfrom\<close>.
\<close>

definition zl_UMAC_size :: nat where
  "zl_UMAC_size = 8"

definition zl_UNonce_size :: nat where
  "zl_UNonce_size = 8"

definition zl_MAC_size :: nat where
  "zl_MAC_size = zl_UMAC_size + zl_UNonce_size"

definition zl_Key_size_u :: nat where
  "zl_Key_size_u = 16 div 4"

definition Max_num_replicas :: int where
  "Max_num_replicas = 32"

definition zl_All_replicas :: int where
  "zl_All_replicas = -1"

record crypto =
  cr_umac :: "u32 list \<Rightarrow> byte list \<Rightarrow> byte list \<Rightarrow> byte list"
  cr_sign :: "nat \<times> nat \<Rightarrow> byte list \<Rightarrow> nat"
  cr_verify :: "nat \<Rightarrow> byte list \<Rightarrow> nat \<Rightarrow> bool"
  cr_encrypt :: "nat \<Rightarrow> byte list \<Rightarrow> nat"
  cr_decrypt :: "nat \<times> nat \<Rightarrow> nat \<Rightarrow> nat \<Rightarrow> byte list"
  cr_bits :: "nat \<Rightarrow> nat"
  cr_raw :: "nat \<Rightarrow> byte list"
  cr_of_raw :: "byte list \<Rightarrow> nat"

definition crypto_ok :: "crypto \<Rightarrow> bool" where
  "crypto_ok c \<longleftrightarrow>
     (\<forall>k m u. length (cr_umac c k m u) = zl_UMAC_size) \<and>
     (\<forall>p q m. cr_verify c (p * q) m (cr_sign c (p, q) m)) \<and>
     (\<forall>p q m. length (cr_raw c (cr_sign c (p, q) m)) \<le> cr_bits c (p * q) div 8 + 1) \<and>
     (\<forall>x. cr_of_raw c (cr_raw c x) = x)"

subsection \<open>Principals\<close>

type_synonym address = "u32 \<times> int"

record principal =
  p_id :: int
  p_addr :: address
  p_ctxs :: "u32 list option list"
  p_pkey :: "nat option"
  p_ssize :: nat
  p_num_principals :: int

definition umac_key :: "int \<Rightarrow> u32 list" where
  "umac_key temp = map (\<lambda>j. of_int temp + of_nat j) [0..<zl_Key_size_u]"

text \<open>\<open>me\<close> is \<open>zl_node->id()\<close>.\<close>

definition principal_new :: "crypto \<Rightarrow> int \<Rightarrow> int \<Rightarrow> int \<Rightarrow> address \<Rightarrow> nat option \<Rightarrow> principal" where
  "principal_new c me i np a p =
     \<lparr>p_id = i, p_addr = a,
      p_ctxs = (if i = me then map (\<lambda>index. Some (umac_key (i * 1000 + index))) [0..np - 1]
                else [Some (umac_key (i * 1000 + me))]),
      p_pkey = p,
      p_ssize = (case p of None \<Rightarrow> 0 | Some b \<Rightarrow> cr_bits c b div 8 + 1 + 4),
      p_num_principals = np\<rparr>"

definition ctx_at :: "principal \<Rightarrow> int \<Rightarrow> u32 list option result" where
  "ctx_at p i = (if 0 \<le> i \<and> nat i < length (p_ctxs p) then Inr (p_ctxs p ! nat i) else Inl Out_of_bounds)"

definition verify_mac :: "crypto \<Rightarrow> int \<Rightarrow> principal \<Rightarrow> byte list \<Rightarrow> byte list \<Rightarrow> byte list \<Rightarrow> bool result" where
  "verify_mac c me p src mac unonce =
     (let node_index = (if p_id p \<noteq> me then 0 else me) in
      rbind (ctx_at p node_index) (\<lambda>ctx.
        case ctx of
          None \<Rightarrow> Inr False
        | Some k \<Rightarrow> Inr (take zl_UMAC_size (cr_umac c k src unonce) = mac)))"

definition gen_mac :: "crypto \<Rightarrow> principal \<Rightarrow> byte list \<Rightarrow> int \<Rightarrow> byte list \<Rightarrow> byte list result" where
  "gen_mac c p src dest_pid unonce =
     rbind (ctx_at p dest_pid) (\<lambda>ctx.
       case ctx of None \<Rightarrow> Inl Null_deref | Some k \<Rightarrow> Inr (cr_umac c k src unonce))"

text \<open>The forms that put the nonce before the tag; \<open>mac\<close> is the storage behind the pointer.\<close>

definition gen_mac_nonce :: "crypto \<Rightarrow> u64 \<Rightarrow> principal \<Rightarrow> byte list \<Rightarrow> int \<Rightarrow> (byte list \<times> u64) result" where
  "gen_mac_nonce c umac_nonce p src dest_pid =
     (let n = umac_nonce + 1 in
      rbind (gen_mac c p src dest_pid (u64_bytes n)) (\<lambda>tag. Inr (u64_bytes n @ tag, n)))"

definition verify_mac_nonce :: "crypto \<Rightarrow> int \<Rightarrow> principal \<Rightarrow> byte list \<Rightarrow> byte list \<Rightarrow> bool result" where
  "verify_mac_nonce c me p src mac =
     rbind (read_bytes mac 0 zl_UNonce_size) (\<lambda>unonce.
     rbind (read_bytes mac zl_UNonce_size zl_UMAC_size) (\<lambda>tag.
     verify_mac c me p src tag unonce))"

text \<open>
  \<open>sig\<close> is the storage behind the pointer to the signature. The sum in the size check is one of
  \<open>unsigned\<close> values.
\<close>

definition verify_signature :: "crypto \<Rightarrow> int \<Rightarrow> principal \<Rightarrow> byte list \<Rightarrow> byte list \<Rightarrow> bool \<Rightarrow> bool result" where
  "verify_signature c me p src sig allow_self =
     (if p_id p = me \<and> \<not> allow_self then Inr False
      else rbind (read_bytes sig 0 4) (\<lambda>sz.
        let s_size = bytes_u32 sz in
        if s_size + 4 > of_nat (p_ssize p) then Inr False
        else rbind (read_bytes sig 4 (unat s_size)) (\<lambda>raw.
          case p_pkey p of
            None \<Rightarrow> Inl Null_deref
          | Some k \<Rightarrow> Inr (cr_verify c k src (cr_of_raw c raw)))))"

text \<open>The bytes placed in \<open>dst\<close>; none when it is too small.\<close>

definition encrypt :: "crypto \<Rightarrow> principal \<Rightarrow> byte list \<Rightarrow> nat \<Rightarrow> byte list result" where
  "encrypt c p src dst_len =
     (case p_pkey p of
        None \<Rightarrow> Inl Null_deref
      | Some k \<Rightarrow>
          (let raw = cr_raw c (cr_encrypt c k src) in
           if dst_len < length raw + 2 * 4 then Inr []
           else Inr (u32_bytes (of_nat (length src)) @ u32_bytes (of_nat (length raw)) @ raw)))"

subsection \<open>Nodes\<close>

record config_line =
  cl_host :: string
  cl_addr :: u32
  cl_port :: int
  cl_pk :: nat

record config =
  cf_max_faulty :: int
  cf_num_principals :: int
  cf_group :: address
  cf_lines :: "config_line list"

record node =
  node_id :: int
  max_faulty :: int
  num_replicas :: int
  priv_key :: "(nat \<times> nat) option"
  principals :: "principal list"
  num_principals :: int
  group_addr :: address
  cur_primary :: int
  cur_rid :: request_id
  umac_nonce :: u64

text \<open>The first line with this host's address and, when a port is asked for, that port.\<close>

fun find_me :: "u32 \<Rightarrow> int \<Rightarrow> config_line list \<Rightarrow> int \<Rightarrow> int" where
  "find_me my_address req_port [] i = -1"
| "find_me my_address req_port (l # ls) i =
     (if my_address = cl_addr l \<and> (req_port = 0 \<or> req_port = cl_port l) then i
      else find_me my_address req_port ls (i + 1))"

definition new_tstamp :: "int \<Rightarrow> request_id" where
  "new_tstamp tv_sec = push_bit 32 (of_int tv_sec)"

text \<open>
  The constructor, after the configuration file was read: \<open>my_address\<close> is the first address of the
  host name, \<open>priv\<close> the two numbers of the private file, \<open>tv_sec\<close> the clock. Every read
  of a line past the end of the file leaves the previous values in place in the code; here the
  file has as many lines as it says.
\<close>

definition node_new :: "crypto \<Rightarrow> config \<Rightarrow> u32 option \<Rightarrow> int \<Rightarrow> (nat \<times> nat) option \<Rightarrow> int \<Rightarrow> node result" where
  "node_new c cfg my_address req_port priv tv_sec =
     (let mf = cf_max_faulty cfg; nr = 3 * mf + 1; np = cf_num_principals cfg in
      if nr > Max_num_replicas then Inl Process_exit
      else if nr > np then Inl Process_exit
      else case my_address of
        None \<Rightarrow> Inl Process_exit
      | Some addr \<Rightarrow>
          (let lines = take (nat np) (cf_lines cfg); me = find_me addr req_port lines 0 in
           if me < 0 then Inl Process_exit
           else
             (let ps = map (\<lambda>(i, l). principal_new c me (int i) np (cl_addr l, cl_port l) (Some (cl_pk l)))
                         (enumerate 0 lines) in
              case priv of
                Some (n1, n2) \<Rightarrow>
                  if n1 \<ge> n2 then Inl Process_exit
                  else Inr \<lparr>node_id = me, max_faulty = mf, num_replicas = nr, priv_key = Some (n1, n2),
                            principals = ps, num_principals = np, group_addr = cf_group cfg,
                            cur_primary = 0, cur_rid = new_tstamp tv_sec, umac_nonce = 0\<rparr>
              | None \<Rightarrow>
                  Inr \<lparr>node_id = me, max_faulty = mf, num_replicas = nr, priv_key = None,
                       principals = ps, num_principals = np, group_addr = cf_group cfg,
                       cur_primary = 0, cur_rid = new_tstamp tv_sec, umac_nonce = 0\<rparr>)))"

definition i_to_p :: "node \<Rightarrow> int \<Rightarrow> principal option" where
  "i_to_p nd i = (if i < 0 \<or> i \<ge> num_principals nd then None else Some (principals nd ! nat i))"

definition is_replica :: "node \<Rightarrow> int \<Rightarrow> bool" where
  "is_replica nd i \<longleftrightarrow> i \<ge> 0 \<and> i < num_replicas nd"

definition primary :: "node \<Rightarrow> int" where
  "primary nd = cur_primary nd"

definition auth_size :: "node \<Rightarrow> int \<Rightarrow> int" where
  "auth_size nd i =
     (let i = (if i < 0 then node_id nd else i) in
      (if i < num_replicas nd then num_replicas nd - 1 else num_replicas nd) * int zl_UMAC_size + int zl_UNonce_size)"

definition sig_size :: "node \<Rightarrow> int \<Rightarrow> nat result" where
  "sig_size nd i =
     (let i = (if i < 0 then node_id nd else i) in
      rbind (th_assert (i < num_principals nd)) (\<lambda>_.
      case i_to_p nd i of None \<Rightarrow> Inl Out_of_bounds | Some p \<Rightarrow> Inr (p_ssize p)))"

definition node_send :: "node \<Rightarrow> 'm \<Rightarrow> int \<Rightarrow> (address \<times> 'm) result" where
  "node_send nd m i =
     rbind (th_assert (i = zl_All_replicas \<or> (i \<ge> 0 \<and> i < num_principals nd))) (\<lambda>_.
     Inr (if i = zl_All_replicas then group_addr nd else p_addr (principals nd ! nat i), m))"

text \<open>
  One result of \<open>recvfrom\<close> is the return value and the message in the buffer after the call.
  \<open>recv\<close> returns the first acceptable message and the results not consumed; without one it
  keeps waiting.
\<close>

fun recv :: "(int \<times> zl_message) list \<Rightarrow> (zl_message \<times> (int \<times> zl_message) list) option" where
  "recv [] = None"
| "recv ((ret, m) # ins) =
     (if ret \<ge> int header_size \<and> ret \<ge> m_size m then Some (m, ins) else recv ins)"

definition recv_tcp_payload :: "zl_message \<Rightarrow> int" where
  "recv_tcp_payload m = m_size m - int header_size"

definition add_mac :: "crypto \<Rightarrow> node \<Rightarrow> principal \<Rightarrow> byte list \<Rightarrow> byte list \<Rightarrow> byte list \<Rightarrow> int \<Rightarrow> byte list result" where
  "add_mac c nd p s unonce dest i =
     (if i = node_id nd then Inr dest
      else rbind (gen_mac c p s i unonce) (\<lambda>mac. Inr (dest @ mac)))"

text \<open>The bytes written to \<open>dest\<close>, and the node with its nonce counter advanced.\<close>

definition gen_auth :: "crypto \<Rightarrow> node \<Rightarrow> byte list \<Rightarrow> (byte list \<times> node) result" where
  "gen_auth c nd s =
     (let unonce = umac_nonce nd + 1 in
      case i_to_p nd (node_id nd) of
        None \<Rightarrow> Inl Null_deref
      | Some p \<Rightarrow>
          rbind (for_loop (add_mac c nd p s (u64_bytes unonce)) [0..num_replicas nd - 1] (u64_bytes unonce))
            (\<lambda>dest. Inr (dest, nd\<lparr>umac_nonce := unonce\<rparr>)))"

definition verify_auth :: "crypto \<Rightarrow> node \<Rightarrow> int \<Rightarrow> byte list \<Rightarrow> byte list \<Rightarrow> bool result" where
  "verify_auth c nd src_pid s dest =
     rbind (th_assert (node_id nd < num_replicas nd)) (\<lambda>_.
     case i_to_p nd src_pid of
       None \<Rightarrow> Inr False
     | Some p \<Rightarrow>
         if src_pid \<noteq> node_id nd
         then rbind (read_bytes dest 0 zl_UNonce_size) (\<lambda>unonce.
              let off = node_id nd * int zl_UMAC_size;
                  off = (if node_id nd > src_pid then off - int zl_UMAC_size else off)
              in rbind (read_bytes dest (zl_UNonce_size + nat off) zl_UMAC_size) (\<lambda>mac.
                 verify_mac c (node_id nd) p s mac unonce))
         else Inr False)"

definition gen_signature :: "crypto \<Rightarrow> node \<Rightarrow> byte list \<Rightarrow> byte list result" where
  "gen_signature c nd src =
     (case priv_key nd of
        None \<Rightarrow> Inl Null_deref
      | Some pq \<Rightarrow>
          (let raw = cr_raw c (cr_sign c pq src) in
           rbind (sig_size nd (-1)) (\<lambda>ss.
           if length raw + 4 > ss then Inl Process_exit
           else Inr (u32_bytes (of_nat (length raw)) @ raw))))"

definition decrypt :: "crypto \<Rightarrow> node \<Rightarrow> byte list \<Rightarrow> nat \<Rightarrow> nat \<Rightarrow> (nat \<times> byte list) result" where
  "decrypt c nd src src_len dst_len =
     (if src_len < 2 * 4 then Inr (0, [])
      else
        rbind (read_bytes src 0 4) (\<lambda>pb.
        rbind (read_bytes src 4 4) (\<lambda>cb.
        let psize = unat (bytes_u32 pb); csize = unat (bytes_u32 cb) in
        if dst_len < psize \<or> src_len < csize then Inr (0, [])
        else rbind (read_bytes src 8 csize) (\<lambda>raw.
          case priv_key nd of
            None \<Rightarrow> Inl Null_deref
          | Some pq \<Rightarrow> Inr (psize, cr_decrypt c pq (cr_of_raw c raw) psize)))))"

text \<open>\<open>tv_sec\<close> is what \<open>gettimeofday\<close> would return.\<close>

definition new_rid :: "int \<Rightarrow> node \<Rightarrow> request_id \<times> node" where
  "new_rid tv_sec nd =
     (let r = (if (ucast (cur_rid nd) :: u32) = 0xffffffff then new_tstamp tv_sec else cur_rid nd) + 1
      in (r, nd\<lparr>cur_rid := r\<rparr>))"

subsection \<open>What the constructor establishes\<close>

definition principal_ok :: "int \<Rightarrow> int \<Rightarrow> nat \<Rightarrow> principal \<Rightarrow> bool" where
  "principal_ok me np i p \<longleftrightarrow> p_id p = int i \<and>
     p_ctxs p = (if int i = me then map (\<lambda>index. Some (umac_key (int i * 1000 + index))) [0..np - 1]
                 else [Some (umac_key (int i * 1000 + me))])"

definition node_ok :: "node \<Rightarrow> bool" where
  "node_ok nd \<longleftrightarrow>
     num_replicas nd = 3 * max_faulty nd + 1 \<and> num_replicas nd \<le> Max_num_replicas \<and>
     num_replicas nd \<le> num_principals nd \<and> int (length (principals nd)) = num_principals nd \<and>
     0 \<le> node_id nd \<and> node_id nd < num_principals nd \<and>
     (\<forall>i < length (principals nd). principal_ok (node_id nd) (num_principals nd) i (principals nd ! i))"

lemma find_me_bounds:
  "find_me a r ls i \<noteq> -1 \<Longrightarrow> i \<le> find_me a r ls i \<and> find_me a r ls i < i + int (length ls)"
  by (induction ls arbitrary: i) (fastforce split: if_splits)+

lemma principal_new_ok: "principal_ok me np i (principal_new c me (int i) np a p)"
  by (simp add: principal_ok_def principal_new_def)

lemma node_new_facts:
  assumes "node_new c cfg addr port priv tv = Inr nd" "length (cf_lines cfg) = nat (cf_num_principals cfg)"
  shows "node_ok nd" "max_faulty nd = cf_max_faulty cfg" "num_principals nd = cf_num_principals cfg"
proof -
  define np where "np = cf_num_principals cfg"
  obtain a where a: "addr = Some a"
    using assms(1) by (cases addr) (auto simp: node_new_def Let_def split: if_splits)
  define me where "me = find_me a port (cf_lines cfg) 0"
  have lines: "take (nat np) (cf_lines cfg) = cf_lines cfg"
    using assms(2) by (simp add: np_def)
  let ?ps = "map (\<lambda>(i, l). principal_new c me (int i) np (cl_addr l, cl_port l) (Some (cl_pk l)))
               (enumerate 0 (cf_lines cfg))"
  have f: "3 * cf_max_faulty cfg + 1 \<le> Max_num_replicas" "3 * cf_max_faulty cfg + 1 \<le> np" "\<not> me < 0"
    "max_faulty nd = cf_max_faulty cfg" "num_replicas nd = 3 * cf_max_faulty cfg + 1"
    "num_principals nd = np" "node_id nd = me" "principals nd = ?ps"
    using assms(1) unfolding node_new_def a np_def [symmetric] me_def
    by (auto simp: Let_def lines split: if_splits option.splits prod.splits)
  have "me < int (length (cf_lines cfg))"
    using find_me_bounds [of a port "cf_lines cfg" 0] f(3) by (simp add: me_def)
  moreover have "principal_ok me np i (?ps ! i)" if "i < length (cf_lines cfg)" for i
    using that by (simp add: nth_enumerate_eq principal_new_ok)
  moreover have "int (length (cf_lines cfg)) = np"
    using assms(2) calculation(1) f(3) unfolding np_def by linarith
  ultimately show "node_ok nd"
    using f by (simp add: node_ok_def)
  show "max_faulty nd = cf_max_faulty cfg" "num_principals nd = cf_num_principals cfg"
    using f by (simp_all add: np_def)
qed

lemma node_new_principal:
  assumes "node_new c cfg addr port priv tv = Inr nd" "length (cf_lines cfg) = nat (cf_num_principals cfg)"
    and "0 \<le> i" "i < num_principals nd"
  shows "\<exists>p. i_to_p nd i = Some p \<and> p_pkey p = Some (cl_pk (cf_lines cfg ! nat i)) \<and>
           p_ssize p = cr_bits c (cl_pk (cf_lines cfg ! nat i)) div 8 + 1 + 4"
    and "priv_key nd = priv"
proof -
  obtain a where a: "addr = Some a"
    using assms(1) by (cases addr) (auto simp: node_new_def Let_def split: if_splits)
  have lines: "take (nat (cf_num_principals cfg)) (cf_lines cfg) = cf_lines cfg"
    using assms(2) by simp
  have f: "principals nd = map (\<lambda>(j, l). principal_new c (node_id nd) (int j) (cf_num_principals cfg) (cl_addr l, cl_port l) (Some (cl_pk l)))
      (enumerate 0 (cf_lines cfg))" "num_principals nd = cf_num_principals cfg" "priv_key nd = priv"
    using assms(1) unfolding node_new_def a by (auto simp: Let_def lines split: if_splits option.splits prod.splits)
  have "nat i < length (cf_lines cfg)" using assms(2-4) f(2) by linarith
  then show "\<exists>p. i_to_p nd i = Some p \<and> p_pkey p = Some (cl_pk (cf_lines cfg ! nat i)) \<and>
      p_ssize p = cr_bits c (cl_pk (cf_lines cfg ! nat i)) div 8 + 1 + 4"
    using assms(3,4) f(2) by (simp add: i_to_p_def f(1) nth_enumerate_eq principal_new_def)
  show "priv_key nd = priv" by (rule f)
qed

lemma i_to_p_ok:
  assumes "node_ok nd" "0 \<le> i" "i < num_principals nd"
  obtains p where "i_to_p nd i = Some p" "principal_ok (node_id nd) (num_principals nd) (nat i) p"
proof -
  have "nat i < length (principals nd)"
    using assms unfolding node_ok_def by linarith
  then have "principal_ok (node_id nd) (num_principals nd) (nat i) (principals nd ! nat i)"
    using assms(1) by (simp add: node_ok_def)
  then show ?thesis
    using that [of "principals nd ! nat i"] assms by (simp add: i_to_p_def)
qed

subsection \<open>Vectors of MACs\<close>

text \<open>The key of the channel from \<open>i\<close> to \<open>j\<close>, as both ends compute it.\<close>

definition chan_key :: "int \<Rightarrow> int \<Rightarrow> u32 list" where
  "chan_key i j = umac_key (i * 1000 + j)"

lemma gen_mac_own:
  assumes "principal_ok me np (nat me) p" "0 \<le> me" "0 \<le> j" "j < np"
  shows "gen_mac c p s j u = Inr (cr_umac c (chan_key me j) s u)"
  using assms by (simp add: gen_mac_def ctx_at_def principal_ok_def chan_key_def)

lemma verify_mac_other:
  assumes "principal_ok me np (nat i) p" "0 \<le> i" "i \<noteq> me"
  shows "verify_mac c me p s mac u = Inr (take zl_UMAC_size (cr_umac c (chan_key i me) s u) = mac)"
  using assms by (simp add: verify_mac_def ctx_at_def principal_ok_def chan_key_def)

lemma concat_uniform:
  assumes "\<And>x. length (t x) = k" "p < length xs"
  shows "take k (drop (k * p) (concat (map t xs))) = t (xs ! p)"
  using assms(2)
proof (induction xs arbitrary: p)
  case (Cons x xs)
  then show ?case using assms(1) by (cases p) simp_all
qed simp

lemma length_concat_uniform: "(\<And>x. length (t x) = k) \<Longrightarrow> length (concat (map t xs)) = k * length xs"
  by (induction xs) simp_all

lemma add_mac_loop:
  assumes "\<And>j. j \<in> set js \<Longrightarrow> gen_mac c p s j u = Inr (tag j)"
  shows "for_loop (add_mac c nd p s u) js dest =
     Inr (dest @ concat (map tag (filter (\<lambda>j. j \<noteq> node_id nd) js)))"
  using assms by (induction js arbitrary: dest) (auto simp: add_mac_def)

lemma gen_auth_eq:
  assumes "node_ok nd"
  shows "gen_auth c nd s = Inr
    (u64_bytes (umac_nonce nd + 1) @
     concat (map (\<lambda>j. cr_umac c (chan_key (node_id nd) j) s (u64_bytes (umac_nonce nd + 1)))
       (filter (\<lambda>j. j \<noteq> node_id nd) [0..num_replicas nd - 1])),
     nd\<lparr>umac_nonce := umac_nonce nd + 1\<rparr>)"
proof -
  have b: "0 \<le> node_id nd" "node_id nd < num_principals nd" "num_replicas nd \<le> num_principals nd"
    using assms by (auto simp: node_ok_def)
  obtain p where p: "i_to_p nd (node_id nd) = Some p"
    "principal_ok (node_id nd) (num_principals nd) (nat (node_id nd)) p"
    using i_to_p_ok [OF assms b(1,2)] .
  show ?thesis
    unfolding gen_auth_def p(1) Let_def option.case
    by (subst add_mac_loop) (use gen_mac_own [OF p(2) b(1)] b(3) in auto)
qed

lemma filter_skip:
  assumes "0 \<le> me" "0 \<le> i" "i < n" "i \<noteq> me"
  shows "filter (\<lambda>j. j \<noteq> me) [0..n - 1] ! nat (if i > me then i - 1 else i) = i"
    "nat (if i > me then i - 1 else i) < length (filter (\<lambda>j. j \<noteq> me) [0..n - 1])"
proof -
  have id: "filter (\<lambda>j. j \<noteq> me) [a..b] = [a..b]" if "me < a \<or> b < me" for a b
    using that by (auto intro: filter_True)
  have "filter (\<lambda>j. j \<noteq> me) [0..n - 1] = (if me < n then [0..me - 1] @ [me + 1..n - 1] else [0..n - 1])"
  proof (cases "me < n")
    case True
    then have "[0..n - 1] = [0..me - 1] @ me # [me + 1..n - 1]"
      using assms(1) upto_split3 [of 0 me "n - 1"] by simp
    then show ?thesis using True by (simp add: id)
  next
    case False
    then show ?thesis by (simp add: id)
  qed
  then show "filter (\<lambda>j. j \<noteq> me) [0..n - 1] ! nat (if i > me then i - 1 else i) = i"
    "nat (if i > me then i - 1 else i) < length (filter (\<lambda>j. j \<noteq> me) [0..n - 1])"
    using assms by (auto simp: nth_append nat_less_iff)
qed

lemma auth_roundtrip:
  assumes c: "crypto_ok c" and A: "node_ok A" and B: "node_ok B"
    and same: "num_replicas A = num_replicas B" "num_principals A = num_principals B"
    and repl: "node_id B < num_replicas B" and ne: "node_id A \<noteq> node_id B"
    and gen: "gen_auth c A s = Inr (dest, A')"
  shows "verify_auth c B (node_id A) s (dest @ rest) = Inr True"
proof -
  let ?a = "node_id A" and ?b = "node_id B" and ?n = "num_replicas B"
  let ?u = "u64_bytes (umac_nonce A + 1)"
  let ?tag = "\<lambda>j. cr_umac c (chan_key ?a j) s ?u"
  let ?js = "filter (\<lambda>j. j \<noteq> ?a) [0..?n - 1]"
  have dest: "dest = ?u @ concat (map ?tag ?js)"
    using gen gen_auth_eq [OF A, of c s] same by simp
  have b: "0 \<le> ?a" "?a < num_principals B" "0 \<le> ?b"
    using A B same by (auto simp: node_ok_def)
  have len: "length (?tag j) = 8" for j
    using c by (simp add: crypto_ok_def zl_UMAC_size_def)
  define q where "q = nat (if ?b > ?a then ?b - 1 else ?b)"
  have q: "?js ! q = ?b" "q < length ?js"
    using filter_skip [OF b(1,3) repl ne [symmetric]] by (simp_all add: q_def)
  obtain p where p: "i_to_p B ?a = Some p" "principal_ok ?b (num_principals B) (nat ?a) p"
    using i_to_p_ok [OF B b(1,2)] .
  have off: "nat (if ?b > ?a then ?b * 8 - 8 else ?b * 8) = 8 * q"
    using b by (auto simp: q_def nat_mult_distrib nat_diff_distrib algebra_simps)
  have "q + 1 \<le> length ?js" using q(2) by simp
  then have "8 + 8 * q + 8 \<le> length dest"
    using len by (simp add: dest length_concat_uniform [where k = 8])
  then have "read_bytes (dest @ rest) (8 + 8 * q) 8 = Inr (take 8 (drop (8 * q) (concat (map ?tag ?js))))"
    by (simp add: read_bytes_append_left read_bytes_field) (simp add: dest field_def)
  then have mac: "read_bytes (dest @ rest) (8 + 8 * q) 8 = Inr (?tag ?b)"
    using concat_uniform [where t = ?tag and k = 8, OF len q(2)] q(1) by simp
  have nonce: "read_bytes (dest @ rest) 0 8 = Inr ?u"
    by (simp add: dest read_bytes_def)
  show ?thesis
    using repl ne mac off verify_mac_other [OF p(2) b(1) ne] len [of ?b]
    by (cases "?a < ?b") (simp_all add: verify_auth_def p(1) Let_def zl_UNonce_size_def zl_UMAC_size_def nonce)
qed

lemma gen_auth_length:
  assumes "crypto_ok c" "node_ok nd" "gen_auth c nd s = Inr (dest, nd')" "0 \<le> max_faulty nd"
  shows "int (length dest) = auth_size nd (-1)"
proof -
  have "length (cr_umac c k s u) = 8" for k u
    using assms(1) by (simp add: crypto_ok_def zl_UMAC_size_def)
  then have "length dest = 8 + 8 * length (filter (\<lambda>j. j \<noteq> node_id nd) [0..num_replicas nd - 1])"
    using assms(3) gen_auth_eq [OF assms(2), of c s] by (auto simp: length_concat_uniform [where k = 8])
  moreover have "length (filter (\<lambda>j. j \<noteq> me) [0..n - 1]) = nat (if me < n then n - 1 else n)"
    if "0 \<le> me" for me n :: int
  proof -
    have "length (filter (\<lambda>j. j \<noteq> me) [0..n - 1]) = card ({0..n - 1} - {me})"
      by (subst distinct_card [symmetric]) (auto intro: arg_cong [where f = card])
    then show ?thesis using that by (simp add: card_Diff_singleton_if nat_diff_distrib)
  qed
  moreover have "0 \<le> node_id nd" using assms(2) by (simp add: node_ok_def)
  ultimately show ?thesis
    using assms(2,4) by (auto simp: auth_size_def zl_UMAC_size_def zl_UNonce_size_def node_ok_def)
qed

text \<open>
  Two different channels have different keys as long as there are at most 1000 principals; with
  more, channels share a key.
\<close>

lemma umac_key_inject:
  assumes "umac_key x = umac_key y" "0 \<le> x" "x < 2 ^ 32" "0 \<le> y" "y < 2 ^ 32"
  shows "x = y"
proof -
  have "(of_int x :: u32) = of_int y"
    using assms(1) by (simp add: umac_key_def zl_Key_size_u_def upt_rec)
  then have "uint (of_int x :: u32) = uint (of_int y :: u32)" by simp
  then show ?thesis
    using assms(2-5) by (simp add: unsigned_of_int take_bit_int_eq_self)
qed

lemma chan_key_inject:
  assumes "chan_key i j = chan_key k l" "0 \<le> i" "i < 1000" "0 \<le> j" "j < 1000" "0 \<le> k" "k < 1000" "0 \<le> l" "l < 1000"
  shows "i = k \<and> j = l"
proof -
  have r: "0 \<le> x * 1000 + y" "x * 1000 + y < 2 ^ 32"
    if "0 \<le> x" "x < 1000" "0 \<le> y" "y < 1000" for x y :: int
    using that by simp_all
  have "i * 1000 + j = k * 1000 + l"
    by (rule umac_key_inject [OF assms(1) [unfolded chan_key_def] r [OF assms(2-5)] r [OF assms(6-9)]])
  moreover have "(x * 1000 + y) div 1000 = x" "(x * 1000 + y) mod 1000 = y"
    if "0 \<le> y" "y < 1000" for x y :: int
    using that by (simp_all add: div_add1_eq)
  ultimately show ?thesis using assms(4,5,8,9) by metis
qed

lemma chan_key_shared: "chan_key 0 1001 = chan_key 1 1"
  by (simp add: chan_key_def)

subsection \<open>Signatures\<close>

lemma sig_size_own:
  "node_ok nd \<Longrightarrow> i_to_p nd (node_id nd) = Some p \<Longrightarrow> sig_size nd (-1) = Inr (p_ssize p)"
  by (simp add: sig_size_def node_ok_def)

text \<open>
  A verifier that knows the modulus of the signer's primes accepts the signature, whatever
  follows it in the message.
\<close>

lemma signature_roundtrip:
  assumes c: "crypto_ok c" and key: "priv_key A = Some (n1, n2)"
    and own: "node_ok A" "i_to_p A (node_id A) = Some pa" "p_ssize pa = cr_bits c (n1 * n2) div 8 + 1 + 4"
    and ver: "p_pkey p = Some (n1 * n2)" "p_ssize p = cr_bits c (n1 * n2) div 8 + 1 + 4"
    and small: "p_ssize p < 2 ^ 32"
  shows "\<exists>sig. gen_signature c A src = Inr sig \<and> length sig \<le> p_ssize pa \<and>
           (p_id p \<noteq> me \<or> self \<longrightarrow> verify_signature c me p src (sig @ rest) self = Inr True)"
proof -
  define raw where "raw = cr_raw c (cr_sign c (n1, n2) src)"
  let ?L = "length raw"
  have L: "?L \<le> cr_bits c (n1 * n2) div 8 + 1"
    using c unfolding crypto_ok_def raw_def by blast
  then have L32: "?L + 4 \<le> p_ssize p" "?L + 4 < 2 ^ 32" using ver(2) small by linarith+
  have gen: "gen_signature c A src = Inr (u32_bytes (of_nat ?L) @ raw)"
    using L own(3) sig_size_own [OF own(1,2)] by (simp add: gen_signature_def key raw_def [symmetric])
  have un: "unat (of_nat ?L :: u32) = ?L"
    using L32 by (simp add: unsigned_of_nat take_bit_nat_eq_self)
  have "\<not> (of_nat ?L + 4 :: u32) > of_nat (p_ssize p)"
  proof -
    have "(of_nat ?L + 4 :: u32) = of_nat (?L + 4)" by simp
    then show ?thesis
      using L32 small by (simp add: word_less_nat_alt unsigned_of_nat take_bit_nat_eq_self del: of_nat_add)
  qed
  moreover have "read_bytes (u32_bytes (of_nat ?L) @ raw @ rest) 0 4 = Inr (u32_bytes (of_nat ?L))"
    by (simp add: read_bytes_def)
  moreover have "read_bytes (u32_bytes (of_nat ?L) @ raw @ rest) 4 ?L = Inr raw"
    by (simp add: read_bytes_def)
  moreover have "cr_verify c (n1 * n2) src (cr_of_raw c raw)"
    using c by (simp add: crypto_ok_def raw_def)
  ultimately have "verify_signature c me p src ((u32_bytes (of_nat ?L) @ raw) @ rest) self = Inr True"
    if "p_id p \<noteq> me \<or> self"
    using that ver(1) un by (simp add: verify_signature_def)
  then show ?thesis
    using gen L own(3) by auto
qed

text \<open>
  The check of the length a signature claims is one of 32-bit values: a claimed length of
  \<open>2^32 - 4\<close> passes it, and the code goes on to read that many bytes.
\<close>

lemma verify_signature_overflow:
  assumes "p_id p \<noteq> me" "length sig < 2 ^ 32 - 4"
  shows "verify_signature c me p src (u32_bytes (2 ^ 32 - 4) @ sig) self = Inl Out_of_bounds"
proof -
  have "read_bytes (u32_bytes (2 ^ 32 - 4) @ sig) 0 4 = Inr (u32_bytes (2 ^ 32 - 4))"
    by (simp add: read_bytes_def)
  moreover have "\<not> (of_nat (p_ssize p) :: u32) < 4294967296"
  proof -
    have "(4294967296 :: u32) = 0" by simp
    then show ?thesis by (simp only: word_not_simps(1) not_False_eq_True)
  qed
  moreover have "read_bytes (u32_bytes (2 ^ 32 - 4) @ sig) 4 (unat (2 ^ 32 - 4 :: u32)) = Inl Out_of_bounds"
    using assms(2) by (simp add: read_bytes_def)
  ultimately show ?thesis
    using assms(1) by (simp add: verify_signature_def)
qed

subsection \<open>Request identifiers\<close>

lemma new_tstamp_nat:
  assumes "0 \<le> t" "t < 2 ^ 31"
  shows "unat (new_tstamp t) = nat t * 2 ^ 32"
proof -
  have t: "unat (of_int t :: u64) = nat t"
    using assms by (simp add: unsigned_of_int take_bit_int_eq_self)
  have "nat t < 2 ^ 31" using assms by (simp add: nat_less_iff)
  then have "nat t * 2 ^ 32 < 2 ^ 64" by simp
  then show ?thesis
    by (simp add: new_tstamp_def push_bit_eq_mult unat_word_ariths t)
qed

lemma new_rid_step:
  assumes "(ucast (cur_rid nd) :: u32) = 0xffffffff \<Longrightarrow> unat (cur_rid nd) div 2 ^ 32 < nat t" "0 \<le> t" "t < 2 ^ 31"
  shows "cur_rid nd < fst (new_rid t nd)"
proof (cases "(ucast (cur_rid nd) :: u32) = 0xffffffff")
  case True
  have "nat t < 2 ^ 31" using assms by (simp add: nat_less_iff)
  then have "unat (new_tstamp t + 1) = nat t * 2 ^ 32 + 1"
    using new_tstamp_nat [OF assms(2,3)] by (simp add: unat_word_ariths)
  moreover have "unat (cur_rid nd) < (unat (cur_rid nd) div 2 ^ 32 + 1) * 2 ^ 32"
    using dividend_less_div_times [of "2 ^ 32" "unat (cur_rid nd)"]
    by simp
  moreover have "(unat (cur_rid nd) div 2 ^ 32 + 1) * 2 ^ 32 \<le> nat t * 2 ^ 32"
    by (rule mult_le_mono1) (use assms(1) True in linarith)
  ultimately show ?thesis
    using True by (simp add: new_rid_def Let_def word_less_nat_alt)
next
  case False
  moreover have "(ucast (-1 :: u64) :: u32) = 0xffffffff" by code_simp
  ultimately have "cur_rid nd \<noteq> -1" by metis
  then have "unat (cur_rid nd + 1) = unat (cur_rid nd) + 1"
    using unatSuc [of "cur_rid nd"] by (simp add: add.commute eq_neg_iff_add_eq_0)
  then show ?thesis
    using False by (simp add: new_rid_def Let_def word_less_nat_alt)
qed

subsection \<open>Properties\<close>

text \<open>
  C39: every node the constructor accepts is well formed: it has \<open>3f + 1\<close> replicas, at most 32, no more
  than principals; its own identifier is one of a principal; and the principal with index \<open>i\<close> has
  identifier \<open>i\<close> and the keys of the channels from \<open>i\<close>, all of them for the node itself and the one to this
  node for the others.
\<close>

theorem node_new_well_formed:
  assumes "node_new c cfg addr port priv tv = Inr nd" "length (cf_lines cfg) = nat (cf_num_principals cfg)"
  shows "node_ok nd"
  using assms by (rule node_new_facts)

definition demo_crypto :: crypto where
  "demo_crypto = \<lparr>cr_umac = (\<lambda>k m u. take 8 (map ucast k @ replicate 8 (of_nat (length m)))),
     cr_sign = (\<lambda>pq m. fst pq * snd pq), cr_verify = (\<lambda>k m x. x = k),
     cr_encrypt = (\<lambda>k m. length m), cr_decrypt = (\<lambda>pq x n. replicate n 0),
     cr_bits = (\<lambda>n. 8 * n), cr_raw = (\<lambda>x. replicate x 0), cr_of_raw = length\<rparr>"

definition demo_config :: config where
  "demo_config = \<lparr>cf_max_faulty = 1, cf_num_principals = 5, cf_group = (99, 7000),
     cf_lines = map (\<lambda>i. \<lparr>cl_host = ''h'', cl_addr = of_nat i, cl_port = 6000, cl_pk = 15\<rparr>) [0..<5]\<rparr>"

definition demo_node :: "nat \<Rightarrow> node" where
  "demo_node i = projr (node_new demo_crypto demo_config (Some (of_nat i)) 0 (Some (3, 5)) 1000)"

lemma demo_crypto_ok: "crypto_ok demo_crypto"
  by (simp add: crypto_ok_def demo_crypto_def zl_UMAC_size_def min_def)

lemma demo_node_new:
  assumes "i < 5"
  shows "node_new demo_crypto demo_config (Some (of_nat i)) 0 (Some (3, 5)) 1000 = Inr (demo_node i)"
    and "node_id (demo_node i) = int i"
proof -
  have "i = 0 \<or> i = 1 \<or> i = 2 \<or> i = 3 \<or> i = 4" using assms by linarith
  then show "node_new demo_crypto demo_config (Some (of_nat i)) 0 (Some (3, 5)) 1000 = Inr (demo_node i)"
    "node_id (demo_node i) = int i"
    by (auto simp: demo_node_def node_new_def demo_config_def Max_num_replicas_def Let_def upt_rec)
qed

lemma demo_config_lines: "length (cf_lines demo_config) = nat (cf_num_principals demo_config)"
  by (simp add: demo_config_def)

theorem node_new_well_formed_witness: "node_ok (demo_node 2) \<and> node_id (demo_node 2) = 2"
  using node_new_well_formed [OF demo_node_new(1) demo_config_lines, of 2] demo_node_new(2) [of 2] by simp

text \<open>
  C18: the vector of MACs that a node writes for a message is accepted by every replica built from the
  same configuration, other than the node itself: the place the receiver looks at is the place of
  the MAC made with the key of the channel between the two, for senders that are replicas and
  for clients.
\<close>

theorem mac_vector_accepted:
  assumes "crypto_ok c" "length (cf_lines cfg) = nat (cf_num_principals cfg)"
    and "node_new c cfg addrA portA privA tvA = Inr A" "node_new c cfg addrB portB privB tvB = Inr B"
    and "node_id B < num_replicas B" "node_id A \<noteq> node_id B"
    and "gen_auth c A s = Inr (dest, A')"
  shows "verify_auth c B (node_id A) s (dest @ rest) = Inr True"
proof -
  note A = node_new_facts [OF assms(3,2)]
  note B = node_new_facts [OF assms(4,2)]
  have "num_replicas A = num_replicas B" "num_principals A = num_principals B"
    using A B by (simp_all add: node_ok_def)
  then show ?thesis
    using auth_roundtrip [OF assms(1) A(1) B(1)] assms(5-7) by blast
qed

theorem mac_vector_accepted_witness:
  "\<exists>dest A'. gen_auth demo_crypto (demo_node 4) [1, 2] = Inr (dest, A') \<and>
     verify_auth demo_crypto (demo_node 3) 4 [1, 2] dest = Inr True"
proof -
  have ok: "node_ok (demo_node 4)" "node_ok (demo_node 3)"
    using node_new_facts(1) [OF demo_node_new(1) demo_config_lines] by simp_all
  have "num_replicas (demo_node 3) = 4"
    using node_new_facts [OF demo_node_new(1) demo_config_lines, of 3] by (simp add: node_ok_def demo_config_def)
  moreover obtain dest A' where "gen_auth demo_crypto (demo_node 4) [1, 2] = Inr (dest, A')"
    using gen_auth_eq [OF ok(1)] by blast
  ultimately show ?thesis
    using mac_vector_accepted [OF demo_crypto_ok demo_config_lines demo_node_new(1) demo_node_new(1), of 4 3 "[1, 2]" dest A' "[]"]
      demo_node_new(2) [of 3] demo_node_new(2) [of 4] by simp
qed

text \<open>
  C40: a new request identifier is larger than the previous one, provided that, when the lower
  half of the counter is exhausted, the clock has left the second of the last time stamp.
\<close>

theorem new_rid_larger:
  assumes "(ucast (cur_rid nd) :: u32) = 0xffffffff \<Longrightarrow> unat (cur_rid nd) div 2 ^ 32 < nat t" "0 \<le> t" "t < 2 ^ 31"
  shows "cur_rid nd < fst (new_rid t nd)"
  using assms by (rule new_rid_step)

theorem new_rid_larger_witness:
  "let nd = (demo_node 1)\<lparr>cur_rid := 0x3ffffffff\<rparr> in cur_rid nd < fst (new_rid 4 nd)"
proof -
  have "(0x3ffffffff :: u64) < fst (new_rid 4 ((demo_node 1)\<lparr>cur_rid := 0x3ffffffff\<rparr>))"
    using new_rid_larger [of "(demo_node 1)\<lparr>cur_rid := 0x3ffffffff\<rparr>" 4] by simp
  then show ?thesis by (simp add: Let_def)
qed

end
