(* ===== verification/Aborts.thy ===== *)
theory Aborts
  imports ZNode ReqHistory
begin

section \<open>The messages of the recovery: \<^verbatim>\<open>zl_Abort\<close>, \<^verbatim>\<open>zl_Missing\<close>, \<^verbatim>\<open>zl_Get_a_grip\<close>, \<^verbatim>\<open>zl_Panic\<close>\<close>

text \<open>
  When a replica stops, it sends its history in a signed \<open>zl_Abort\<close>; replicas that lack a request ask
  for it with a \<open>zl_Missing\<close> and get it in a \<open>zl_Get_a_grip\<close>. The messages are the bytes of
  \<open>zl_message\<close>; the offsets are those of the structures in a 32-bit build (\<open>sizeof(zl_Abort_rep)\<close> is 60,
  of \<open>zl_Missing_rep\<close> 36, of \<open>zl_Get_a_grip_rep\<close> 32, of \<open>zl_Panic_rep\<close> 24). Products with \<open>sizeof\<close>
  are 32-bit and wrap.

  The requests are of an arbitrary type; their client, identifier and digest are the functions
  \<open>cidf\<close>, \<open>ridf\<close>, \<open>digf\<close>. The second half is \<open>zl_Abort_certificate\<close>, the collection of one abort
  message per replica.
\<close>

definition zl_Panic_tag :: int where "zl_Panic_tag = 4"
definition zl_Abort_tag :: int where "zl_Abort_tag = 5"
definition zl_Missing_tag :: int where "zl_Missing_tag = 6"
definition zl_Get_a_grip_tag :: int where "zl_Get_a_grip_tag = 7"

record ahe =
  ahe_cid :: int
  ahe_rid :: request_id
  ahe_d :: digest

definition Abort_rep_size :: nat where "Abort_rep_size = 60"
definition Missing_rep_size :: nat where "Missing_rep_size = 36"
definition Get_a_grip_rep_size :: nat where "Get_a_grip_rep_size = 32"
definition Panic_rep_size :: nat where "Panic_rep_size = 24"
definition tuple_size :: nat where "tuple_size = 4 + 8 + 16"

subsection \<open>Histories: signing and verifying\<close>

text \<open>
  \<open>sign\<close> and \<open>verify\<close> are the same code in \<open>zl_Abort\<close> and \<open>zl_Missing\<close>, up to the size of the fixed part
  \<open>rs\<close>, the \<open>short\<close> field \<open>hs\<close> with the number of entries, the field \<open>d\<close> with the digest and the field \<open>r\<close> with
  the identifier of the replica.
\<close>

definition sign_tuples :: "crypto \<Rightarrow> node \<Rightarrow> nat \<Rightarrow> int \<Rightarrow> zl_message \<Rightarrow> zl_message result" where
  "sign_tuples c nd rs hs m =
     (let old_size = wrap32 (int rs + hs * int tuple_size) in
      rbind (sig_size nd (-1)) (\<lambda>ss.
      if wrap32 (msize m - old_size) < int ss then Inl Process_exit
      else
        rbind (msg_set_size m (old_size + int ss)) (\<lambda>m1.
        rbind (gen_signature c nd (contents_upto m1 rs)) (\<lambda>sig.
        msg_put m1 (nat old_size) sig))))"

definition verify_tuples :: "crypto \<Rightarrow> node \<Rightarrow> nat \<Rightarrow> int \<Rightarrow> digest \<Rightarrow> int \<Rightarrow> zl_message \<Rightarrow> bool result" where
  "verify_tuples c nd rs hs d r m =
     (if \<not> is_replica nd r then Inr False
      else case i_to_p nd r of
        None \<Rightarrow> Inl Null_deref
      | Some p \<Rightarrow>
          (let size_wo_MAC = wrap32 (int rs + hs * int tuple_size) in
           rbind (msg_read m rs (nat (wrap32 (size_wo_MAC - int rs)))) (\<lambda>body.
           if Digest_of body \<noteq> d then Inr False
           else if wrap32 (msg_size m - size_wo_MAC) < int (p_ssize p) then Inr False
           else verify_signature c (node_id nd) p (contents_upto m rs)
                  (drop (nat size_wo_MAC - header_size) (m_payload m)) True)))"

subsection \<open>\<open>zl_Abort\<close>\<close>

definition ab_id :: "zl_message \<Rightarrow> int" where
  "ab_id m = bytes_int32 (msg_field m 8 4)"

definition ab_request_id :: "zl_message \<Rightarrow> request_id" where
  "ab_request_id m = bytes_u64 (msg_field m 12 8)"

definition ab_aborted_request_digest :: "zl_message \<Rightarrow> digest" where
  "ab_aborted_request_digest m = bytes_digest (msg_field m 20 16)"

definition ab_digest :: "zl_message \<Rightarrow> digest" where
  "ab_digest m = bytes_digest (msg_field m 36 16)"

definition ab_hist_size :: "zl_message \<Rightarrow> nat" where
  "ab_hist_size m = le_nat (msg_field m 52 2)"

definition ab_hist_short :: "zl_message \<Rightarrow> int" where
  "ab_hist_short m = bytes_short (msg_field m 52 2)"

text \<open>One round of the loop of the constructor: the message and \<open>offset\<close>.\<close>

definition abort_fill ::
  "('r \<Rightarrow> int) \<Rightarrow> ('r \<Rightarrow> request_id) \<Rightarrow> ('r \<Rightarrow> digest) \<Rightarrow> node \<Rightarrow> 'r req_history \<Rightarrow>
   zl_message \<times> nat \<Rightarrow> nat \<Rightarrow> (zl_message \<times> nat) result" where
  "abort_fill cidf ridf digf nd req_h s i =
     (case s of (m, off) \<Rightarrow>
        rbind (sig_size nd (-1)) (\<lambda>ss.
        if int (off + tuple_size) > wrap32 (zl_Max_message_size - int ss) then Inl Process_exit
        else
          rbind (array_slot (rh_arr req_h) (int i)) (\<lambda>rhe.
          case rhe_req rhe of
            None \<Rightarrow> Inl Null_deref
          | Some r \<Rightarrow>
              rbind (msg_put m off (int32_bytes (cidf r))) (\<lambda>m1.
              rbind (msg_put m1 (off + 4) (u64_bytes (ridf r))) (\<lambda>m2.
              rbind (msg_put m2 (off + 4 + 8) (digest_bytes (digf r))) (\<lambda>m3.
              Inr (m3, off + 4 + 8 + 16)))))))"

definition abort_new ::
  "('r \<Rightarrow> int) \<Rightarrow> ('r \<Rightarrow> request_id) \<Rightarrow> ('r \<Rightarrow> digest) \<Rightarrow> node \<Rightarrow> (nat \<Rightarrow> byte list) \<Rightarrow> int \<Rightarrow> request_id \<Rightarrow>
   'r req_history \<Rightarrow> zl_message result" where
  "abort_new cidf ridf digf nd junk p_replica p_rid req_h =
     (let m0 = msg_tagged junk zl_Abort_tag zl_Max_message_size; n = array_size (rh_arr req_h) in
      rbind (msg_put m0 12 (u64_bytes p_rid)) (\<lambda>m1.
      rbind (msg_put m1 8 (int32_bytes p_replica)) (\<lambda>m2.
      rbind (for_loop (abort_fill cidf ridf digf nd req_h) [0..<n] (m2, Abort_rep_size)) (\<lambda>(m3, off).
      rbind (msg_put m3 52 (short_bytes (int n))) (\<lambda>m4.
      rbind (msg_set_size m4 (int off)) (\<lambda>m5.
      rbind (msg_read m5 Abort_rep_size (off - Abort_rep_size)) (\<lambda>body.
      msg_put m5 36 (digest_bytes (Digest_of body)))))))))"

definition abort_convert :: "zl_message \<Rightarrow> zl_message option" where
  "abort_convert m1 = (if \<not> has_tag m1 zl_Abort_tag (int Abort_rep_size) then None else Some (msg_trim m1))"

definition abort_sign :: "crypto \<Rightarrow> node \<Rightarrow> zl_message \<Rightarrow> zl_message result" where
  "abort_sign c nd m = sign_tuples c nd Abort_rep_size (ab_hist_short m) m"

definition abort_verify :: "crypto \<Rightarrow> node \<Rightarrow> zl_message \<Rightarrow> bool result" where
  "abort_verify c nd m = verify_tuples c nd Abort_rep_size (ab_hist_short m) (ab_digest m) (ab_id m) m"

subsection \<open>\<open>zl_Missing\<close>\<close>

definition mi_id :: "zl_message \<Rightarrow> int" where
  "mi_id m = bytes_int32 (msg_field m 8 4)"

definition mi_digest :: "zl_message \<Rightarrow> digest" where
  "mi_digest m = bytes_digest (msg_field m 12 16)"

definition mi_hist_size :: "zl_message \<Rightarrow> nat" where
  "mi_hist_size m = le_nat (msg_field m 28 2)"

definition mi_hist_short :: "zl_message \<Rightarrow> int" where
  "mi_hist_short m = bytes_short (msg_field m 28 2)"

definition missing_fill :: "node \<Rightarrow> zl_message \<times> nat \<Rightarrow> ahe \<Rightarrow> (zl_message \<times> nat) result" where
  "missing_fill nd s e =
     (case s of (m, off) \<Rightarrow>
        rbind (sig_size nd (-1)) (\<lambda>ss.
        if int (off + 4 + 8) > wrap32 (zl_Max_message_size - int ss) then Inl Process_exit
        else
          rbind (msg_put m off (int32_bytes (ahe_cid e))) (\<lambda>m1.
          rbind (msg_put m1 (off + 4) (u64_bytes (ahe_rid e))) (\<lambda>m2.
          Inr (m2, off + 4 + 8)))))"

definition missing_new :: "node \<Rightarrow> (nat \<Rightarrow> byte list) \<Rightarrow> int \<Rightarrow> ahe list \<Rightarrow> zl_message result" where
  "missing_new nd junk p_replica missing =
     (let m0 = msg_tagged junk zl_Missing_tag zl_Max_message_size in
      rbind (msg_put m0 8 (int32_bytes p_replica)) (\<lambda>m1.
      rbind (for_loop (missing_fill nd) missing (m1, Missing_rep_size)) (\<lambda>(m2, off).
      rbind (msg_put m2 28 (short_bytes (int (length missing)))) (\<lambda>m3.
      rbind (msg_read m3 Missing_rep_size (off - Missing_rep_size)) (\<lambda>body.
      rbind (msg_put m3 12 (digest_bytes (Digest_of body))) (\<lambda>m4.
      msg_set_size m4 (int off)))))))"

definition missing_convert :: "zl_message \<Rightarrow> zl_message option" where
  "missing_convert m1 = (if \<not> has_tag m1 zl_Missing_tag (int Missing_rep_size) then None else Some (msg_trim m1))"

definition missing_sign :: "crypto \<Rightarrow> node \<Rightarrow> zl_message \<Rightarrow> zl_message result" where
  "missing_sign c nd m = sign_tuples c nd Missing_rep_size (mi_hist_short m) m"

definition missing_verify :: "crypto \<Rightarrow> node \<Rightarrow> zl_message \<Rightarrow> bool result" where
  "missing_verify c nd m = verify_tuples c nd Missing_rep_size (mi_hist_short m) (mi_digest m) (mi_id m) m"

subsection \<open>\<open>zl_Get_a_grip\<close> and \<open>zl_Panic\<close>\<close>

definition grip_request_id :: "zl_message \<Rightarrow> request_id" where
  "grip_request_id m = bytes_u64 (msg_field m 8 8)"

definition grip_client_id :: "zl_message \<Rightarrow> int" where
  "grip_client_id m = bytes_int32 (msg_field m 16 4)"

definition grip_id :: "zl_message \<Rightarrow> int" where
  "grip_id m = bytes_int32 (msg_field m 20 4)"

definition grip_seqno :: "zl_message \<Rightarrow> seqno" where
  "grip_seqno m = sint (bytes_u64 (msg_field m 24 8))"

definition grip_stored_request :: "zl_message \<Rightarrow> byte list" where
  "grip_stored_request m = drop (Get_a_grip_rep_size - header_size) (m_payload m)"

text \<open>\<open>r\<close> are the \<open>r->size()\<close> bytes of the request.\<close>

definition grip_new :: "(nat \<Rightarrow> byte list) \<Rightarrow> int \<Rightarrow> request_id \<Rightarrow> int \<Rightarrow> seqno \<Rightarrow> byte list \<Rightarrow> zl_message result" where
  "grip_new junk cid req_id replica s r =
     (let m0 = msg_tagged junk zl_Get_a_grip_tag zl_Max_message_size in
      rbind (msg_put m0 16 (int32_bytes cid)) (\<lambda>m1.
      rbind (msg_put m1 8 (u64_bytes req_id)) (\<lambda>m2.
      rbind (msg_put m2 20 (int32_bytes replica)) (\<lambda>m3.
      rbind (msg_put m3 24 (u64_bytes (of_int s))) (\<lambda>m4.
      rbind (msg_set_size m4 (int (Get_a_grip_rep_size + length r))) (\<lambda>m5.
      msg_put m5 Get_a_grip_rep_size r))))))"

definition grip_convert :: "zl_message \<Rightarrow> zl_message option" where
  "grip_convert m1 = (if \<not> has_tag m1 zl_Get_a_grip_tag (int Get_a_grip_rep_size) then None else Some m1)"

definition panic_request_id :: "zl_message \<Rightarrow> request_id" where
  "panic_request_id m = bytes_u64 (msg_field m 8 8)"

definition panic_client_id :: "zl_message \<Rightarrow> int" where
  "panic_client_id m = bytes_int32 (msg_field m 16 4)"

definition panic_new :: "(nat \<Rightarrow> byte list) \<Rightarrow> int \<Rightarrow> request_id \<Rightarrow> zl_message result" where
  "panic_new junk cid rid =
     (let m0 = msg_tagged junk zl_Panic_tag zl_Max_message_size in
      rbind (msg_put m0 16 (int32_bytes cid)) (\<lambda>m1.
      rbind (msg_put m1 8 (u64_bytes rid)) (\<lambda>m2.
      msg_set_size m2 (int Panic_rep_size))))"

definition panic_convert :: "zl_message \<Rightarrow> zl_message option" where
  "panic_convert m1 = (if \<not> has_tag m1 zl_Panic_tag (int Panic_rep_size) then None else Some m1)"

subsection \<open>Entries of a history\<close>

definition ahe_bytes :: "ahe \<Rightarrow> byte list" where
  "ahe_bytes e = int32_bytes (ahe_cid e) @ u64_bytes (ahe_rid e) @ digest_bytes (ahe_d e)"

text \<open>The three \<open>memcpy\<close> calls with which the history extraction reads an entry.\<close>

definition read_ahe :: "zl_message \<Rightarrow> nat \<Rightarrow> ahe result" where
  "read_ahe m off =
     rbind (msg_read m off 4) (\<lambda>cb.
     rbind (msg_read m (off + 4) 8) (\<lambda>rb.
     rbind (msg_read m (off + 4 + 8) 16) (\<lambda>db.
     Inr \<lparr>ahe_cid = bytes_int32 cb, ahe_rid = bytes_u64 rb, ahe_d = bytes_digest db\<rparr>)))"

definition ahe_of_bytes :: "byte list \<Rightarrow> ahe" where
  "ahe_of_bytes bs = \<lparr>ahe_cid = bytes_int32 (take 4 bs), ahe_rid = bytes_u64 (take 8 (drop 4 bs)),
     ahe_d = bytes_digest (take 16 (drop 12 bs))\<rparr>"

text \<open>The history a message carries.\<close>

definition abort_history :: "zl_message \<Rightarrow> ahe list" where
  "abort_history m = map (\<lambda>j. ahe_of_bytes (msg_field m (Abort_rep_size + tuple_size * j) tuple_size)) [0..<ab_hist_size m]"

lemma length_ahe_bytes [simp]: "length (ahe_bytes e) = 28"
  by (simp add: ahe_bytes_def)

lemma ahe_of_bytes_bytes: "int32_range (ahe_cid e) \<Longrightarrow> ahe_of_bytes (ahe_bytes e) = e"
  by (simp add: ahe_of_bytes_def ahe_bytes_def)

lemma take_drop_take: "k + n \<le> N \<Longrightarrow> take n (drop k (take N xs)) = take n (drop k xs)"
  by (simp add: drop_take)

lemma read_ahe_eq:
  assumes "8 \<le> off" "off + 28 \<le> length (m_payload m) + 8"
  shows "read_ahe m off = Inr (ahe_of_bytes (msg_field m off 28))"
proof -
  have "msg_read m (off + k) n = Inr (take n (drop k (msg_field m off 28)))" if "k + n \<le> 28" for k n
  proof -
    have "off + k - 8 + n \<le> length (m_payload m)" using assms that by linarith
    then have "msg_read m (off + k) n = Inr (take n (drop (off + k - 8) (m_payload m)))"
      by (simp add: msg_read_def read_bytes_def header_size_def)
    moreover have "take n (drop k (take 28 (drop (off - 8) (m_payload m)))) = take n (drop (off + k - 8) (m_payload m))"
      using assms(1) that by (simp add: take_drop_take add.commute [of k])
    ultimately show ?thesis by (simp add: msg_field_def field_def header_size_def)
  qed
  note r = this
  show ?thesis
    using r [of 0 4] r [of 4 8] r [of 12 16] by (simp add: read_ahe_def ahe_of_bytes_def add.assoc)
qed

lemma msg_put_ok:
  assumes "8 \<le> off" "off + length bs \<le> length (m_payload m) + 8"
  obtains p where "msg_put m off bs = Inr (m\<lparr>m_payload := p\<rparr>)" "length p = length (m_payload m)"
    "field p (off - 8) (length bs) = bs" "drop (off - 8) p = bs @ drop (off - 8 + length bs) (m_payload m)"
    "\<And>o' n. o' + n \<le> off - 8 \<or> off - 8 + length bs \<le> o' \<Longrightarrow> field p o' n = field (m_payload m) o' n"
proof -
  have room: "off - 8 + length bs \<le> length (m_payload m)" using assms by linarith
  let ?p = "take (off - 8) (m_payload m) @ bs @ drop (off - 8 + length bs) (m_payload m)"
  have p: "put_bytes (m_payload m) (off - 8) bs = Inr ?p"
    using room by (rule put_bytes_ok)
  show ?thesis
  proof (rule that [of ?p])
    show "msg_put m off bs = Inr (m\<lparr>m_payload := ?p\<rparr>)"
      by (simp only: msg_put_def header_size_def p rbind_Inr)
    show "drop (off - 8) ?p = bs @ drop (off - 8 + length bs) (m_payload m)"
      using room by simp
    show "field ?p o' n = field (m_payload m) o' n" if "o' + n \<le> off - 8 \<or> off - 8 + length bs \<le> o'" for o' n
      using that field_put_before [OF p] field_put_after [OF p] by blast
  qed (use put_bytes_length [OF p] field_put_same [OF p refl] in simp_all)
qed

subsection \<open>Building and signing an abort message\<close>

text \<open>The entry of the history for a request.\<close>

definition req_ahe :: "('r \<Rightarrow> int) \<Rightarrow> ('r \<Rightarrow> request_id) \<Rightarrow> ('r \<Rightarrow> digest) \<Rightarrow> 'r \<Rightarrow> ahe" where
  "req_ahe cidf ridf digf r = \<lparr>ahe_cid = cidf r, ahe_rid = ridf r, ahe_d = digf r\<rparr>"

lemma msg_put_append:
  assumes "8 \<le> off"
  shows "rbind (msg_put m off a) (\<lambda>m1. msg_put m1 (off + length a) b) = msg_put m off (a @ b)"
proof -
  have "off + length a - 8 = off - 8 + length a" using assms by simp
  then show ?thesis
    using put_bytes_append [of "m_payload m" "off - 8" a b, symmetric]
    by (simp add: msg_put_def header_size_def) (simp add: rbind_def split: sum.splits)
qed

lemma msg_put3:
  assumes "8 \<le> off"
  shows "rbind (msg_put m off a) (\<lambda>m1. rbind (msg_put m1 (off + length a) b) (\<lambda>m2.
     rbind (msg_put m2 (off + length a + length b) d) k)) = rbind (msg_put m off (a @ b @ d)) k"
proof -
  have "rbind (msg_put m1 (off + length a) b) (\<lambda>m2. rbind (msg_put m2 (off + length a + length b) d) k) =
      rbind (msg_put m1 (off + length a) (b @ d)) k" for m1
    using msg_put_append [of "off + length a" m1 b d, symmetric] assms by (simp add: rbind_assoc)
  then show ?thesis
    using msg_put_append [OF assms, of m a "b @ d", symmetric] by (simp add: rbind_assoc)
qed

lemma abort_fill_step:
  assumes "8 \<le> off" "off + 28 + ss \<le> 60000" "length (m_payload m) = 59992"
    and "sig_size nd (-1) = Inr ss" "array_slot (rh_arr h) (int i) = Inr e" "rhe_req e = Some r"
  shows "abort_fill cidf ridf digf nd h (m, off) i =
     rbind (msg_put m off (ahe_bytes (req_ahe cidf ridf digf r))) (\<lambda>m'. Inr (m', off + 28))"
proof -
  have "\<not> int (off + tuple_size) > wrap32 (zl_Max_message_size - int ss)"
    using assms(1,2) by (simp add: wrap32_def zl_Max_message_size_def tuple_size_def)
  moreover have "rbind (msg_put m off (int32_bytes (cidf r))) (\<lambda>m1.
      rbind (msg_put m1 (off + 4) (u64_bytes (ridf r))) (\<lambda>m2.
      rbind (msg_put m2 (off + 4 + 8) (digest_bytes (digf r))) (\<lambda>m3. Inr (m3, off + 28)))) =
      rbind (msg_put m off (ahe_bytes (req_ahe cidf ridf digf r))) (\<lambda>m'. Inr (m', off + 28))"
    using msg_put3 [OF assms(1), of m "int32_bytes (cidf r)" "u64_bytes (ridf r)" "digest_bytes (digf r)"]
    by (simp add: ahe_bytes_def req_ahe_def)
  ultimately show ?thesis
    using assms by (simp add: abort_fill_def add.commute [of off])
qed

lemma abort_fill_loop:
  assumes h: "holds (rh_arr h) es" "map rhe_req es = map Some rs" and ss: "sig_size nd (-1) = Inr ss"
    and L: "length (m_payload m) = 59992"
  shows "k \<le> length rs \<Longrightarrow> 60 + 28 * k + ss \<le> 60000 \<Longrightarrow>
     \<exists>p. for_loop (abort_fill cidf ridf digf nd h) [0..<k] (m, 60) = Inr (m\<lparr>m_payload := p\<rparr>, 60 + 28 * k) \<and>
        length p = 59992 \<and> field p 52 (28 * k) = concat (map (ahe_bytes \<circ> req_ahe cidf ridf digf) (take k rs)) \<and>
        (\<forall>o' n. o' + n \<le> 52 \<longrightarrow> field p o' n = field (m_payload m) o' n)"
proof (induction k)
  case 0
  show ?case using L by (intro exI [of _ "m_payload m"]) (simp add: field_def)
next
  case (Suc k)
  have "k \<le> length rs" "60 + 28 * k + ss \<le> 60000" using Suc.prems by auto
  from Suc.IH [OF this] obtain p where p: "for_loop (abort_fill cidf ridf digf nd h) [0..<k] (m, 60) = Inr (m\<lparr>m_payload := p\<rparr>, 60 + 28 * k)"
    "length p = 59992" "field p 52 (28 * k) = concat (map (ahe_bytes \<circ> req_ahe cidf ridf digf) (take k rs))"
    "\<forall>o' n. o' + n \<le> 52 \<longrightarrow> field p o' n = field (m_payload m) o' n"
    by blast
  have k: "k < length es" "rhe_req (es ! k) = Some (rs ! k)"
    using Suc.prems h(2) map_eq_imp_length_eq [OF h(2)] nth_map [of k es rhe_req] nth_map [of k rs Some] by auto
  let ?m = "m\<lparr>m_payload := p\<rparr>" and ?e = "ahe_bytes (req_ahe cidf ridf digf (rs ! k))"
  have room: "8 \<le> 60 + 28 * k" "60 + 28 * k + length ?e \<le> length (m_payload ?m) + 8"
    using p(2) Suc.prems by simp_all
  obtain q where q: "msg_put ?m (60 + 28 * k) ?e = Inr (?m\<lparr>m_payload := q\<rparr>)" "length q = length (m_payload ?m)"
    "field q (60 + 28 * k - 8) (length ?e) = ?e"
    "drop (60 + 28 * k - 8) q = ?e @ drop (60 + 28 * k - 8 + length ?e) (m_payload ?m)"
    "\<And>o' n. o' + n \<le> 60 + 28 * k - 8 \<or> 60 + 28 * k - 8 + length ?e \<le> o' \<Longrightarrow> field q o' n = field (m_payload ?m) o' n"
    by (rule msg_put_ok [OF room]) (rule that)
  have q': "field q (52 + 28 * k) 28 = ?e" "\<And>o' n. o' + n \<le> 52 + 28 * k \<Longrightarrow> field q o' n = field p o' n"
    using q(3,5) by simp_all
  have "abort_fill cidf ridf digf nd h (?m, 60 + 28 * k) k = Inr (m\<lparr>m_payload := q\<rparr>, 60 + 28 * Suc k)"
    using abort_fill_step [OF _ _ _ ss holds_slot [OF h(1) k(1)] k(2), of "60 + 28 * k" ?m] p(2) q(1) Suc.prems by simp
  then have "for_loop (abort_fill cidf ridf digf nd h) [0..<Suc k] (m, 60) = Inr (m\<lparr>m_payload := q\<rparr>, 60 + 28 * Suc k)"
    using p(1) by (simp add: for_loop_append)
  moreover have "field q 52 (28 * Suc k) = concat (map (ahe_bytes \<circ> req_ahe cidf ridf digf) (take (Suc k) rs))"
    using field_split [of q 52 "28 * k" 28] q'(1) q'(2) [of 52 "28 * k"] p(3) Suc.prems
    by (simp add: take_Suc_conv_app_nth add.commute)
  moreover have "\<forall>o' n. o' + n \<le> 52 \<longrightarrow> field q o' n = field (m_payload m) o' n"
    using q'(2) p(4) by simp
  moreover have "length q = 59992" using q(2) p(2) by simp
  ultimately show ?case by blast
qed

text \<open>
  \<open>wrote m off bs m'\<close>: the message \<open>m'\<close> is \<open>m\<close> with the bytes \<open>bs\<close> at offset \<open>off\<close> of the contents.
\<close>

definition wrote :: "zl_message \<Rightarrow> nat \<Rightarrow> byte list \<Rightarrow> zl_message \<Rightarrow> bool" where
  "wrote m off bs m' \<longleftrightarrow> m' = m\<lparr>m_payload := m_payload m'\<rparr> \<and> length (m_payload m') = length (m_payload m) \<and>
     msg_field m' off (length bs) = bs \<and> drop (off - 8) (m_payload m') = bs @ drop (off - 8 + length bs) (m_payload m) \<and>
     (\<forall>o' n. 8 \<le> o' \<longrightarrow> o' + n \<le> off \<or> off + length bs \<le> o' \<longrightarrow> msg_field m' o' n = msg_field m o' n)"

lemma msg_put_wrote:
  assumes "8 \<le> off" "off + length bs \<le> length (m_payload m) + 8"
  obtains m' where "msg_put m off bs = Inr m'" "wrote m off bs m'"
proof -
  obtain p where p: "msg_put m off bs = Inr (m\<lparr>m_payload := p\<rparr>)" "length p = length (m_payload m)"
    "field p (off - 8) (length bs) = bs" "drop (off - 8) p = bs @ drop (off - 8 + length bs) (m_payload m)"
    "\<And>o' n. o' + n \<le> off - 8 \<or> off - 8 + length bs \<le> o' \<Longrightarrow> field p o' n = field (m_payload m) o' n"
    by (rule msg_put_ok [OF assms]) (rule that)
  have "field p (o' - 8) n = field (m_payload m) (o' - 8) n"
    if "8 \<le> o'" "o' + n \<le> off \<or> off + length bs \<le> o'" for o' n
    by (rule p(5)) (use that assms(1) in linarith)
  then have "wrote m off bs (m\<lparr>m_payload := p\<rparr>)"
    using p(2-4) by (simp add: wrote_def msg_field_def header_size_def)
  with p(1) show ?thesis by (rule that)
qed

lemma wrote_same:
  assumes "wrote m off bs m'"
  shows "length (m_payload m') = length (m_payload m)" "m_tag m' = m_tag m" "m_extra m' = m_extra m"
    "m_size m' = m_size m" "m_max_size m' = m_max_size m" "msg_ok m' = msg_ok m"
proof -
  obtain p where p: "m' = m\<lparr>m_payload := p\<rparr>" "length p = length (m_payload m)"
    using assms unfolding wrote_def by metis
  then show "length (m_payload m') = length (m_payload m)" "m_tag m' = m_tag m" "m_extra m' = m_extra m"
    "m_size m' = m_size m" "m_max_size m' = m_max_size m" "msg_ok m' = msg_ok m"
    by (simp_all add: msg_ok_def)
qed

lemma wrote_field: "wrote m off bs m' \<Longrightarrow> n = length bs \<Longrightarrow> msg_field m' off n = bs"
  by (simp add: wrote_def)

lemma wrote_other:
  "wrote m off bs m' \<Longrightarrow> 8 \<le> o' \<Longrightarrow> o' + n \<le> off \<or> off + length bs \<le> o' \<Longrightarrow> msg_field m' o' n = msg_field m o' n"
  unfolding wrote_def by blast

text \<open>Setting the size keeps every byte below the new size.\<close>

lemma msg_set_size_resized:
  assumes "msg_ok m" "8 \<le> sz" "int sz \<le> m_max_size m"
  obtains m' where "msg_set_size m (int sz) = Inr m'" "length (m_payload m') = length (m_payload m)" "m_tag m' = m_tag m"
    "m_size m' = ALIGNED_SIZE (int sz)" "m_max_size m' = m_max_size m" "msg_ok m'"
    "\<And>o' n. 8 \<le> o' \<Longrightarrow> o' + n \<le> sz \<Longrightarrow> msg_field m' o' n = msg_field m o' n"
proof -
  have "8 \<le> int sz" using assms(2) by simp
  then obtain p where p: "msg_set_size m (int sz) = Inr (m\<lparr>m_payload := p, m_size := ALIGNED_SIZE (int sz)\<rparr>)"
    "length p = length (m_payload m)" "ALIGNED_SIZE (int sz) \<le> m_max_size m"
    "\<And>off n. off + n \<le> nat (int sz) - 8 \<Longrightarrow> field p off n = field (m_payload m) off n"
    by (rule msg_set_size_fields [OF assms(1) _ assms(3)]) (rule that)
  show ?thesis
  proof (rule that [OF p(1)])
    show "msg_ok (m\<lparr>m_payload := p, m_size := ALIGNED_SIZE (int sz)\<rparr>)"
      using assms(1) p(2,3) by (simp add: msg_ok_def)
    show "msg_field (m\<lparr>m_payload := p, m_size := ALIGNED_SIZE (int sz)\<rparr>) o' n = msg_field m o' n"
      if "8 \<le> o'" "o' + n \<le> sz" for o' n
      using p(4) [of "o' - 8" n] that by (simp add: msg_field_def header_size_def)
  qed (simp_all add: p(2))
qed

lemma msg_read_field:
  "8 \<le> off \<Longrightarrow> off + n \<le> length (m_payload m) + 8 \<Longrightarrow> msg_read m off n = Inr (msg_field m off n)"
  by (simp add: msg_read_def msg_field_def read_bytes_field header_size_def)

text \<open>What an abort message with the entries \<open>rs\<close> looks like: the fixed part and the history.\<close>

definition abort_msg :: "zl_message \<Rightarrow> int \<Rightarrow> request_id \<Rightarrow> ahe list \<Rightarrow> bool" where
  "abort_msg m r rid es \<longleftrightarrow>
     msg_field m 8 4 = int32_bytes r \<and> msg_field m 12 8 = u64_bytes rid \<and>
     msg_field m 36 16 = digest_bytes (Digest_of (concat (map ahe_bytes es))) \<and>
     msg_field m 52 2 = short_bytes (int (length es)) \<and>
     msg_field m 60 (28 * length es) = concat (map ahe_bytes es)"

lemma abort_new_facts:
  assumes junk: "\<And>n. length (junk n) = n" and h: "holds (rh_arr h) es" "map rhe_req es = map Some rs"
    and ss: "sig_size nd (-1) = Inr ss" and room: "60 + 28 * length rs + ss \<le> 60000"
  obtains m where "abort_new cidf ridf digf nd junk r rid h = Inr m" "msg_ok m" "m_max_size m = 60000"
    "m_tag m = zl_Abort_tag" "abort_msg m r rid (map (req_ahe cidf ridf digf) rs)"
proof -
  let ?n = "length rs" and ?body = "concat (map ahe_bytes (map (req_ahe cidf ridf digf) rs))"
  define m0 where "m0 = msg_tagged junk zl_Abort_tag zl_Max_message_size"
  have m0: "length (m_payload m0) = 59992" "msg_ok m0" "m_max_size m0 = 60000" "m_tag m0 = zl_Abort_tag"
    using msg_tagged_ok [OF junk, of zl_Max_message_size zl_Abort_tag]
    by (simp_all add: m0_def msg_tagged_def junk header_size_def zl_Max_message_size_def ALIGNED_SIZE_def ALIGNED_def ALIGNMENT_def)
  obtain m1 where m1: "msg_put m0 12 (u64_bytes rid) = Inr m1" "wrote m0 12 (u64_bytes rid) m1"
    by (rule msg_put_wrote [of 12 "u64_bytes rid" m0]) (use m0 in simp_all)
  obtain m2 where m2: "msg_put m1 8 (int32_bytes r) = Inr m2" "wrote m1 8 (int32_bytes r) m2"
    by (rule msg_put_wrote [of 8 "int32_bytes r" m1]) (use m0 wrote_same [OF m1(2)] in simp_all)
  have L2: "length (m_payload m2) = 59992"
    using m0 wrote_same [OF m1(2)] wrote_same [OF m2(2)] by simp
  obtain p where p: "for_loop (abort_fill cidf ridf digf nd h) [0..<?n] (m2, 60) = Inr (m2\<lparr>m_payload := p\<rparr>, 60 + 28 * ?n)"
    "length p = 59992" "field p 52 (28 * ?n) = ?body" "\<forall>o' n. o' + n \<le> 52 \<longrightarrow> field p o' n = field (m_payload m2) o' n"
    using abort_fill_loop [OF h ss L2 order_refl room, of cidf ridf digf] unfolding take_all_iff [THEN iffD2, OF order_refl] map_map
    by blast
  let ?m3 = "m2\<lparr>m_payload := p\<rparr>"
  have f3: "msg_field ?m3 o' n = msg_field m2 o' n" if "o' + n \<le> 60" "8 \<le> o'" for o' n
    using p(4) that by (simp add: msg_field_def header_size_def)
  obtain m4 where m4: "msg_put ?m3 52 (short_bytes (int ?n)) = Inr m4" "wrote ?m3 52 (short_bytes (int ?n)) m4"
    by (rule msg_put_wrote [of 52 "short_bytes (int ?n)" ?m3]) (use p(2) in simp_all)
  have ok3: "msg_ok ?m3" using m0 wrote_same [OF m1(2)] wrote_same [OF m2(2)] p(2) by (simp add: msg_ok_def)
  have ok4: "msg_ok m4" "m_max_size m4 = 60000" "m_tag m4 = zl_Abort_tag" "length (m_payload m4) = 59992"
    using m0 wrote_same [OF m1(2)] wrote_same [OF m2(2)] wrote_same [OF m4(2)] ok3 p(2) by simp_all
  obtain m5 where m5: "msg_set_size m4 (int (60 + 28 * ?n)) = Inr m5" "length (m_payload m5) = length (m_payload m4)"
    "m_tag m5 = m_tag m4" "m_size m5 = ALIGNED_SIZE (int (60 + 28 * ?n))" "m_max_size m5 = m_max_size m4" "msg_ok m5"
    "\<And>o' n. 8 \<le> o' \<Longrightarrow> o' + n \<le> 60 + 28 * ?n \<Longrightarrow> msg_field m5 o' n = msg_field m4 o' n"
    by (rule msg_set_size_resized [OF ok4(1), of "60 + 28 * ?n"]) (use ok4 room that in simp_all)
  have body: "msg_field m5 60 (28 * ?n) = ?body"
    using m5(7) [of 60 "28 * ?n"] wrote_other [OF m4(2), of 60 "28 * ?n"] p(3) by (simp add: msg_field_def header_size_def)
  have rd: "msg_read m5 60 (28 * ?n) = Inr ?body"
    using msg_read_field [of 60 "28 * ?n" m5] body m5(2) ok4(4) room by simp
  obtain m6 where m6: "msg_put m5 36 (digest_bytes (Digest_of ?body)) = Inr m6" "wrote m5 36 (digest_bytes (Digest_of ?body)) m6"
    by (rule msg_put_wrote [of 36 "digest_bytes (Digest_of ?body)" m5]) (use m5(2) ok4 in simp_all)
  have "abort_new cidf ridf digf nd junk r rid h = Inr m6"
    using m1(1) m2(1) p(1) m4(1) m5(1) rd m6(1) holds_size [OF h(1)] map_eq_imp_length_eq [OF h(2)]
    by (simp add: abort_new_def m0_def [symmetric] Abort_rep_size_def)
  moreover have "abort_msg m6 r rid (map (req_ahe cidf ridf digf) rs)"
    using wrote_other [OF m6(2)] wrote_field [OF m6(2)] m5(7) wrote_other [OF m4(2)] wrote_field [OF m4(2)] f3
      wrote_other [OF m2(2)] wrote_field [OF m2(2)] wrote_other [OF m1(2)] wrote_field [OF m1(2)] body
    by (simp add: abort_msg_def)
  ultimately show ?thesis
    using that wrote_same [OF m6(2)] m5 ok4 by simp
qed

lemma abort_msg_cong:
  assumes "abort_msg m r rid es" "\<And>o' n. 8 \<le> o' \<Longrightarrow> o' + n \<le> 60 + 28 * length es \<Longrightarrow> msg_field m' o' n = msg_field m o' n"
  shows "abort_msg m' r rid es"
  using assms by (simp add: abort_msg_def)

lemma abort_msg_fields:
  assumes "abort_msg m r rid es" "length es < 32768"
  shows "ab_hist_size m = length es" "ab_hist_short m = int (length es)"
    "int32_range r \<Longrightarrow> ab_id m = r" "ab_request_id m = rid"
    "ab_digest m = Digest_of (concat (map ahe_bytes es))"
  using assms by (simp_all add: abort_msg_def ab_hist_size_def ab_hist_short_def ab_id_def ab_request_id_def ab_digest_def
      le_nat_short_bytes bytes_short_bytes)

lemma field_concat:
  assumes "field p off (28 * length es) = concat (map ahe_bytes es)" "j < length es"
  shows "field p (off + 28 * j) 28 = ahe_bytes (es ! j)"
proof -
  have "28 * j + 28 \<le> 28 * length es" using assms(2) by simp
  then have "field p (off + 28 * j) 28 = take 28 (drop (28 * j) (field p off (28 * length es)))"
    by (simp add: field_def take_drop_take add.commute)
  also have "\<dots> = ahe_bytes (es ! j)"
    unfolding assms(1) by (rule concat_uniform) (use assms(2) in simp_all)
  finally show ?thesis .
qed

lemma abort_msg_history:
  assumes "abort_msg m r rid es" "length es < 32768" "\<forall>e \<in> set es. int32_range (ahe_cid e)"
  shows "abort_history m = es"
proof (rule nth_equalityI)
  show "length (abort_history m) = length es"
    using abort_msg_fields [OF assms(1,2)] by (simp add: abort_history_def)
  fix j assume "j < length (abort_history m)"
  then have j: "j < length es" using abort_msg_fields [OF assms(1,2)] by (simp add: abort_history_def)
  have "field (m_payload m) (52 + 28 * j) 28 = ahe_bytes (es ! j)"
    using assms(1) j by (intro field_concat) (simp_all add: abort_msg_def msg_field_def header_size_def)
  then show "abort_history m ! j = es ! j"
    using j abort_msg_fields [OF assms(1,2)] assms(3)
    by (simp add: abort_history_def msg_field_def header_size_def Abort_rep_size_def tuple_size_def ahe_of_bytes_bytes)
qed

lemma contents_upto_field: "contents_upto m k = header_bytes m @ msg_field m 8 (k - 8)"
  by (simp add: contents_upto_def msg_field_def field_def header_size_def)

lemma abort_sign_facts:
  assumes m: "msg_ok m" "m_max_size m = 60000" "abort_msg m r rid es" and ss: "sig_size nd (-1) = Inr ss"
    and room: "60 + 28 * length es + ss \<le> 60000"
    and sig: "\<And>src. \<exists>sig. gen_signature c nd src = Inr sig \<and> length sig \<le> ss"
  obtains m' sig rest where "abort_sign c nd m = Inr m'" "msg_ok m'" "m_tag m' = m_tag m" "abort_msg m' r rid es"
    "m_size m' = ALIGNED_SIZE (int (60 + 28 * length es + ss))"
    "gen_signature c nd (contents_upto m' 60) = Inr sig" "drop (52 + 28 * length es) (m_payload m') = sig @ rest"
    "int (length (m_payload m')) = 59992"
proof -
  let ?n = "length es"
  have n: "?n < 32768" using room by simp
  have len: "int (length (m_payload m)) = 59992" using m by (simp add: msg_ok_def header_size_def)
  obtain m1 where m1: "msg_set_size m (int (60 + 28 * ?n + ss)) = Inr m1" "length (m_payload m1) = length (m_payload m)"
    "m_tag m1 = m_tag m" "m_size m1 = ALIGNED_SIZE (int (60 + 28 * ?n + ss))" "m_max_size m1 = m_max_size m" "msg_ok m1"
    "\<And>o' n. 8 \<le> o' \<Longrightarrow> o' + n \<le> 60 + 28 * ?n + ss \<Longrightarrow> msg_field m1 o' n = msg_field m o' n"
    by (rule msg_set_size_resized [OF m(1), of "60 + 28 * ?n + ss"]) (use m room that in simp_all)
  obtain sig where sg: "gen_signature c nd (contents_upto m1 60) = Inr sig" "length sig \<le> ss"
    using sig by blast
  obtain m2 where m2: "msg_put m1 (60 + 28 * ?n) sig = Inr m2" "wrote m1 (60 + 28 * ?n) sig m2"
    by (rule msg_put_wrote [of "60 + 28 * ?n" sig m1]) (use m1(2) len sg(2) room in simp_all)
  have old: "wrap32 (60 + int ?n * int tuple_size) = 60 + 28 * int ?n" "nat (60 + 28 * int ?n) = 60 + 28 * ?n"
    using room by (simp_all add: wrap32_def tuple_size_def)
  have "\<not> wrap32 (msize m - (60 + 28 * int ?n)) < int ss"
    using m(2) room by (simp add: wrap32_def msize_def)
  then have "abort_sign c nd m = Inr m2"
    using m1(1) sg(1) m2(1) abort_msg_fields [OF m(3) n]
    by (simp add: abort_sign_def sign_tuples_def old ss Let_def Abort_rep_size_def)
  moreover have "contents_upto m2 60 = contents_upto m1 60"
    using wrote_other [OF m2(2), of 8 52] wrote_same [OF m2(2)] by (simp add: contents_upto_field header_bytes_def)
  moreover have "abort_msg m2 r rid es"
    by (rule abort_msg_cong [OF m(3)]) (use wrote_other [OF m2(2)] m1(7) in simp)
  moreover have "drop (52 + 28 * ?n) (m_payload m2) = sig @ drop (52 + 28 * ?n + length sig) (m_payload m1)"
    using m2(2) by (simp add: wrote_def)
  ultimately show ?thesis
    using that [of m2 sig "drop (52 + 28 * ?n + length sig) (m_payload m1)"] sg(1) wrote_same [OF m2(2)] m1 len by simp
qed

lemma abort_verify_accepts:
  assumes m: "abort_msg m r rid es" "length es < 32768" "int32_range r" "60 + 28 * length es + ss \<le> 60000"
    and sz: "m_size m = ALIGNED_SIZE (int (60 + 28 * length es + ss))" "int (length (m_payload m)) = 59992"
    and r: "is_replica nd r" "i_to_p nd r = Some p" "p_ssize p = ss"
    and sig: "drop (52 + 28 * length es) (m_payload m) = sig @ rest"
      "verify_signature c (node_id nd) p (contents_upto m 60) (sig @ rest) True = Inr True"
  shows "abort_verify c nd m = Inr True"
proof -
  let ?n = "length es"
  have old: "wrap32 (60 + int ?n * int tuple_size) = 60 + 28 * int ?n"
    using m(4) by (simp add: wrap32_def tuple_size_def)
  have body: "msg_read m 60 (28 * ?n) = Inr (concat (map ahe_bytes es))"
    using msg_read_field [of 60 "28 * ?n" m] m(1,4) sz(2) by (simp add: abort_msg_def)
  have "nat (wrap32 (60 + 28 * int ?n - int Abort_rep_size)) = 28 * ?n" "nat (60 + 28 * int ?n) - 8 = 52 + 28 * ?n"
    using m(4) by (simp_all add: wrap32_def Abort_rep_size_def)
  moreover have "\<not> wrap32 (msg_size m - (60 + 28 * int ?n)) < int ss"
    using ALIGNED_SIZE_props [of "int (60 + 28 * ?n + ss)"] m(4) sz(1) by (simp add: wrap32_def msg_size_def)
  ultimately show ?thesis
    using abort_msg_fields [OF m(1,2)] m(3) r body sig
    by (simp add: abort_verify_def verify_tuples_def Let_def old Abort_rep_size_def header_size_def)
qed

text \<open>
  The check of the space for the signature comes after the digest of the entries, and its
  difference is unsigned: a message that claims more entries than it has makes \<open>verify\<close> read
  behind its end.
\<close>

lemma abort_verify_reads_past_end:
  assumes "is_replica nd (ab_id m)" "i_to_p nd (ab_id m) = Some p"
    "0 < ab_hist_short m" "int (length (m_payload m)) < 52 + 28 * ab_hist_short m"
  shows "abort_verify c nd m = Inl Out_of_bounds"
proof -
  have "length (msg_field m 52 2) \<le> 2" by (simp add: msg_field_def field_def)
  then have "256 ^ length (msg_field m 52 2) \<le> (256 :: nat) ^ 2" by (rule power_increasing) simp
  then have "le_nat (msg_field m 52 2) < 65536" using le_nat_bound [of "msg_field m 52 2"] by simp
  then have "ab_hist_short m < 32768" by (simp add: ab_hist_short_def bytes_short_def Let_def)
  then have "wrap32 (60 + ab_hist_short m * int tuple_size) = 60 + 28 * ab_hist_short m"
    "wrap32 (28 * ab_hist_short m) = 28 * ab_hist_short m"
    using assms(3) by (simp_all add: wrap32_def tuple_size_def)
  moreover have "\<not> 52 + nat (28 * ab_hist_short m) \<le> length (m_payload m)"
    using assms(3,4) by linarith
  ultimately show ?thesis
    using assms(1,2) by (simp add: abort_verify_def verify_tuples_def Let_def msg_read_def read_bytes_def Abort_rep_size_def header_size_def)
qed

subsection \<open>\<open>zl_Abort_certificate\<close>\<close>

text \<open>
  One slot per replica. An entry is \<open>None\<close> where the code has a null pointer, otherwise the message. The
  subscript of the array asserts that the index is in range.
\<close>

record acert =
  ac_entries :: "zl_message option arr"
  ac_count :: int
  ac_complete :: int

definition acert_new :: "int \<Rightarrow> int \<Rightarrow> acert result" where
  "acert_new compl_nb num_rep =
     rbind (array_append_n array_new None num_rep) (\<lambda>a.
     Inr \<lparr>ac_entries = a, ac_count = 0, ac_complete = compl_nb\<rparr>)"

definition acert_add :: "acert \<Rightarrow> zl_message \<Rightarrow> (bool \<times> acert) result" where
  "acert_add ct m =
     rbind (array_slot (ac_entries ct) (ab_id m)) (\<lambda>e.
     case e of
       None \<Rightarrow> rbind (array_set_slot (ac_entries ct) (ab_id m) (Some m)) (\<lambda>a.
                Inr (True, ct\<lparr>ac_entries := a, ac_count := ac_count ct + 1\<rparr>))
     | Some _ \<Rightarrow> Inr (False, ct))"

definition acert_clear :: "acert \<Rightarrow> acert result" where
  "acert_clear ct =
     rbind (for_loop (\<lambda>a i. array_set_slot a (int i) None) [0..<array_size (ac_entries ct)] (ac_entries ct)) (\<lambda>a.
     Inr (ct\<lparr>ac_entries := a, ac_count := 0\<rparr>))"

definition acert_size :: "acert \<Rightarrow> nat" where
  "acert_size ct = array_size (ac_entries ct)"

definition is_complete :: "acert \<Rightarrow> bool" where
  "is_complete ct \<longleftrightarrow> ac_count ct \<ge> ac_complete ct"

definition acert_at :: "acert \<Rightarrow> int \<Rightarrow> zl_message option result" where
  "acert_at ct i = rbind (th_assert (i \<ge> 0 \<and> i < int (acert_size ct))) (\<lambda>_. array_slot (ac_entries ct) i)"

definition acert_list :: "acert \<Rightarrow> zl_message option list" where
  "acert_list ct = map the (array_elems (ac_entries ct))"

definition acert_ok :: "acert \<Rightarrow> bool" where
  "acert_ok ct \<longleftrightarrow> holds (ac_entries ct) (acert_list ct) \<and>
     ac_count ct = int (length (filter (\<lambda>e. e \<noteq> None) (acert_list ct))) \<and>
     (\<forall>i < length (acert_list ct). \<forall>m. acert_list ct ! i = Some m \<longrightarrow> ab_id m = int i)"

lemma holds_acert: "holds (ac_entries ct) es \<Longrightarrow> acert_list ct = es"
  by (simp add: holds_def acert_list_def comp_def)

lemma acert_size_list: "acert_ok ct \<Longrightarrow> acert_size ct = length (acert_list ct)"
  by (simp add: acert_ok_def acert_size_def holds_size)

lemma acert_new_ok:
  assumes "0 \<le> n"
  obtains ct where "acert_new compl_nb n = Inr ct" "acert_ok ct" "acert_list ct = replicate (nat n) None"
    "ac_complete ct = compl_nb"
proof -
  obtain a where a: "array_append_n array_new None n = Inr a" "array_ok a"
      "array_elems a = replicate (nat n) (Some (None :: zl_message option))"
    using array_append_n_elems [of array_new n "None :: zl_message option"] assms by auto
  let ?ct = "\<lparr>ac_entries = a, ac_count = 0, ac_complete = compl_nb\<rparr>"
  have h: "holds a (replicate (nat n) None)" using a by (simp add: holds_def)
  then have l: "acert_list ?ct = replicate (nat n) None"
    using holds_acert [of ?ct] by simp
  then have "acert_ok ?ct" using h by (simp add: acert_ok_def)
  then show ?thesis using that [of ?ct] a(1) l by (simp add: acert_new_def)
qed

lemma acert_at_eq:
  assumes "acert_ok ct" "i < length (acert_list ct)"
  shows "acert_at ct (int i) = Inr (acert_list ct ! i)"
  using assms acert_size_list [OF assms(1)] by (simp add: acert_at_def acert_ok_def holds_slot)

lemma acert_add_dup:
  assumes "acert_ok ct" "ab_id m = int i" "i < length (acert_list ct)" "acert_list ct ! i \<noteq> None"
  shows "acert_add ct m = Inr (False, ct)"
  using assms by (auto simp: acert_add_def acert_ok_def holds_slot)

lemma acert_add_fresh:
  assumes "acert_ok ct" "ab_id m = int i" "i < length (acert_list ct)" "acert_list ct ! i = None"
  obtains ct' where "acert_add ct m = Inr (True, ct')" "acert_ok ct'" "acert_list ct' = (acert_list ct)[i := Some m]"
    "ac_complete ct' = ac_complete ct"
proof -
  have h: "holds (ac_entries ct) (acert_list ct)" using assms(1) by (simp add: acert_ok_def)
  obtain a where a: "array_set_slot (ac_entries ct) (int i) (Some m) = Inr a" "holds a ((acert_list ct)[i := Some m])"
    using holds_set_slot [OF h assms(3)] by blast
  let ?ct = "ct\<lparr>ac_entries := a, ac_count := ac_count ct + 1\<rparr>"
  have l: "acert_list ?ct = (acert_list ct)[i := Some m]"
    using holds_acert [of ?ct] a(2) by simp
  have "int (length (filter (\<lambda>e. e \<noteq> None) ((acert_list ct)[i := Some m]))) = ac_count ct + 1"
    using length_filter_list_update [of i "acert_list ct" "\<lambda>e. e \<noteq> None" "Some m"] assms by (simp add: acert_ok_def)
  moreover have "ab_id x = int j" if "j < length (acert_list ct)" "(acert_list ct)[i := Some m] ! j = Some x" for j x
    using that assms(1,2) by (cases "j = i") (simp_all add: acert_ok_def)
  ultimately have "acert_ok ?ct"
    using a(2) l by (simp add: acert_ok_def)
  then show ?thesis
    using that [of ?ct] a(1) l h assms by (simp add: acert_add_def holds_slot)
qed

subsection \<open>Certificates as collections of votes\<close>

text \<open>
  What the protocols need of a certificate: the first message of each member is kept, and it is
  complete when enough different members have contributed.
\<close>

locale vote_certificate =
  fixes box_ok :: "'c \<Rightarrow> bool"
    and members :: "'c \<Rightarrow> int set"
    and votes :: "'c \<Rightarrow> int \<rightharpoonup> 'm"
    and sender :: "'m \<Rightarrow> int"
    and insert_vote :: "'c \<Rightarrow> 'm \<Rightarrow> (bool \<times> 'c) result"
    and finished :: "'c \<Rightarrow> bool"
    and needed :: "'c \<Rightarrow> nat"
    and accepts :: "'c \<Rightarrow> 'm \<Rightarrow> bool"
  assumes finite_members: "finite (members c)"
    and votes_members: "box_ok c \<Longrightarrow> dom (votes c) \<subseteq> members c"
    and insert_fresh: "box_ok c \<Longrightarrow> sender m \<in> members c \<Longrightarrow> votes c (sender m) = None \<Longrightarrow> accepts c m \<Longrightarrow>
      \<exists>c'. insert_vote c m = Inr (True, c') \<and> box_ok c' \<and> votes c' = (votes c)(sender m \<mapsto> m) \<and>
           members c' = members c \<and> needed c' = needed c"
    and insert_again: "box_ok c \<Longrightarrow> sender m \<in> members c \<Longrightarrow> votes c (sender m) \<noteq> None \<Longrightarrow> insert_vote c m = Inr (False, c)"
    and finished_iff: "box_ok c \<Longrightarrow> finished c \<longleftrightarrow> needed c \<le> card (dom (votes c))"
begin

text \<open>Two complete certificates over the same members have members in common.\<close>

lemma common_voters:
  assumes "box_ok a" "box_ok b" "members a = members b" "finished a" "finished b"
  shows "needed a + needed b \<le> card (members a) + card (dom (votes a) \<inter> dom (votes b))"
proof -
  have sub: "dom (votes a) \<subseteq> members a" "dom (votes b) \<subseteq> members a"
    using votes_members assms(1-3) by metis+
  then have fin: "finite (dom (votes a))" "finite (dom (votes b))"
    using finite_members finite_subset by blast+
  have "card (dom (votes a)) + card (dom (votes b)) = card (dom (votes a) \<union> dom (votes b)) + card (dom (votes a) \<inter> dom (votes b))"
    using fin by (rule card_Un_Int)
  moreover have "card (dom (votes a) \<union> dom (votes b)) \<le> card (members a)"
    using sub finite_members by (intro card_mono) auto
  moreover have "needed a \<le> card (dom (votes a))" "needed b \<le> card (dom (votes b))"
    using assms finished_iff by blast+
  ultimately show ?thesis by linarith
qed

end

text \<open>A certificate that accepts any message of a member: messages are inserted without failure, each member's first message stays.\<close>

locale open_certificate = vote_certificate +
  assumes accepts_all: "accepts c m"
begin

lemma insert_all:
  assumes "box_ok c" "\<forall>m \<in> set ms. sender m \<in> members c"
  shows "\<exists>c'. for_loop (\<lambda>c m. rbind (insert_vote c m) (\<lambda>(_, c'). Inr c')) ms c = Inr c' \<and> box_ok c' \<and>
     members c' = members c \<and> needed c' = needed c \<and> dom (votes c') = dom (votes c) \<union> sender ` set ms \<and>
     (\<forall>i \<in> dom (votes c). votes c' i = votes c i)"
  using assms
proof (induction ms arbitrary: c)
  case Nil
  then show ?case by auto
next
  case (Cons m ms)
  show ?case
  proof (cases "votes c (sender m) = None")
    case True
    then obtain d where d: "insert_vote c m = Inr (True, d)" "box_ok d" "votes d = (votes c)(sender m \<mapsto> m)"
        "members d = members c" "needed d = needed c"
      using insert_fresh [of c m] accepts_all Cons.prems by auto
    have "\<forall>x \<in> set ms. sender x \<in> members d" using Cons.prems(2) d(4) by simp
    from Cons.IH [OF d(2) this] obtain c' where
      "for_loop (\<lambda>c m. rbind (insert_vote c m) (\<lambda>(_, c'). Inr c')) ms d = Inr c'" "box_ok c'"
      "members c' = members d" "needed c' = needed d" "dom (votes c') = dom (votes d) \<union> sender ` set ms"
      "\<forall>i \<in> dom (votes d). votes c' i = votes d i"
      by blast
    moreover have "votes d i = votes c i \<and> i \<in> dom (votes d)" if "i \<in> dom (votes c)" for i
      using that True d(3) by auto
    moreover have "dom (votes d) = insert (sender m) (dom (votes c))" using d(3) by simp
    ultimately have "dom (votes c') = dom (votes c) \<union> sender ` set (m # ms)" "\<forall>i \<in> dom (votes c). votes c' i = votes c i"
        "members c' = members c" "needed c' = needed c" "box_ok c'"
        "for_loop (\<lambda>c m. rbind (insert_vote c m) (\<lambda>(_, c'). Inr c')) (m # ms) c = Inr c'"
      using d by simp_all
    then show ?thesis by blast
  next
    case False
    then have i: "insert_vote c m = Inr (False, c)" using insert_again Cons.prems by simp
    have "\<forall>x \<in> set ms. sender x \<in> members c" using Cons.prems(2) by simp
    from Cons.IH [OF Cons.prems(1) this] obtain c' where
      c': "for_loop (\<lambda>c m. rbind (insert_vote c m) (\<lambda>(_, c'). Inr c')) ms c = Inr c'" "box_ok c'"
      "members c' = members c" "needed c' = needed c" "dom (votes c') = dom (votes c) \<union> sender ` set ms"
      "\<forall>i \<in> dom (votes c). votes c' i = votes c i"
      by blast
    have "sender m \<in> dom (votes c)" using False by auto
    then have "dom (votes c') = dom (votes c) \<union> sender ` set (m # ms)" using c'(5) by auto
    moreover have "for_loop (\<lambda>c m. rbind (insert_vote c m) (\<lambda>(_, c'). Inr c')) (m # ms) c = Inr c'"
      using i c'(1) by simp
    ultimately show ?thesis using c' by blast
  qed
qed

end

definition acert_votes :: "acert \<Rightarrow> int \<rightharpoonup> zl_message" where
  "acert_votes ct i = (if 0 \<le> i \<and> nat i < length (acert_list ct) then acert_list ct ! nat i else None)"

definition acert_members :: "acert \<Rightarrow> int set" where
  "acert_members ct = {0..<int (length (acert_list ct))}"

lemma card_slot_votes: "card (dom (\<lambda>i. if 0 \<le> i \<and> nat i < length xs then xs ! nat i else None)) = length (filter (\<lambda>e. e \<noteq> None) xs)"
proof -
  have "dom (\<lambda>i. if 0 \<le> i \<and> nat i < length xs then xs ! nat i else None) = int ` {i. i < length xs \<and> xs ! i \<noteq> None}"
    by (force simp: dom_def image_iff split: if_splits)
  then show ?thesis by (simp add: card_image card_filter_index)
qed

lemma card_acert_votes: "card (dom (acert_votes ct)) = length (filter (\<lambda>e. e \<noteq> None) (acert_list ct))"
  using card_slot_votes [of "acert_list ct"] by (simp add: acert_votes_def [abs_def])

interpretation ab: open_certificate acert_ok acert_members acert_votes ab_id acert_add is_complete "\<lambda>ct. nat (ac_complete ct)" "\<lambda>_ _. True"
proof unfold_locales
  fix ct and m :: zl_message
  show "finite (acert_members ct)" by (simp add: acert_members_def)
  assume ok: "acert_ok ct"
  show "dom (acert_votes ct) \<subseteq> acert_members ct"
    by (auto simp: acert_votes_def acert_members_def nat_less_iff split: if_splits)
  show "is_complete ct \<longleftrightarrow> nat (ac_complete ct) \<le> card (dom (acert_votes ct))"
    using ok unfolding is_complete_def acert_ok_def card_acert_votes by linarith
  assume mem: "ab_id m \<in> acert_members ct"
  define i where "i = nat (ab_id m)"
  have i: "ab_id m = int i" "i < length (acert_list ct)" "acert_votes ct (ab_id m) = acert_list ct ! i"
    using mem by (auto simp: i_def acert_members_def acert_votes_def)
  show "acert_add ct m = Inr (False, ct)" if "acert_votes ct (ab_id m) \<noteq> None"
    using acert_add_dup [OF ok i(1,2)] that i(3) by simp
  show "\<exists>ct'. acert_add ct m = Inr (True, ct') \<and> acert_ok ct' \<and> acert_votes ct' = (acert_votes ct)(ab_id m \<mapsto> m) \<and>
      acert_members ct' = acert_members ct \<and> nat (ac_complete ct') = nat (ac_complete ct)"
    if none: "acert_votes ct (ab_id m) = None"
  proof -
    obtain ct' where c: "acert_add ct m = Inr (True, ct')" "acert_ok ct'" "acert_list ct' = (acert_list ct)[i := Some m]"
        "ac_complete ct' = ac_complete ct"
      by (rule acert_add_fresh [OF ok i(1,2)]) (use none i(3) that in simp_all)
    have "acert_votes ct' = (acert_votes ct)(ab_id m \<mapsto> m)"
      using i by (auto simp: acert_votes_def c(3) fun_eq_iff nth_list_update)
    then show ?thesis using c by (auto simp: acert_members_def)
  qed
qed (rule TrueI)

subsection \<open>Properties\<close>



text \<open>
  C20: a certificate for \<open>n\<close> replicas takes any sequence of abort messages of replicas without failing
  and is complete exactly when the messages come from as many different replicas as it asks for.
\<close>

theorem abort_certificate_counts_senders:
  assumes "0 \<le> n" "\<forall>m \<in> set ms. 0 \<le> ab_id m \<and> ab_id m < n"
  shows "\<exists>ct0 ct. acert_new k n = Inr ct0 \<and>
     for_loop (\<lambda>ct m. rbind (acert_add ct m) (\<lambda>(_, ct'). Inr ct')) ms ct0 = Inr ct \<and>
     (is_complete ct \<longleftrightarrow> k \<le> int (card (ab_id ` set ms)))"
proof -
  obtain ct0 where c0: "acert_new k n = Inr ct0" "acert_ok ct0" "acert_list ct0 = replicate (nat n) None" "ac_complete ct0 = k"
    by (rule acert_new_ok [OF assms(1)]) (rule that)
  have "\<forall>m \<in> set ms. ab_id m \<in> acert_members ct0" using assms by (simp add: acert_members_def c0(3))
  moreover have d0: "dom (acert_votes ct0) = {}" by (auto simp: acert_votes_def c0(3))
  ultimately obtain ct where ct: "for_loop (\<lambda>ct m. rbind (acert_add ct m) (\<lambda>(_, ct'). Inr ct')) ms ct0 = Inr ct" "acert_ok ct"
      "nat (ac_complete ct) = nat (ac_complete ct0)" "dom (acert_votes ct) = dom (acert_votes ct0) \<union> ab_id ` set ms"
    using ab.insert_all [OF c0(2)] by blast
  then have "is_complete ct \<longleftrightarrow> nat k \<le> card (ab_id ` set ms)"
    using ab.finished_iff [OF ct(2)] c0(4) d0 by simp
  then show ?thesis using c0(1) ct(1) by (auto simp: nat_le_iff)
qed

definition demo_abort :: "int \<Rightarrow> zl_message" where
  "demo_abort i = msg_of_contents zl_Abort_tag 0 64 (int32_bytes i @ replicate 52 0)"

lemma demo_abort_id: "int32_range i \<Longrightarrow> ab_id (demo_abort i) = i"
  by (simp add: demo_abort_def ab_id_def msg_field_def field_def msg_of_contents_def header_size_def)

theorem abort_certificate_counts_senders_witness:
  "\<exists>ct0 ct. acert_new 3 4 = Inr ct0 \<and>
     for_loop (\<lambda>ct m. rbind (acert_add ct m) (\<lambda>(_, ct'). Inr ct')) [demo_abort 2, demo_abort 0, demo_abort 2] ct0 = Inr ct \<and>
     \<not> is_complete ct"
proof -
  have "ab_id (demo_abort 2) = 2" "ab_id (demo_abort 0) = 0" by (simp_all add: demo_abort_id int32_range_def)
  moreover have "card {2, 0, 2 :: int} = 2" by (simp add: card_insert_if)
  ultimately show ?thesis
    using abort_certificate_counts_senders [of 4 "[demo_abort 2, demo_abort 0, demo_abort 2]" 3] by simp
qed

end
