(* ===== verification/Smashing.thy ===== *)
theory Smashing
  imports Aborts CountedSets
begin

section \<open>Extracting the abort history: \<^verbatim>\<open>protocols/zlight/zl_Smasher.cc\<close>\<close>

text \<open>
  \<open>zl_Smasher::process\<close> turns a certificate of abort messages into the history with which the next
  protocol instance starts: position by position it takes a value that \<open>t + 1\<close> replicas have, until
  there is none; then it drops repetitions; then it lists the entries this replica lacks. Arrays of
  pointers are lists. \<open>smash_seed\<close> reads position \<open>j\<close> of every message
  whose number of entries is not below \<open>j\<close>, as the code does; so a message with exactly \<open>j\<close> entries
  is read one entry past its history.
\<close>

definition smash_vote :: "nat \<Rightarrow> acert \<Rightarrow> ahe scset \<Rightarrow> nat \<Rightarrow> ahe scset result" where
  "smash_vote j aborts seeder i =
     rbind (acert_at aborts (int i)) (\<lambda>e.
     case e of
       None \<Rightarrow> Inr seeder
     | Some a \<Rightarrow>
         if ab_hist_size a < j then Inr seeder
         else rbind (read_ahe a (Abort_rep_size + tuple_size * j)) (\<lambda>x. Inr (snd (scset_store seeder x))))"

definition smash_seed :: "acert \<Rightarrow> nat \<Rightarrow> ahe scset \<Rightarrow> ahe scset result" where
  "smash_seed aborts j seeder = for_loop (smash_vote j aborts) [0..<acert_size aborts] (scset_clear seeder)"

fun smash_pick :: "nat \<Rightarrow> ahe scset \<Rightarrow> nat list \<Rightarrow> ahe option" where
  "smash_pick t seeder [] = None"
| "smash_pick t seeder (i # is) =
     (if scset_fetch_count seeder (int i) \<ge> t + 1 then scset_fetch seeder (int i) else smash_pick t seeder is)"

text \<open>The loop of phase 1, with \<open>k\<close> the number of rounds left (\<open>size - j\<close>).\<close>

fun smash_phase1 :: "nat \<Rightarrow> acert \<Rightarrow> nat \<Rightarrow> nat \<Rightarrow> ahe scset \<Rightarrow> ahe list result" where
  "smash_phase1 t aborts j 0 seeder = Inr []"
| "smash_phase1 t aborts j (Suc k) seeder =
     rbind (smash_seed aborts j seeder) (\<lambda>s.
     case smash_pick t s [0..<scset_size s] of
       None \<Rightarrow> Inr []
     | Some e \<Rightarrow> rbind (smash_phase1 t aborts (j + 1) k s) (\<lambda>es. Inr (e # es)))"

definition smash_dedup :: "ahe list \<Rightarrow> ahe list \<times> ahe scset" where
  "smash_dedup AH_1 =
     foldl (\<lambda>(AH_2, seen) e. if \<not> scset_has seen e then (AH_2 @ [e], snd (scset_store seen e)) else (AH_2, seen))
       ([], scset_new (length AH_1)) AH_1"

definition smash_own :: "zl_message \<Rightarrow> ahe scset \<Rightarrow> nat \<Rightarrow> ahe scset result" where
  "smash_own a seen pos =
     rbind (read_ahe a (Abort_rep_size + tuple_size * pos)) (\<lambda>x.
     Inr (if scset_has seen x then snd (scset_store seen x) else seen))"

definition smash_missing :: "ahe scset \<Rightarrow> ahe list" where
  "smash_missing seen =
     concat (map (\<lambda>ndx. if scset_fetch_count seen (int ndx) = 1
                        then (case scset_fetch seen (int ndx) of None \<Rightarrow> [] | Some e \<Rightarrow> [e]) else [])
               [0..<scset_size seen])"

definition smash_process :: "nat \<Rightarrow> nat \<Rightarrow> acert \<Rightarrow> int \<Rightarrow> (ahe list \<times> ahe list) result" where
  "smash_process sz t aborts me =
     rbind (smash_phase1 t aborts 0 sz (scset_new (acert_size aborts))) (\<lambda>AH_1.
     let (AH_2, seen) = smash_dedup AH_1 in
     rbind (acert_at aborts me) (\<lambda>e.
     case e of
       None \<Rightarrow> Inl Assert_failed
     | Some a \<Rightarrow>
         rbind (for_loop (smash_own a) [0..<ab_hist_size a] seen) (\<lambda>seen'.
         Inr (AH_2, smash_missing seen'))))"

subsection \<open>One round\<close>

text \<open>
  \<open>roomy\<close>: behind the history there is room for one more entry, as in every message with a
  signature of at least 28 bytes.
\<close>

definition roomy :: "zl_message \<Rightarrow> bool" where
  "roomy a \<longleftrightarrow> 60 + 28 * (ab_hist_size a + 1) \<le> length (m_payload a) + 8"

definition entry_at :: "zl_message \<Rightarrow> nat \<Rightarrow> ahe" where
  "entry_at a j = ahe_of_bytes (msg_field a (60 + 28 * j) 28)"

definition votes_at :: "zl_message option list \<Rightarrow> nat \<Rightarrow> ahe list" where
  "votes_at as j = map (\<lambda>a. entry_at a j) (filter (\<lambda>a. j \<le> ab_hist_size a) (map the (filter (\<lambda>e. e \<noteq> None) as)))"

lemma read_entry: "roomy a \<Longrightarrow> j \<le> ab_hist_size a \<Longrightarrow> read_ahe a (Abort_rep_size + tuple_size * j) = Inr (entry_at a j)"
proof -
  assume "roomy a" "j \<le> ab_hist_size a"
  then have "60 + 28 * j + 28 \<le> length (m_payload a) + 8" by (simp add: roomy_def)
  then show ?thesis
    by (simp add: read_ahe_eq entry_at_def Abort_rep_size_def tuple_size_def)
qed

lemma entry_at_history: "j < ab_hist_size a \<Longrightarrow> entry_at a j = abort_history a ! j"
  by (simp add: entry_at_def abort_history_def Abort_rep_size_def tuple_size_def)

lemma length_abort_history [simp]: "length (abort_history a) = ab_hist_size a"
  by (simp add: abort_history_def)

lemma smash_vote_loop:
  assumes ok: "acert_ok ct" and roomy: "\<And>a. Some a \<in> set (acert_list ct) \<Longrightarrow> roomy a"
  shows "k \<le> length (acert_list ct) \<Longrightarrow> for_loop (smash_vote j ct) [0..<k] s =
     Inr (foldl (\<lambda>s e. snd (scset_store s e)) s (votes_at (take k (acert_list ct)) j))"
proof (induction k)
  case 0
  show ?case by (simp add: votes_at_def)
next
  case (Suc k)
  then have k: "k < length (acert_list ct)" "acert_at ct (int k) = Inr (acert_list ct ! k)"
    using acert_at_eq [OF ok] by simp_all
  have r: "roomy a" if "acert_list ct ! k = Some a" for a
    using roomy nth_mem [OF k(1)] that by metis
  have "votes_at (take (Suc k) (acert_list ct)) j = votes_at (take k (acert_list ct)) j @
      (case acert_list ct ! k of None \<Rightarrow> [] | Some a \<Rightarrow> if j \<le> ab_hist_size a then [entry_at a j] else [])"
    using k(1) by (simp add: votes_at_def take_Suc_conv_app_nth split: option.split)
  then show ?case
    using Suc k r by (simp add: for_loop_append smash_vote_def read_entry not_less split: option.split)
qed

lemma scset_clear_new: "scset_ok s \<Longrightarrow> scset_clear s = scset_new (sc_max_size s)"
  by (cases s) (simp add: scset_clear_def scset_new_def scset_ok_def)

lemma smash_pick_find:
  assumes "scset_ok s"
  shows "smash_pick t s [0..<scset_size s] = map_option fst (find (\<lambda>(x, c). c \<ge> t + 1) (scset_items s))"
proof -
  have "smash_pick t s [k..<k + n] = map_option fst (find (\<lambda>(x, c). c \<ge> t + 1) (take n (drop k (scset_items s))))"
    if "k + n \<le> sc_cur_size s" for k n
    using that
  proof (induction n arbitrary: k)
    case (Suc n)
    have len: "length (scset_items s) = sc_cur_size s"
      using length_scset_keys [OF assms] map_fst_scset_items [OF assms] length_map by metis
    have "[k..<k + Suc n] = k # [Suc k..<Suc k + n]" by (simp add: upt_rec)
    moreover have "drop k (scset_items s) = scset_items s ! k # drop (Suc k) (scset_items s)"
      using Suc.prems len by (simp add: Cons_nth_drop_Suc)
    ultimately show ?case
      using Suc.IH [of "Suc k"] Suc.prems scset_fetch_item [OF assms, of k] by (simp add: case_prod_beta)
  qed simp
  from this [of 0 "sc_cur_size s"] show ?thesis
    using length_scset_keys [OF assms] map_fst_scset_items [OF assms] length_map [of fst "scset_items s"]
    by (simp add: scset_size_def)
qed

definition cert_good :: "acert \<Rightarrow> bool" where
  "cert_good ct \<longleftrightarrow> acert_ok ct \<and> (\<forall>a. Some a \<in> set (acert_list ct) \<longrightarrow> roomy a)"

lemma length_votes_at: "length (votes_at as j) \<le> length as"
proof -
  have "length (votes_at as j) \<le> length (map the (filter (\<lambda>e. e \<noteq> None) as))"
    unfolding votes_at_def length_map [of "\<lambda>a. entry_at a j"] by (rule length_filter_le)
  also have "\<dots> \<le> length as" by simp
  finally show ?thesis .
qed

lemma smash_round:
  assumes "cert_good ct" "scset_ok s" "sc_max_size s = length (acert_list ct)"
  obtains s' where "smash_seed ct j s = Inr s'" "scset_ok s'" "sc_max_size s' = length (acert_list ct)"
    "s' = foldl (\<lambda>s e. snd (scset_store s e)) (scset_new (length (acert_list ct))) (votes_at (acert_list ct) j)"
proof -
  let ?n = "length (acert_list ct)" and ?v = "votes_at (acert_list ct) j"
  have ok: "acert_ok ct" using assms(1) by (simp add: cert_good_def)
  have "smash_seed ct j s = Inr (foldl (\<lambda>s e. snd (scset_store s e)) (scset_new ?n) ?v)"
    using smash_vote_loop [OF ok, of ?n j "scset_new ?n"] assms
    by (simp add: smash_seed_def acert_size_list [OF ok] scset_clear_new cert_good_def)
  moreover have "card (set ?v) \<le> ?n"
    using card_length [of ?v] length_votes_at [of "acert_list ct" j] by linarith
  ultimately show ?thesis
    using that scset_store_all_facts [of ?v ?n] by (simp add: scset_store_all_def)
qed

lemma smash_pick_sound:
  assumes "cert_good ct" "s' = foldl (\<lambda>s e. snd (scset_store s e)) (scset_new (length (acert_list ct))) (votes_at (acert_list ct) j)"
    "scset_ok s'" "smash_pick t s' [0..<scset_size s'] = Some e"
  shows "t + 1 \<le> count_list (votes_at (acert_list ct) j) e"
proof -
  obtain c where "find (\<lambda>(x, c). c \<ge> t + 1) (scset_items s') = Some (e, c)"
    using assms(4) smash_pick_find [OF assms(3)] by auto
  then show ?thesis
    using sc.winner_sound(1) [OF length_votes_at] assms(2) by metis
qed

lemma smash_pick_unique:
  assumes "s' = foldl (\<lambda>s e. snd (scset_store s e)) (scset_new (length (acert_list ct))) (votes_at (acert_list ct) j)"
    "scset_ok s'" "t + 1 \<le> count_list (votes_at (acert_list ct) j) v"
    "\<And>w. w \<noteq> v \<Longrightarrow> count_list (votes_at (acert_list ct) j) w < t + 1"
  shows "smash_pick t s' [0..<scset_size s'] = Some v"
proof -
  have "find (\<lambda>(x, c). c \<ge> t + 1) (scset_items s') = Some (v, count_list (votes_at (acert_list ct) j) v)"
    unfolding assms(1) by (rule sc.winner_exists [OF length_votes_at]) (use assms(3,4) in auto)
  then show ?thesis by (simp add: smash_pick_find [OF assms(2)])
qed

subsection \<open>The loop\<close>

lemma smash_phase1_sound:
  assumes "cert_good ct" "scset_ok s" "sc_max_size s = length (acert_list ct)"
  shows "\<exists>es. smash_phase1 t ct j k s = Inr es \<and> length es \<le> k \<and>
     (\<forall>i < length es. t + 1 \<le> count_list (votes_at (acert_list ct) (j + i)) (es ! i))"
  using assms(2,3)
proof (induction k arbitrary: j s)
  case (Suc k)
  obtain s' where s': "smash_seed ct j s = Inr s'" "scset_ok s'" "sc_max_size s' = length (acert_list ct)"
    "s' = foldl (\<lambda>s e. snd (scset_store s e)) (scset_new (length (acert_list ct))) (votes_at (acert_list ct) j)"
    by (rule smash_round [OF assms(1) Suc.prems]) (rule that)
  show ?case
  proof (cases "smash_pick t s' [0..<scset_size s']")
    case None
    then show ?thesis by (simp add: s'(1))
  next
    case (Some e)
    obtain es where es: "smash_phase1 t ct (j + 1) k s' = Inr es" "length es \<le> k"
      "\<forall>i < length es. t + 1 \<le> count_list (votes_at (acert_list ct) (j + 1 + i)) (es ! i)"
      using Suc.IH [OF s'(2,3)] by blast
    have "t + 1 \<le> count_list (votes_at (acert_list ct) (j + i)) ((e # es) ! i)" if "i < length (e # es)" for i
      using that es(3) smash_pick_sound [OF assms(1) s'(4,2) Some] by (cases i) auto
    moreover have "smash_phase1 t ct j (Suc k) s = Inr (e # es)" using s'(1) Some es(1) by simp
    ultimately show ?thesis using es(2) by (intro exI [of _ "e # es"]) simp
  qed
qed simp

lemma smash_phase1_prefix:
  assumes "cert_good ct" "scset_ok s" "sc_max_size s = length (acert_list ct)" "length h \<le> k"
    and "\<And>i. i < length h \<Longrightarrow> t + 1 \<le> count_list (votes_at (acert_list ct) (j + i)) (h ! i)"
    and "\<And>i w. i < length h \<Longrightarrow> w \<noteq> h ! i \<Longrightarrow> count_list (votes_at (acert_list ct) (j + i)) w < t + 1"
  shows "\<exists>es. smash_phase1 t ct j k s = Inr es \<and> take (length h) es = h"
  using assms(2-)
proof (induction h arbitrary: j k s)
  case Nil
  then show ?case using smash_phase1_sound [OF assms(1) Nil(1,2), of t j k] by auto
next
  case (Cons x h)
  obtain k' where k': "k = Suc k'" "length h \<le> k'" using Cons.prems(3) by (cases k) auto
  obtain s' where s': "smash_seed ct j s = Inr s'" "scset_ok s'" "sc_max_size s' = length (acert_list ct)"
    "s' = foldl (\<lambda>s e. snd (scset_store s e)) (scset_new (length (acert_list ct))) (votes_at (acert_list ct) j)"
    by (rule smash_round [OF assms(1) Cons.prems(1,2)]) (rule that)
  have "smash_pick t s' [0..<scset_size s'] = Some x"
    using Cons.prems(4,5) [of 0] by (intro smash_pick_unique [OF s'(4,2)]) simp_all
  moreover have "\<exists>es. smash_phase1 t ct (j + 1) k' s' = Inr es \<and> take (length h) es = h"
  proof (rule Cons.IH [OF s'(2,3) k'(2)])
    fix i assume i: "i < length h"
    show "t + 1 \<le> count_list (votes_at (acert_list ct) (j + 1 + i)) (h ! i)"
      using Cons.prems(4) [of "Suc i"] i by simp
    show "count_list (votes_at (acert_list ct) (j + 1 + i)) w < t + 1" if "w \<noteq> h ! i" for w
      using Cons.prems(5) [of "Suc i" w] i that by simp
  qed
  ultimately show ?case using s'(1) k'(1) by auto
qed

subsection \<open>Removing repetitions and listing what is missing\<close>

lemma smash_dedup_eq:
  "smash_dedup xs = (nub xs, scset_store_all (scset_new (length xs)) (nub xs))"
proof -
  have "foldl (\<lambda>(AH_2, seen) e. if \<not> scset_has seen e then (AH_2 @ [e], snd (scset_store seen e)) else (AH_2, seen))
      ([], scset_new n) xs = (nub xs, scset_store_all (scset_new n) (nub xs))" if "length xs \<le> n" for n
    using that
  proof (induction xs rule: rev_induct)
    case Nil
    show ?case by (simp add: scset_store_all_def)
  next
    case (snoc x xs)
    have "card (set (nub xs)) \<le> n" using snoc.prems card_length [of xs] by simp
    from scset_store_all_facts [OF this]
    have ok: "scset_ok (scset_store_all (scset_new n) (nub xs))"
      and it: "scset_items (scset_store_all (scset_new n) (nub xs)) = map (\<lambda>x. (x, count_list (nub xs) x)) (nub xs)"
      by simp_all
    have "scset_keys (scset_store_all (scset_new n) (nub xs)) = nub xs"
      using map_fst_scset_items [OF ok] by (simp add: it comp_def)
    then have "scset_has (scset_store_all (scset_new n) (nub xs)) x \<longleftrightarrow> x \<in> set xs"
      using scset_has_keys [OF ok] by simp
    then show ?case
      using snoc by (simp add: nub_snoc) (simp add: scset_store_all_def)
  qed
  then show ?thesis by (simp add: smash_dedup_def)
qed

lemma smash_own_loop:
  assumes "roomy a" "card (set es) \<le> n" "k \<le> ab_hist_size a"
  shows "for_loop (smash_own a) [0..<k] (scset_store_all (scset_new n) es) =
     Inr (scset_store_all (scset_new n) (es @ filter (\<lambda>x. x \<in> set es) (take k (abort_history a))))"
  using assms(3)
proof (induction k)
  case (Suc k)
  let ?ys = "es @ filter (\<lambda>x. x \<in> set es) (take k (abort_history a))"
  let ?x = "abort_history a ! k"
  have set: "set ?ys = set es" by auto
  then have "card (set ?ys) \<le> n" using assms(2) by simp
  from scset_store_all_facts [OF this]
  have ok: "scset_ok (scset_store_all (scset_new n) ?ys)"
    and it: "scset_items (scset_store_all (scset_new n) ?ys) = map (\<lambda>x. (x, count_list ?ys x)) (nub ?ys)"
    by blast+
  have "scset_keys (scset_store_all (scset_new n) ?ys) = nub ?ys"
    unfolding map_fst_scset_items [OF ok, symmetric] it by (simp add: comp_def)
  then have "scset_has (scset_store_all (scset_new n) ?ys) ?x \<longleftrightarrow> ?x \<in> set es"
    unfolding scset_has_keys [OF ok] using set by simp
  moreover have "read_ahe a (Abort_rep_size + tuple_size * k) = Inr ?x"
    using read_entry [OF assms(1), of k] entry_at_history [of k a] Suc.prems by simp
  ultimately have "smash_own a (scset_store_all (scset_new n) ?ys) k =
      Inr (scset_store_all (scset_new n) (?ys @ (if ?x \<in> set es then [?x] else [])))"
    by (simp add: smash_own_def scset_store_all_def)
  then show ?case
    using Suc by (simp add: for_loop_append take_Suc_conv_app_nth)
qed simp

lemma smash_missing_eq:
  assumes "scset_ok s"
  shows "smash_missing s = map fst (filter (\<lambda>(x, c). c = 1) (scset_items s))"
proof -
  have "scset_items s = map (\<lambda>i. scset_items s ! i) [0..<scset_size s]"
    using map_nth [of "scset_items s"] length_scset_keys [OF assms] map_fst_scset_items [OF assms]
      length_map [of fst "scset_items s"] by (simp add: scset_size_def)
  moreover have "concat (map (\<lambda>i. if scset_fetch_count s (int i) = 1
        then (case scset_fetch s (int i) of None \<Rightarrow> [] | Some e \<Rightarrow> [e]) else []) is) =
      map fst (filter (\<lambda>(x, c). c = 1) (map (\<lambda>i. scset_items s ! i) is))" if "\<forall>i \<in> set is. i < sc_cur_size s" for "is"
    using that by (induction "is") (auto simp: scset_fetch_item [OF assms] case_prod_beta)
  moreover have "\<forall>i \<in> set [0..<scset_size s]. i < sc_cur_size s" by (simp add: scset_size_def)
  ultimately show ?thesis
    unfolding smash_missing_def by presburger
qed

lemma nub_append_subset: "set ys \<subseteq> set xs \<Longrightarrow> nub (xs @ ys) = nub xs"
  by (induction ys rule: rev_induct) (auto simp: nub_snoc append_assoc [symmetric] simp del: append_assoc)

lemma nub_append: "nub (xs @ ys) = nub xs @ filter (\<lambda>y. y \<notin> set xs) (nub ys)"
  by (induction ys rule: rev_induct) (auto simp: nub_snoc append_assoc [symmetric] simp del: append_assoc)

lemma count_list_distinct: "distinct xs \<Longrightarrow> count_list xs x = (if x \<in> set xs then 1 else 0)"
  by (induction xs) auto

lemma smash_process_eq:
  assumes "cert_good ct" "smash_phase1 t ct 0 sz (scset_new (acert_size ct)) = Inr AH"
    and "i < length (acert_list ct)" "acert_list ct ! i = Some a"
  shows "smash_process sz t ct (int i) = Inr (nub AH, filter (\<lambda>x. x \<notin> set (abort_history a)) (nub AH))"
proof -
  let ?own = "filter (\<lambda>x. x \<in> set AH) (abort_history a)" and ?n = "length AH"
  have at: "acert_at ct (int i) = Inr (Some a)" and r: "roomy a"
    using assms acert_at_eq [of ct i] nth_mem [of i "acert_list ct"] by (auto simp: cert_good_def)
  have c: "card (set (nub AH)) \<le> ?n" by (simp add: card_length)
  let ?s = "scset_store_all (scset_new ?n) (nub AH @ ?own)"
  have own: "for_loop (smash_own a) [0..<ab_hist_size a] (scset_store_all (scset_new ?n) (nub AH)) = Inr ?s"
    using smash_own_loop [OF r c order_refl] by simp
  have nub: "nub (nub AH @ ?own) = nub AH" using nub_append_subset [of ?own "nub AH"] by auto
  have "set (nub AH @ ?own) = set AH" by auto
  then have "card (set (nub AH @ ?own)) \<le> ?n" by (simp add: card_length)
  from scset_store_all_facts [OF this]
  have ok: "scset_ok ?s" and it: "scset_items ?s = map (\<lambda>x. (x, count_list (nub AH @ ?own) x)) (nub AH)"
    unfolding nub by blast+
  have "count_list (nub AH @ ?own) x = 1 \<longleftrightarrow> x \<notin> set (abort_history a)" if "x \<in> set (nub AH)" for x
    using that by (simp add: count_list_distinct count_list_0_iff)
  then have "filter (\<lambda>x. count_list (nub AH @ ?own) x = 1) (nub AH) = filter (\<lambda>x. x \<notin> set (abort_history a)) (nub AH)"
    by (intro filter_cong [OF refl])
  then have "smash_missing ?s = filter (\<lambda>x. x \<notin> set (abort_history a)) (nub AH)"
    unfolding smash_missing_eq [OF ok] it by (simp add: filter_map comp_def del: count_list_append)
  then show ?thesis
    using assms(2) at own by (simp add: smash_process_def smash_dedup_eq)
qed

text \<open>How many members of the certificate vote for a value.\<close>

definition voters :: "acert \<Rightarrow> nat \<Rightarrow> ahe \<Rightarrow> nat set" where
  "voters ct j e = {i. i < length (acert_list ct) \<and> (\<exists>a. acert_list ct ! i = Some a \<and> j \<le> ab_hist_size a \<and> entry_at a j = e)}"

lemma count_votes: "count_list (votes_at (acert_list ct) j) e = card (voters ct j e)"
proof -
  let ?P = "\<lambda>x. \<exists>a. x = Some a \<and> j \<le> ab_hist_size a \<and> entry_at a j = e"
  have "count_list (votes_at as j) e = length (filter ?P as)" for as
  proof (induction as)
    case (Cons x as)
    then show ?case by (cases x) (simp_all add: votes_at_def)
  qed (simp add: votes_at_def)
  then show ?thesis by (simp add: card_filter_index voters_def)
qed

lemma voters_disjoint: "e \<noteq> e' \<Longrightarrow> voters ct j e \<inter> voters ct j e' = {}"
  by (auto simp: voters_def)

lemma voters_bound:
  assumes "e \<noteq> e'" "length (acert_list ct) = 3 * t + 1" "2 * t + 1 \<le> card (voters ct j e)"
  shows "card (voters ct j e') < t + 1"
proof -
  have sub: "voters ct j e \<union> voters ct j e' \<subseteq> {..<3 * t + 1}" using assms(2) by (auto simp: voters_def)
  then have "finite (voters ct j e)" "finite (voters ct j e')" by (auto intro: finite_subset)
  then have "card (voters ct j e) + card (voters ct j e') = card (voters ct j e \<union> voters ct j e')"
    using card_Un_disjoint voters_disjoint [OF assms(1)] by metis
  also have "\<dots> \<le> 3 * t + 1" using card_mono [OF _ sub] by simp
  finally show ?thesis using assms(3) by linarith
qed

text \<open>Reading one entry too far: a message whose history ends at \<open>j\<close> takes part in round \<open>j\<close>.\<close>

lemma smash_vote_reads_past:
  assumes "acert_at ct (int i) = Inr (Some a)" "ab_hist_size a = j" "length (m_payload a) < 52 + 28 * j + 4"
  shows "smash_vote j ct s i = Inl Out_of_bounds"
  using assms by (simp add: smash_vote_def read_ahe_def msg_read_def read_bytes_def Abort_rep_size_def tuple_size_def header_size_def)

subsection \<open>Properties\<close>

text \<open>
  C6: a history that \<open>2t + 1\<close> of the \<open>3t + 1\<close> abort messages begin with survives: the extraction returns,
  and the extracted history begins with it. This is what keeps every request that was
  committed by the aborted instance.
\<close>

theorem smash_keeps_agreed_prefix:
  assumes "cert_good ct" "length (acert_list ct) = 3 * t + 1" "me < 3 * t + 1" "acert_list ct ! me = Some own"
    and "distinct h" "length h \<le> sz"
    and "2 * t + 1 \<le> card {i. i < 3 * t + 1 \<and> (\<exists>a. acert_list ct ! i = Some a \<and> take (length h) (abort_history a) = h)}"
  shows "\<exists>ah missing. smash_process sz t ct (int me) = Inr (ah, missing) \<and> take (length h) ah = h"
proof -
  let ?Q = "{i. i < 3 * t + 1 \<and> (\<exists>a. acert_list ct ! i = Some a \<and> take (length h) (abort_history a) = h)}"
  have many: "2 * t + 1 \<le> card (voters ct j (h ! j))" if j: "j < length h" for j
  proof -
    have "i \<in> voters ct j (h ! j)" if "i \<in> ?Q" for i
    proof -
      obtain a where a: "acert_list ct ! i = Some a" "take (length h) (abort_history a) = h" using \<open>i \<in> ?Q\<close> by blast
      then have "j < ab_hist_size a" using j length_take [of "length h" "abort_history a"] by simp
      moreover have "abort_history a ! j = h ! j" using a(2) j nth_take [of j "length h" "abort_history a"] by simp
      ultimately show ?thesis using a(1) \<open>i \<in> ?Q\<close> assms(2) by (auto simp: voters_def entry_at_history)
    qed
    then have "card ?Q \<le> card (voters ct j (h ! j))"
      by (intro card_mono) (auto simp: voters_def)
    then show ?thesis using assms(7) by linarith
  qed
  have n: "acert_size ct = length (acert_list ct)" using assms(1) acert_size_list by (simp add: cert_good_def)
  have "\<exists>es. smash_phase1 t ct 0 sz (scset_new (acert_size ct)) = Inr es \<and> take (length h) es = h"
  proof (rule smash_phase1_prefix [OF assms(1) _ _ assms(6)])
    fix i assume i: "i < length h"
    show "t + 1 \<le> count_list (votes_at (acert_list ct) (0 + i)) (h ! i)"
      using many [OF i] by (simp add: count_votes)
    show "count_list (votes_at (acert_list ct) (0 + i)) w < t + 1" if "w \<noteq> h ! i" for w
      using voters_bound [OF that [symmetric] assms(2) many [OF i]] by (simp add: count_votes)
  qed (simp_all add: n, simp add: scset_new_def)
  then obtain es where es: "smash_phase1 t ct 0 sz (scset_new (acert_size ct)) = Inr es" "take (length h) es = h" by blast
  have "es = h @ drop (length h) es" using append_take_drop_id [of "length h" es] es(2) by simp
  then have "nub es = h @ filter (\<lambda>y. y \<notin> set h) (nub (drop (length h) es))"
    using nub_append [of h "drop (length h) es"] assms(5) by (simp add: nub_distinct)
  then have "take (length h) (nub es) = h" by (metis append_eq_conv_conj)
  then show ?thesis
    using smash_process_eq [OF assms(1) es(1), of me own] assms(2-4) by simp
qed


subsection \<open>Concrete certificates\<close>

text \<open>A certificate with four messages, three of which carry the history \<open>[e]\<close>.\<close>

definition demo_history :: "int \<Rightarrow> ahe \<Rightarrow> zl_message" where
  "demo_history i e = msg_of_contents zl_Abort_tag 0 128
     (int32_bytes i @ replicate 40 0 @ short_bytes 1 @ replicate 6 0 @ ahe_bytes e @ replicate 40 0)"

definition demo_cert :: "(int \<times> ahe) list \<Rightarrow> acert" where
  "demo_cert xs = \<lparr>ac_entries = foldl array_append array_new (map (\<lambda>(i, e). Some (demo_history i e)) xs),
     ac_count = int (length xs), ac_complete = int (length xs)\<rparr>"

lemma demo_history_facts:
  assumes "int32_range i" "int32_range (ahe_cid e)"
  shows "ab_id (demo_history i e) = i" "ab_hist_size (demo_history i e) = 1" "abort_history (demo_history i e) = [e]"
    "roomy (demo_history i e)"
  using assms
  by (simp_all add: demo_history_def ab_id_def ab_hist_size_def abort_history_def msg_field_def field_def msg_of_contents_def
      header_size_def le_nat_short_bytes roomy_def Abort_rep_size_def tuple_size_def ahe_of_bytes_bytes)

lemma demo_cert_good:
  assumes "\<forall>j < length xs. fst (xs ! j) = int j" "\<forall>(i, e) \<in> set xs. int32_range i \<and> int32_range (ahe_cid e)"
  shows "cert_good (demo_cert xs)" "acert_list (demo_cert xs) = map (\<lambda>(i, e). Some (demo_history i e)) xs"
proof -
  let ?l = "map (\<lambda>(i, e). Some (demo_history i e)) xs"
  have h: "holds (ac_entries (demo_cert xs)) ?l"
    using arr.append_all [of array_new ?l] by (simp add: holds_def demo_cert_def)
  then show l: "acert_list (demo_cert xs) = ?l" by (rule holds_acert)
  have "filter (\<lambda>e. e \<noteq> None) ?l = ?l" by (rule filter_True) auto
  then have "int (length (filter (\<lambda>e. e \<noteq> None) ?l)) = ac_count (demo_cert xs)" by (simp only: length_map) (simp add: demo_cert_def)
  moreover have "ab_id m = int j" if "j < length xs" "?l ! j = Some m" for j m
  proof -
    have "int32_range (fst (xs ! j))" "int32_range (ahe_cid (snd (xs ! j)))"
      using bspec [OF assms(2) nth_mem [OF that(1)]] by (simp_all add: case_prod_beta)
    moreover have "fst (xs ! j) = int j" using assms(1) that(1) by simp
    ultimately show ?thesis
      using that demo_history_facts(1) [of "fst (xs ! j)" "snd (xs ! j)"] by (auto simp: case_prod_beta)
  qed
  ultimately have "acert_ok (demo_cert xs)" using h l by (simp add: acert_ok_def)
  moreover have "roomy a" if "Some a \<in> set ?l" for a
    using that assms(2) demo_history_facts(4) by auto
  ultimately show "cert_good (demo_cert xs)" by (simp add: cert_good_def l)
qed

definition demo_entry :: "int \<Rightarrow> ahe" where
  "demo_entry i = \<lparr>ahe_cid = i, ahe_rid = 3, ahe_d = digest_zero\<rparr>"

definition demo_votes :: "(int \<times> ahe) list" where
  "demo_votes = [(0, demo_entry 5), (1, demo_entry 6), (2, demo_entry 5), (3, demo_entry 5)]"

lemma demo_votes_good:
  "cert_good (demo_cert demo_votes)" "acert_list (demo_cert demo_votes) = map (\<lambda>(i, e). Some (demo_history i e)) demo_votes"
  by (rule demo_cert_good; auto simp: demo_votes_def demo_entry_def int32_range_def less_Suc_eq numeral_nat)+

lemma demo_votes_history:
  "i \<in> {0, 1, 2, 3} \<Longrightarrow> c \<in> {5, 6} \<Longrightarrow> abort_history (demo_history i (demo_entry c)) = [demo_entry c]"
  by (rule demo_history_facts) (auto simp: demo_entry_def int32_range_def)

theorem smash_keeps_agreed_prefix_witness:
  "\<exists>ah missing. smash_process 1 1 (demo_cert demo_votes) 1 = Inr (ah, missing) \<and> take 1 ah = [demo_entry 5]"
proof -
  have "{0, 2, 3} \<subseteq> {i. i < 3 * 1 + 1 \<and> (\<exists>a. acert_list (demo_cert demo_votes) ! i = Some a \<and>
      take (length [demo_entry 5]) (abort_history a) = [demo_entry 5])}" (is "_ \<subseteq> ?Q")
    by (simp add: demo_votes_good(2)) (simp add: demo_votes_def demo_votes_history)
  then have "card {0, 2, 3 :: nat} \<le> card ?Q" by (intro card_mono) auto
  then have "2 * 1 + 1 \<le> card ?Q" by simp
  then show ?thesis
    using smash_keeps_agreed_prefix [OF demo_votes_good(1), of 1 1 "demo_history 1 (demo_entry 6)" "[demo_entry 5]" 1]
    by (simp add: demo_votes_good(2)) (simp add: demo_votes_def)
qed


end
