(* ===== verification/ZRequests.thy ===== *)
theory ZRequests
  imports ZNode Digests Registry
begin

section \<open>Requests, replies, order messages and checkpoints\<close>

text \<open>
  The messages of normal operation: \<open>zl_Request\<close>, \<open>zl_Reply\<close>, \<open>zl_Order_request\<close>,
  \<open>zl_Checkpoint\<close> and \<open>zl_Client_notification\<close>. A message is a record of the fields of its fixed part, its size field and
  the bytes behind the fixed part (\<open>tail\<close>), which hold the command or reply and the MACs. The
  functions ending in \<open>_rep_bytes\<close> give the bytes of the fixed part, over which MACs and signatures are
  computed. Lengths that the code computes in \<open>unsigned\<close> wrap.
\<close>

definition zl_Reply_tag :: int where "zl_Reply_tag = 1"
definition zl_Request_tag :: int where "zl_Request_tag = 2"
definition zl_Checkpoint_tag :: int where "zl_Checkpoint_tag = 3"
definition zl_Order_request_tag :: int where "zl_Order_request_tag = 8"
definition zl_Client_notification_tag :: int where "zl_Client_notification_tag = 9"

definition rep_header :: "int \<Rightarrow> int \<Rightarrow> int \<Rightarrow> byte list" where
  "rep_header tg extra sz = short_bytes tg @ short_bytes extra @ int32_bytes sz"

fun protocol_number :: "protocols_e \<Rightarrow> int" where
  "protocol_number quorum = 1"
| "protocol_number chain = 2"
| "protocol_number pbft = 4"
| "protocol_number zlight = 8"
| "protocol_number ring = 16"
| "protocol_number aardvark = 32"

subsection \<open>\<open>zl_Request\<close>\<close>

definition Request_rep_size :: nat where "Request_rep_size = 40"

record request =
  rq_extra :: int
  rq_size :: int
  rq_od :: digest
  rq_replier :: int
  rq_command_size :: int
  rq_cid :: int
  rq_rid :: request_id
  rq_tail :: "byte list"

definition request_rep_bytes :: "request \<Rightarrow> byte list" where
  "request_rep_bytes r =
     rep_header zl_Request_tag (rq_extra r) (rq_size r) @ digest_bytes (rq_od r) @ short_bytes (rq_replier r) @
     short_bytes (rq_command_size r) @ int32_bytes (rq_cid r) @ u64_bytes (rq_rid r)"

text \<open>The digest starts at the field \<open>cid\<close>; the length is computed in \<open>unsigned\<close>.\<close>

definition comp_digest :: "request \<Rightarrow> digest result" where
  "comp_digest r =
     rbind (read_bytes (int32_bytes (rq_cid r) @ u64_bytes (rq_rid r) @ rq_tail r) 0
              (nat (wrap32 (4 + 8 + rq_command_size r)))) (\<lambda>bs.
     Inr (Digest_of bs))"

definition is_read_only :: "request \<Rightarrow> bool" where
  "is_read_only r \<longleftrightarrow> odd (rq_extra r)"

definition request_command :: "request \<Rightarrow> byte list" where
  "request_command r = take (nat (rq_command_size r)) (rq_tail r)"

text \<open>
  A fresh request with its command stored: \<open>cmd\<close> are the \<open>act_len\<close> bytes written to \<open>store_command\<close>.
  The last argument of \<open>authenticate\<close> is the random number, \<open>lrand48()\<close>.
\<close>

definition request_new :: "node \<Rightarrow> request_id \<Rightarrow> int \<Rightarrow> byte list \<Rightarrow> request" where
  "request_new nd rid rr cmd =
     \<lparr>rq_extra = 0, rq_size = ALIGNED_SIZE (int Request_rep_size), rq_od = digest_zero, rq_replier = rr,
      rq_command_size = 0, rq_cid = node_id nd, rq_rid = rid, rq_tail = cmd\<rparr>"

definition short_of :: "int \<Rightarrow> int" where
  "short_of i = (let k = i mod 65536 in if k < 32768 then k else k - 65536)"

definition request_authenticate :: "crypto \<Rightarrow> node \<Rightarrow> request \<Rightarrow> bool \<Rightarrow> int \<Rightarrow> (request \<times> node) result" where
  "request_authenticate c nd r read_only rnd =
     (let act_len = int (length (rq_tail r)) in
      rbind (th_assert (act_len \<le> zl_Max_message_size - int Request_rep_size - auth_size nd (-1))) (\<lambda>_.
      let extra = (let e = (if odd (rq_extra r) then rq_extra r - 1 else rq_extra r) in if read_only then e + 1 else e);
          r1 = r\<lparr>rq_extra := extra, rq_command_size := short_of act_len,
                 rq_replier := (if rq_replier r = -1 then rnd mod num_replicas nd else rq_replier r)\<rparr>
      in rbind (comp_digest r1) (\<lambda>d.
         let old_size = int Request_rep_size + act_len;
             r2 = r1\<lparr>rq_od := d, rq_size := ALIGNED_SIZE (old_size + auth_size nd (-1))\<rparr>
         in rbind (gen_auth c nd (request_rep_bytes r2)) (\<lambda>(a, nd').
            Inr (r2\<lparr>rq_tail := rq_tail r2 @ a @ replicate (nat (rq_size r2 - old_size - auth_size nd (-1))) 0\<rparr>, nd')))))"

definition request_verify :: "crypto \<Rightarrow> node \<Rightarrow> request \<Rightarrow> bool result" where
  "request_verify c nd r =
     (let nid = node_id nd; cid = rq_cid r; old_size = int Request_rep_size + rq_command_size r in
      rbind (comp_digest r) (\<lambda>d.
      case i_to_p nd cid of
        None \<Rightarrow> Inr False
      | Some p \<Rightarrow>
          if d = rq_od r
          then if cid \<noteq> nid \<and> cid \<ge> num_replicas nd \<and> wrap32 (rq_size r - old_size) \<ge> auth_size nd cid
               then verify_auth c nd cid (request_rep_bytes r) (drop (nat old_size) (request_rep_bytes r @ rq_tail r))
               else Inr False
          else Inr False))"

subsection \<open>\<open>zl_Reply\<close>\<close>

definition Reply_rep_size :: nat where "Reply_rep_size = 80"

text \<open>\<open>rp_unused\<close> are the four bytes of the field \<open>unused\<close>; the three bytes after the boolean are padding.
  \<open>rp_instance\<close> is the value of the enumeration as the message holds it.\<close>

record reply =
  rp_extra :: int
  rp_size :: int
  rp_v :: int
  rp_rid :: request_id
  rp_rh_digest :: digest
  rp_digest :: digest
  rp_replica :: int
  rp_reply_size :: int
  rp_cid :: int
  rp_should_switch :: bool
  rp_instance :: int
  rp_unused :: "byte list"
  rp_tail :: "byte list"

definition reply_rep_bytes :: "reply \<Rightarrow> byte list" where
  "reply_rep_bytes r =
     rep_header zl_Reply_tag (rp_extra r) (rp_size r) @ u64_bytes (of_int (rp_v r)) @ u64_bytes (rp_rid r) @
     digest_bytes (rp_rh_digest r) @ digest_bytes (rp_digest r) @ int32_bytes (rp_replica r) @
     int32_bytes (rp_reply_size r) @ int32_bytes (rp_cid r) @ [if rp_should_switch r then 1 else 0] @ replicate 3 0 @
     int32_bytes (rp_instance r) @ rp_unused r"

definition full :: "reply \<Rightarrow> bool" where
  "full r \<longleftrightarrow> rp_reply_size r \<ge> 0"

definition reply_body :: "reply \<Rightarrow> byte list" where
  "reply_body r = take (nat (rp_reply_size r)) (rp_tail r)"

text \<open>The constructor of an empty reply, with its MAC for the principal \<open>p\<close>.\<close>

definition reply_new ::
  "crypto \<Rightarrow> node \<Rightarrow> principal \<Rightarrow> int \<Rightarrow> request_id \<Rightarrow> int \<Rightarrow> digest \<Rightarrow> int \<Rightarrow> (reply \<times> node) result" where
  "reply_new c nd p view req replica d cid =
     (case i_to_p nd (node_id nd) of
        None \<Rightarrow> Inl Null_deref
      | Some me \<Rightarrow>
          (let r = \<lparr>rp_extra = 0, rp_size = int (Reply_rep_size + zl_MAC_size), rp_v = view, rp_rid = req,
                    rp_rh_digest = digest_zero, rp_digest = d, rp_replica = replica, rp_reply_size = -1,
                    rp_cid = cid, rp_should_switch = False, rp_instance = protocol_number zlight, rp_unused = replicate 4 0, rp_tail = []\<rparr>
           in rbind (gen_mac_nonce c (umac_nonce nd) me (reply_rep_bytes r) (p_id p)) (\<lambda>(mac, n).
              Inr (r\<lparr>rp_tail := mac\<rparr>, nd\<lparr>umac_nonce := n\<rparr>))))"

definition set_instance_id :: "reply \<Rightarrow> protocols_e \<Rightarrow> reply" where
  "set_instance_id r nextp = r\<lparr>rp_should_switch := True, rp_instance := protocol_number nextp\<rparr>"

text \<open>\<open>authenticate(p, act_len)\<close> of a reply whose storage holds \<open>cap\<close> bytes behind the fixed part.\<close>

definition reply_authenticate :: "crypto \<Rightarrow> node \<Rightarrow> principal \<Rightarrow> nat \<Rightarrow> reply \<Rightarrow> int \<Rightarrow> (reply \<times> node) result" where
  "reply_authenticate c nd p cap r act_len =
     rbind (th_assert (wrap32 act_len \<le> int cap - int zl_MAC_size)) (\<lambda>_.
     case i_to_p nd (node_id nd) of
       None \<Rightarrow> Inl Null_deref
     | Some me \<Rightarrow>
         (let body = take (nat act_len) (rp_tail r);
              r1 = r\<lparr>rp_reply_size := act_len, rp_digest := Digest_of body,
                     rp_size := ALIGNED_SIZE (int Reply_rep_size + act_len + int zl_MAC_size)\<rparr>
          in rbind (gen_mac_nonce c (umac_nonce nd) me (reply_rep_bytes r1) (p_id p)) (\<lambda>(mac, n).
             Inr (r1\<lparr>rp_tail := body @ mac @ replicate (nat (rp_size r1 - int Reply_rep_size - act_len - int zl_MAC_size)) 0\<rparr>,
                  nd\<lparr>umac_nonce := n\<rparr>))))"

definition reply_verify :: "crypto \<Rightarrow> node \<Rightarrow> reply \<Rightarrow> bool result" where
  "reply_verify c nd r =
     (if \<not> is_replica nd (rp_replica r) then Inr False
      else
        (let rep_size = (if full r then rp_reply_size r else 0) in
         if wrap32 (rp_size r - int Reply_rep_size - rep_size) < int zl_MAC_size then Inr False
         else
           rbind (if full r then rbind (read_bytes (rp_tail r) 0 (nat rep_size)) (\<lambda>bs. Inr (Digest_of bs = rp_digest r))
                  else Inr True) (\<lambda>ok.
           if \<not> ok then Inr False
           else case i_to_p nd (rp_replica r) of
             None \<Rightarrow> Inl Null_deref
           | Some sender \<Rightarrow> verify_mac_nonce c (node_id nd) sender (reply_rep_bytes r) (drop (nat rep_size) (rp_tail r)))))"

definition reply_match :: "reply \<Rightarrow> reply \<Rightarrow> bool" where
  "reply_match q r \<longleftrightarrow>
     (if rp_reply_size r < 0 \<or> rp_reply_size q < 0 then True
      else rp_rh_digest q = rp_rh_digest r \<and> rp_v q = rp_v r \<and> rp_cid q = rp_cid r \<and> rp_rid q = rp_rid r \<and>
           (rp_reply_size r < 0 \<or> rp_reply_size q < 0 \<or> rp_digest q = rp_digest r))"

subsection \<open>\<open>zl_Order_request\<close>\<close>

definition Order_request_rep_size :: nat where "Order_request_rep_size = 40"

record order =
  or_extra :: int
  or_size :: int
  or_v :: int
  or_seq_num :: seqno
  or_req_id :: request_id
  or_cid :: int
  or_unused :: "byte list"
  or_auth :: "byte list"
  or_request :: request

definition order_rep_bytes :: "order \<Rightarrow> byte list" where
  "order_rep_bytes m =
     rep_header zl_Order_request_tag (or_extra m) (or_size m) @ u64_bytes (of_int (or_v m)) @
     u64_bytes (of_int (or_seq_num m)) @ u64_bytes (or_req_id m) @ int32_bytes (or_cid m) @ or_unused m"

text \<open>The request is copied before the size is checked; \<open>order_new\<close> returns the node with its nonce advanced.\<close>

definition order_new :: "crypto \<Rightarrow> node \<Rightarrow> int \<Rightarrow> seqno \<Rightarrow> request \<Rightarrow> (order \<times> node) result" where
  "order_new c nd view s req =
     (let total = int Order_request_rep_size + rq_size req + auth_size nd (-1) in
      if total > zl_Max_message_size then Inl Out_of_bounds
      else
        (let m = \<lparr>or_extra = 0, or_size = ALIGNED_SIZE total, or_v = view, or_seq_num = s, or_req_id = rq_rid req,
                  or_cid = rq_cid req, or_unused = replicate 4 0, or_auth = [], or_request = req\<rparr>
         in rbind (gen_auth c nd (order_rep_bytes m)) (\<lambda>(a, nd'). Inr (m\<lparr>or_auth := a\<rparr>, nd'))))"

definition order_verify :: "crypto \<Rightarrow> node \<Rightarrow> order \<Rightarrow> bool result" where
  "order_verify c nd m = verify_auth c nd 0 (order_rep_bytes m) (or_auth m)"

subsection \<open>\<open>zl_Checkpoint\<close> and \<open>zl_Client_notification\<close>\<close>

definition Checkpoint_rep_size :: nat where "Checkpoint_rep_size = 36"

record checkpoint =
  ck_extra :: int
  ck_size :: int
  ck_id :: int
  ck_seqid :: seqno
  ck_digest :: digest
  ck_tail :: "byte list"

definition checkpoint_rep_bytes :: "checkpoint \<Rightarrow> byte list" where
  "checkpoint_rep_bytes m =
     rep_header zl_Checkpoint_tag (ck_extra m) (ck_size m) @ int32_bytes (ck_id m) @
     u64_bytes (of_int (ck_seqid m)) @ digest_bytes (ck_digest m)"

definition checkpoint_new :: "node \<Rightarrow> checkpoint result" where
  "checkpoint_new nd =
     rbind (sig_size nd (-1)) (\<lambda>ss.
     Inr \<lparr>ck_extra = 0, ck_size = ALIGNED_SIZE (int (Checkpoint_rep_size + ss)), ck_id = node_id nd, ck_seqid = 0,
          ck_digest = digest_zero, ck_tail = replicate (nat (ALIGNED_SIZE (int (Checkpoint_rep_size + ss))) - Checkpoint_rep_size) 0\<rparr>)"

definition checkpoint_sign :: "crypto \<Rightarrow> node \<Rightarrow> checkpoint \<Rightarrow> checkpoint result" where
  "checkpoint_sign c nd m =
     rbind (gen_signature c nd (checkpoint_rep_bytes m)) (\<lambda>sig.
     rbind (put_bytes (ck_tail m) 0 sig) (\<lambda>t. Inr (m\<lparr>ck_tail := t\<rparr>)))"

definition re_authenticate :: "crypto \<Rightarrow> node \<Rightarrow> checkpoint \<Rightarrow> bool \<Rightarrow> checkpoint result" where
  "re_authenticate c nd m stab =
     (if ck_extra m \<noteq> 1 \<and> stab then checkpoint_sign c nd (m\<lparr>ck_extra := 1\<rparr>) else Inr m)"

definition checkpoint_verify :: "crypto \<Rightarrow> node \<Rightarrow> checkpoint \<Rightarrow> bool result" where
  "checkpoint_verify c nd m =
     (if \<not> is_replica nd (ck_id m) then Inr False
      else if ck_id m = node_id nd then Inr True
      else
        rbind (sig_size nd (ck_id m)) (\<lambda>ss.
        if wrap32 (ck_size m - int Checkpoint_rep_size) < int ss then Inr False
        else case i_to_p nd (ck_id m) of
          None \<Rightarrow> Inl Null_deref
        | Some p \<Rightarrow> verify_signature c (node_id nd) p (checkpoint_rep_bytes m) (ck_tail m) False))"

definition checkpoint_match :: "checkpoint \<Rightarrow> checkpoint \<Rightarrow> bool" where
  "checkpoint_match a b \<longleftrightarrow> ck_digest a = ck_digest b"

record notification =
  cn_op_type :: int
  cn_cid :: int
  cn_rid :: request_id

subsection \<open>Authenticated requests\<close>

lemma length_request_rep_bytes [simp]: "length (request_rep_bytes r) = 40"
  by (simp add: request_rep_bytes_def rep_header_def)

lemma short_of_small: "0 \<le> i \<Longrightarrow> i < 32768 \<Longrightarrow> short_of i = i"
  by (simp add: short_of_def Let_def)

lemma comp_digest_eq:
  assumes "0 \<le> rq_command_size r" "rq_command_size r < 32768" "nat (rq_command_size r) \<le> length (rq_tail r)"
  shows "comp_digest r = Inr (Digest_of (int32_bytes (rq_cid r) @ u64_bytes (rq_rid r) @ request_command r))"
proof -
  have "nat (wrap32 (4 + 8 + rq_command_size r)) = 12 + nat (rq_command_size r)"
    using assms(1,2) by (simp add: wrap32_def)
  then show ?thesis
    using assms(3) by (simp add: comp_digest_def read_bytes_def request_command_def)
qed

lemma auth_size_bounds:
  assumes "node_ok nd" "0 \<le> max_faulty nd"
  shows "0 \<le> auth_size nd i" "auth_size nd i \<le> 264" "node_id nd \<ge> num_replicas nd \<Longrightarrow> auth_size nd (-1) = num_replicas nd * 8 + 8"
    "num_replicas nd \<le> i \<Longrightarrow> auth_size nd i = num_replicas nd * 8 + 8"
  using assms by (auto simp: auth_size_def zl_UMAC_size_def zl_UNonce_size_def node_ok_def Max_num_replicas_def Let_def)

lemma request_authenticate_ok:
  assumes A: "node_ok A" "0 \<le> max_faulty A" and len: "length cmd < 32768" and fresh: "rq_tail r = cmd" "rq_extra r = 0"
  shows "\<exists>r' a A'. request_authenticate c A r ro rnd = Inr (r', A') \<and> gen_auth c A (request_rep_bytes r') = Inr (a, A') \<and>
     rq_cid r' = rq_cid r \<and> rq_rid r' = rq_rid r \<and> rq_command_size r' = int (length cmd) \<and> is_read_only r' = ro \<and>
     (\<exists>pad. rq_tail r' = cmd @ a @ pad) \<and>
     rq_size r' = ALIGNED_SIZE (40 + int (length cmd) + auth_size A (-1)) \<and>
     rq_od r' = Digest_of (int32_bytes (rq_cid r) @ u64_bytes (rq_rid r) @ cmd)"
proof -
  let ?n = "int (length cmd)"
  define r1 where "r1 = r\<lparr>rq_extra := if ro then 1 else 0, rq_command_size := ?n,
      rq_replier := if rq_replier r = -1 then rnd mod num_replicas A else rq_replier r\<rparr>"
  let ?d = "Digest_of (int32_bytes (rq_cid r) @ u64_bytes (rq_rid r) @ cmd)"
  have d: "comp_digest r1 = Inr ?d"
    using comp_digest_eq [of r1] len fresh by (simp add: r1_def request_command_def)
  define r2 where "r2 = r1\<lparr>rq_od := ?d, rq_size := ALIGNED_SIZE (40 + ?n + auth_size A (-1))\<rparr>"
  obtain a A' where a: "gen_auth c A (request_rep_bytes r2) = Inr (a, A')"
    using gen_auth_eq [OF A(1)] by blast
  let ?r = "r2\<lparr>rq_tail := cmd @ a @ replicate (nat (rq_size r2 - (40 + ?n) - auth_size A (-1))) 0\<rparr>"
  have bytes: "request_rep_bytes ?r = request_rep_bytes r2" by (simp add: request_rep_bytes_def)
  have "?n \<le> zl_Max_message_size - int Request_rep_size - auth_size A (-1)"
    using auth_size_bounds(1,2) [OF A, of "-1"] len by (simp add: zl_Max_message_size_def Request_rep_size_def)
  moreover have "r\<lparr>rq_extra := (let e = (if odd (rq_extra r) then rq_extra r - 1 else rq_extra r) in if ro then e + 1 else e),
      rq_command_size := short_of ?n, rq_replier := if rq_replier r = -1 then rnd mod num_replicas A else rq_replier r\<rparr> = r1"
    using fresh len by (simp add: r1_def short_of_small Let_def)
  ultimately have "request_authenticate c A r ro rnd = Inr (?r, A')"
    using fresh d a by (simp add: request_authenticate_def Request_rep_size_def r2_def Let_def)
  then show ?thesis
    using a bytes by (intro exI [of _ ?r] exI [of _ a] exI [of _ A']) (simp add: r2_def r1_def is_read_only_def)
qed

lemma request_verify_accepts:
  assumes B: "node_ok B" "0 \<le> max_faulty B" and cid: "num_replicas B \<le> rq_cid r" "rq_cid r < num_principals B" "rq_cid r \<noteq> node_id B"
    and r: "rq_command_size r = int (length cmd)" "length cmd < 32768" "rq_tail r = cmd @ a @ pad"
      "rq_size r = ALIGNED_SIZE (40 + int (length cmd) + (num_replicas B * 8 + 8))"
      "rq_od r = Digest_of (int32_bytes (rq_cid r) @ u64_bytes (rq_rid r) @ cmd)"
    and auth: "verify_auth c B (rq_cid r) (request_rep_bytes r) (a @ pad) = Inr True"
  shows "request_verify c B r = Inr True"
proof -
  have n: "0 \<le> num_replicas B" "num_replicas B \<le> 32"
    using B by (auto simp: node_ok_def Max_num_replicas_def)
  obtain p where p: "i_to_p B (rq_cid r) = Some p"
    using i_to_p_ok [OF B(1), of "rq_cid r"] cid(1,2) n by auto
  have "comp_digest r = Inr (rq_od r)"
    using comp_digest_eq [of r] r by (simp add: request_command_def)
  moreover have "wrap32 (rq_size r - (40 + int (length cmd))) \<ge> auth_size B (rq_cid r)"
    using ALIGNED_SIZE_props [of "40 + int (length cmd) + (num_replicas B * 8 + 8)"] n r(2)
      auth_size_bounds(4) [OF B cid(1)] by (simp add: r(4) wrap32_def)
  moreover have "drop (nat (40 + int (length cmd))) (request_rep_bytes r @ rq_tail r) = a @ pad"
    by (simp add: r(3) nat_add_distrib)
  ultimately show ?thesis
    using cid auth p by (simp add: request_verify_def r(1) Request_rep_size_def Let_def)
qed

text \<open>
  The size of the command is kept in a \<open>short\<close>: with 32768 bytes or more the digest runs over
  almost the whole address space.
\<close>

lemma request_large_command:
  assumes "node_ok A" "0 \<le> max_faulty A" "32768 \<le> length (rq_tail r)" "length (rq_tail r) \<le> 59000"
  shows "request_authenticate c A r ro rnd = Inl Out_of_bounds"
proof -
  let ?n = "int (length (rq_tail r))"
  have "short_of ?n = ?n - 65536" using assms(3,4) by (simp add: short_of_def Let_def)
  moreover have "nat (wrap32 (12 + (?n - 65536))) > length (rq_tail r) + 12"
  proof -
    have "wrap32 (12 + (?n - 65536)) = 12 + (?n - 65536) + 2 ^ 32"
      using mod_add_self2 [of "12 + (?n - 65536)" "2 ^ 32"] assms(3,4) by (simp add: wrap32_def)
    then show ?thesis using assms(3,4) by simp
  qed
  moreover have "?n \<le> zl_Max_message_size - int Request_rep_size - auth_size A (-1)"
    using auth_size_bounds(1,2) [OF assms(1,2), of "-1"] assms(4) by (simp add: zl_Max_message_size_def Request_rep_size_def)
  ultimately show ?thesis
    by (simp add: request_authenticate_def comp_digest_def read_bytes_def Let_def)
qed

subsection \<open>Properties\<close>

lemma request_accepted_by_all:
  assumes c: "crypto_ok c" and A: "node_ok A" "0 \<le> max_faulty A" "num_replicas A \<le> node_id A" and len: "length cmd < 32768"
  shows "\<exists>r A'. request_authenticate c A (request_new A rid rr cmd) ro rnd = Inr (r, A') \<and>
     request_command r = cmd \<and> is_read_only r = ro \<and> rq_rid r = rid \<and> rq_cid r = node_id A \<and>
     rq_size r = ALIGNED_SIZE (40 + int (length cmd) + (num_replicas A * 8 + 8)) \<and>
     (\<forall>B. node_ok B \<longrightarrow> num_replicas B = num_replicas A \<longrightarrow> num_principals B = num_principals A \<longrightarrow>
          node_id B < num_replicas B \<longrightarrow> request_verify c B r = Inr True)"
proof -
  have new: "rq_tail (request_new A rid rr cmd) = cmd" "rq_extra (request_new A rid rr cmd) = 0"
    "rq_cid (request_new A rid rr cmd) = node_id A" "rq_rid (request_new A rid rr cmd) = rid"
    by (simp_all add: request_new_def)
  obtain r a A' pad where r: "request_authenticate c A (request_new A rid rr cmd) ro rnd = Inr (r, A')"
    "gen_auth c A (request_rep_bytes r) = Inr (a, A')" "rq_cid r = node_id A" "rq_rid r = rid"
    "rq_command_size r = int (length cmd)" "is_read_only r = ro" "rq_tail r = cmd @ a @ pad"
    "rq_size r = ALIGNED_SIZE (40 + int (length cmd) + auth_size A (-1))"
    "rq_od r = Digest_of (int32_bytes (node_id A) @ u64_bytes rid @ cmd)"
    using request_authenticate_ok [OF A(1,2) len new(1,2), of c ro rnd] unfolding new(3,4) by blast
  note sz = auth_size_bounds(3) [OF A]
  have "request_verify c B r = Inr True"
    if B: "node_ok B" "num_replicas B = num_replicas A" "num_principals B = num_principals A" "node_id B < num_replicas B" for B
  proof -
    have mf: "0 \<le> max_faulty B" using A(1,2) B(1,2) by (simp add: node_ok_def)
    have "verify_auth c B (rq_cid r) (request_rep_bytes r) (a @ pad) = Inr True"
      unfolding r(3) by (rule auth_roundtrip [OF c A(1) B(1) _ _ B(4) _ r(2)]) (use A(3) B in simp_all)
    then show ?thesis
      by (intro request_verify_accepts [OF B(1) mf _ _ _ r(5) len r(7)])
        (use r(3,4,8,9) A(1,3) B sz in \<open>simp_all add: node_ok_def\<close>)
  qed
  then show ?thesis using r sz by (auto simp: request_command_def)
qed

text \<open>
  C19: a request of a client, with a command of fewer than 32768 bytes, passes the authentication of
  the client without failure and is accepted by every replica of the same configuration; the
  replica sees the command and the read-only flag the client gave.
\<close>

theorem request_accepted:
  assumes c: "crypto_ok c" "length (cf_lines cfg) = nat (cf_num_principals cfg)" "0 \<le> cf_max_faulty cfg"
    and A: "node_new c cfg addrA portA privA tvA = Inr A" "num_replicas A \<le> node_id A"
    and B: "node_new c cfg addrB portB privB tvB = Inr B" "node_id B < num_replicas B"
    and len: "length cmd < 32768"
  shows "\<exists>r A'. request_authenticate c A (request_new A rid rr cmd) ro rnd = Inr (r, A') \<and>
     request_verify c B r = Inr True \<and> request_command r = cmd \<and> is_read_only r = ro \<and> rq_rid r = rid"
proof -
  note okA = node_new_facts [OF A(1) c(2)] and okB = node_new_facts [OF B(1) c(2)]
  have mf: "0 \<le> max_faulty A" using okA c(3) by simp
  have "num_replicas B = num_replicas A" "num_principals B = num_principals A"
    using okA okB by (simp_all add: node_ok_def)
  then show ?thesis
    using request_accepted_by_all [OF c(1) okA(1) mf A(2) len, of rid rr ro rnd] okB(1) B(2) by blast
qed

theorem request_accepted_witness:
  "\<exists>r A'. request_authenticate demo_crypto (demo_node 4) (request_new (demo_node 4) 7 2 [1, 2, 3]) False 0 = Inr (r, A') \<and>
     request_verify demo_crypto (demo_node 1) r = Inr True \<and> request_command r = [1, 2, 3]"
proof -
  have "num_replicas (demo_node i) = 4" if "i < 5" for i
    using node_new_facts [OF demo_node_new(1) [OF that] demo_config_lines] by (simp add: node_ok_def demo_config_def)
  then show ?thesis
    using request_accepted [OF demo_crypto_ok demo_config_lines _ demo_node_new(1) _ demo_node_new(1), of 4 1 "[1, 2, 3]" 7 2 False 0]
      demo_node_new(2) [of 1] demo_node_new(2) [of 4] by (auto simp: demo_config_def)
qed

end
