(* ===== verification/ZClient.thy ===== *)
theory ZClient
  imports ZRequests Bitmaps Timers
begin

section \<open>Certificates of replies and the client\<close>

text \<open>
  \<open>zl_Certificate<T>\<close> (\<^verbatim>\<open>zl_Certificate.h\<close>, \<^verbatim>\<open>zl_Certificate.t\<close>) collects matching messages of different
  replicas; the methods of \<open>T\<close> are arguments. \<open>zl_Client\<close> (\<^verbatim>\<open>zl_Client.cc\<close>) sends one request at a time and
  waits for a complete certificate of replies. The messages the client sends are a list of destination
  and message; the datagrams it receives are a list in which \<open>None\<close> stands for one that
  is not a reply. The cycle counter, the clock and the random number are arguments.
\<close>

record 'm cert =
  ce_complete :: int
  ce_count :: int
  ce_bmap :: bitmap
  ce_value :: "'m option"

definition cert_new :: "int \<Rightarrow> 'm cert" where
  "cert_new cmpl = \<lparr>ce_complete = cmpl, ce_count = 0, ce_bmap = bm_new (nat Max_num_replicas) False, ce_value = None\<rparr>"

definition cert_is_complete :: "'m cert \<Rightarrow> bool" where
  "cert_is_complete ct \<longleftrightarrow> ce_count ct \<ge> ce_complete ct"

definition cert_clear :: "'m cert \<Rightarrow> 'm cert" where
  "cert_clear ct = ct\<lparr>ce_count := 0, ce_bmap := bm_clear (ce_bmap ct), ce_value := None\<rparr>"

definition cert_set_complete :: "'m cert \<Rightarrow> int \<Rightarrow> 'm cert" where
  "cert_set_complete ct k = ct\<lparr>ce_complete := k\<rparr>"

text \<open>The part of \<open>add\<close> and \<open>add_mine\<close> after the checks.\<close>

definition cert_record :: "('m \<Rightarrow> int) \<Rightarrow> ('m \<Rightarrow> bool) \<Rightarrow> 'm cert \<Rightarrow> 'm \<Rightarrow> 'm cert result" where
  "cert_record idf fullf ct m =
     rbind (bm_test (ce_bmap ct) (nat (idf m))) (\<lambda>t.
     rbind (if \<not> t then rbind (bm_set (ce_bmap ct) (nat (idf m))) (\<lambda>b. Inr (ct\<lparr>ce_bmap := b, ce_count := ce_count ct + 1\<rparr>))
            else Inr ct) (\<lambda>ct1.
     Inr (case ce_value ct1 of
            Some v \<Rightarrow> if \<not> fullf v \<and> fullf m then ct1\<lparr>ce_value := Some m\<rparr> else ct1
          | None \<Rightarrow> ct1\<lparr>ce_value := Some m\<rparr>)))"

definition cert_add ::
  "('m \<Rightarrow> int) \<Rightarrow> ('m \<Rightarrow> bool result) \<Rightarrow> ('m \<Rightarrow> 'm \<Rightarrow> bool) \<Rightarrow> ('m \<Rightarrow> bool) \<Rightarrow> node \<Rightarrow> 'm cert \<Rightarrow> 'm \<Rightarrow> (bool \<times> 'm cert) result" where
  "cert_add idf verifyf matchf fullf nd ct m =
     (if idf m = node_id nd then Inr (False, ct)
      else
        rbind (verifyf m) (\<lambda>ok.
        if ok \<and> is_replica nd (idf m)
        then if (case ce_value ct of None \<Rightarrow> True | Some v \<Rightarrow> matchf v m)
             then rbind (cert_record idf fullf ct m) (\<lambda>ct'. Inr (True, ct'))
             else Inr (False, ct)
        else Inr (False, ct)))"

definition cert_add_mine ::
  "('m \<Rightarrow> int) \<Rightarrow> ('m \<Rightarrow> 'm \<Rightarrow> bool) \<Rightarrow> ('m \<Rightarrow> bool) \<Rightarrow> node \<Rightarrow> 'm cert \<Rightarrow> 'm \<Rightarrow> (bool \<times> 'm cert) result" where
  "cert_add_mine idf matchf fullf nd ct m =
     rbind (th_assert (idf m = node_id nd)) (\<lambda>_.
     if is_replica nd (idf m)
     then if (case ce_value ct of None \<Rightarrow> True | Some v \<Rightarrow> matchf v m)
          then rbind (cert_record idf fullf ct m) (\<lambda>ct'. Inr (True, ct'))
          else Inr (False, ct)
     else Inr (False, ct))"

subsection \<open>The client\<close>

record zclient =
  cl_node :: node
  cl_out_rid :: request_id
  cl_out_req :: "request option"
  cl_n_retrans :: int
  cl_timers :: timers
  cl_rtimer :: nat
  cl_reps :: "reply cert"

definition client_new :: "node \<Rightarrow> int \<Rightarrow> u64 \<Rightarrow> int \<Rightarrow> timers \<Rightarrow> zclient result" where
  "client_new nd tv mhz junk tms =
     (if is_replica nd (node_id nd) then Inl Process_exit
      else
        (let (rid, nd') = new_rid tv nd in
         Inr \<lparr>cl_node = nd', cl_out_rid = rid, cl_out_req = None, cl_n_retrans = 0,
              cl_timers = timer_new mhz junk tms 500 0, cl_rtimer = length (tm_list tms),
              cl_reps = cert_new (3 * max_faulty nd + 1)\<rparr>))"

definition send_request ::
  "crypto \<Rightarrow> int \<Rightarrow> int \<Rightarrow> zclient \<Rightarrow> request \<Rightarrow> bool \<Rightarrow> (bool \<times> (int \<times> request) list \<times> zclient) result" where
  "send_request c rdtsc rnd cl req ro =
     (case cl_out_req cl of
        Some _ \<Rightarrow> Inr (False, [], cl)
      | None \<Rightarrow>
          rbind (request_authenticate c (cl_node cl) (req\<lparr>rq_rid := cl_out_rid cl\<rparr>) ro rnd) (\<lambda>(r, nd').
          Inr (True, [(primary nd', r)],
               cl\<lparr>cl_node := nd', cl_out_req := Some r, cl_reps := cert_clear (cl_reps cl), cl_n_retrans := 0,
                  cl_timers := timer_start rdtsc (cl_timers cl) (cl_rtimer cl)\<rparr>)))"

definition reply_add :: "crypto \<Rightarrow> node \<Rightarrow> reply cert \<Rightarrow> reply \<Rightarrow> (bool \<times> reply cert) result" where
  "reply_add c nd ct r = cert_add rp_replica (reply_verify c nd) reply_match full nd ct r"

text \<open>One round of the loop of \<open>recv_reply\<close>: the reply it returns, if any, and the client.\<close>

definition recv_step :: "crypto \<Rightarrow> int \<Rightarrow> zclient \<Rightarrow> reply option \<Rightarrow> (reply option \<times> zclient) result" where
  "recv_step c tv cl d =
     (case d of
        None \<Rightarrow> Inr (None, cl)
      | Some rep \<Rightarrow>
          if rp_rid rep \<noteq> cl_out_rid cl then Inr (None, cl)
          else if rp_should_switch rep
          then (let (rid, nd') = new_rid tv (cl_node cl) in
                Inr (Some rep, cl\<lparr>cl_timers := timer_stop (cl_timers cl) (cl_rtimer cl), cl_reps := cert_clear (cl_reps cl),
                                  cl_out_req := None, cl_out_rid := rid, cl_node := nd'\<rparr>))
          else
            rbind (reply_add c (cl_node cl) (cl_reps cl) rep) (\<lambda>(added, ct).
            let cl1 = cl\<lparr>cl_reps := ct\<rparr> in
            if \<not> added then Inr (None, cl1)
            else if cert_is_complete ct
            then (case ce_value ct of
                    None \<Rightarrow> Inl Null_deref
                  | Some v \<Rightarrow>
                      if full v
                      then (let (rid, nd') = (if \<not> rp_should_switch v then new_rid tv (cl_node cl1) else (cl_out_rid cl1, cl_node cl1)) in
                            Inr (Some v, cl1\<lparr>cl_out_rid := rid, cl_node := nd',
                                   cl_timers := timer_stop (cl_timers cl1) (cl_rtimer cl1), cl_reps := cert_clear ct,
                                   cl_out_req := None\<rparr>))
                      else Inr (None, cl1))
            else Inr (None, cl1)))"

text \<open>
  \<open>recv_reply\<close> on a sequence of datagrams: \<open>Inr None\<close> when it still waits at the end of them,
  otherwise the reply (\<open>None\<close> without an outstanding request), the client and the datagrams left.
\<close>

fun recv_loop :: "crypto \<Rightarrow> int \<Rightarrow> zclient \<Rightarrow> reply option list \<Rightarrow> (reply \<times> zclient \<times> reply option list) option result" where
  "recv_loop c tv cl [] = Inr None"
| "recv_loop c tv cl (d # ds) =
     rbind (recv_step c tv cl d) (\<lambda>(r, cl').
     case r of Some rep \<Rightarrow> Inr (Some (rep, cl', ds)) | None \<Rightarrow> recv_loop c tv cl' ds)"

definition recv_reply ::
  "crypto \<Rightarrow> int \<Rightarrow> zclient \<Rightarrow> reply option list \<Rightarrow> (reply option \<times> zclient \<times> reply option list) option result" where
  "recv_reply c tv cl ds =
     (case cl_out_req cl of
        None \<Rightarrow> Inr (Some (None, cl, ds))
      | Some _ \<Rightarrow> rbind (recv_loop c tv cl ds) (\<lambda>res. Inr (map_option (\<lambda>(r, cl', rest). (Some r, cl', rest)) res)))"

definition retransmit :: "int \<Rightarrow> zclient \<Rightarrow> (int \<times> request) list \<times> zclient" where
  "retransmit rdtsc cl =
     (case cl_out_req cl of
        None \<Rightarrow> ([], cl\<lparr>cl_timers := timer_restart rdtsc (cl_timers cl) (cl_rtimer cl)\<rparr>)
      | Some req \<Rightarrow>
          (let n = cl_n_retrans cl + 1;
               dest = (if is_read_only req \<or> n > 1 then zl_All_replicas else primary (cl_node cl))
           in ([(dest, req)], cl\<lparr>cl_n_retrans := n, cl_timers := timer_restart rdtsc (cl_timers cl) (cl_rtimer cl)\<rparr>)))"

subsection \<open>What a certificate holds\<close>

text \<open>
  \<open>cert_inv\<close>: the certificate records messages of \<open>M\<close> only, which were verified and came from
  replicas; it counts each sender once.
\<close>

definition cert_inv :: "('m \<Rightarrow> int) \<Rightarrow> ('m \<Rightarrow> bool result) \<Rightarrow> node \<Rightarrow> 'm set \<Rightarrow> 'm cert \<Rightarrow> bool" where
  "cert_inv idf verifyf nd M ct \<longleftrightarrow>
     bm_ok (ce_bmap ct) \<and> bm_num (ce_bmap ct) = 32 \<and>
     ce_count ct = int (length (filter id (bm_bits (ce_bmap ct)))) \<and>
     (\<forall>i < 32. bm_bits (ce_bmap ct) ! i \<longrightarrow> (\<exists>m \<in> M. idf m = int i \<and> verifyf m = Inr True \<and> is_replica nd (int i))) \<and>
     (\<forall>v. ce_value ct = Some v \<longrightarrow> v \<in> M \<and> verifyf v = Inr True \<and> is_replica nd (idf v))"

lemma cert_new_inv: "cert_inv idf verifyf nd M (cert_new k)"
  by (simp add: cert_inv_def cert_new_def Max_num_replicas_def bm_new_ok bm_bits_new)

lemma bm_clear_bits:
  assumes "bm_ok b"
  shows "bm_ok (bm_clear b)" "bm_num (bm_clear b) = bm_num b" "bm_bits (bm_clear b) = replicate (bm_num b) False"
proof -
  show "bm_ok (bm_clear b)" "bm_num (bm_clear b) = bm_num b" using assms by (simp_all add: bm_ok_def bm_clear_def)
  show "bm_bits (bm_clear b) = replicate (bm_num b) False"
    using bm_ok_chunk [OF assms] by (intro nth_equalityI) (simp_all add: bm_bits_def bm_bit_def bm_clear_def)
qed

lemma cert_clear_inv: "cert_inv idf verifyf nd M ct \<Longrightarrow> cert_inv idf' verifyf' nd' M' (cert_clear ct)"
  using bm_clear_bits [of "ce_bmap ct"] by (simp add: cert_inv_def cert_clear_def)

lemma cert_inv_mono: "cert_inv idf verifyf nd M ct \<Longrightarrow> M \<subseteq> M' \<Longrightarrow> cert_inv idf verifyf nd M' ct"
  unfolding cert_inv_def by blast

lemma cert_record_inv:
  assumes inv: "cert_inv idf verifyf nd M ct" and m: "m \<in> M" "verifyf m = Inr True" "is_replica nd (idf m)" "num_replicas nd \<le> 32"
  shows "\<exists>ct'. cert_record idf fullf ct m = Inr ct' \<and> cert_inv idf verifyf nd M ct' \<and> ce_complete ct' = ce_complete ct \<and>
     ce_value ct' \<noteq> None"
proof -
  define i where "i = nat (idf m)"
  have i: "i < 32" "idf m = int i" using m(3,4) by (auto simp: i_def is_replica_def)
  have ok: "bm_ok (ce_bmap ct)" "bm_num (ce_bmap ct) = 32" using inv by (simp_all add: cert_inv_def)
  have t: "bm_test (ce_bmap ct) i = Inr (bm_bits (ce_bmap ct) ! i)" using bm_test_eq [OF ok(1)] ok(2) i by simp
  let ?val = "\<lambda>ct1. case ce_value ct1 of Some v \<Rightarrow> if \<not> fullf v \<and> fullf m then ct1\<lparr>ce_value := Some m\<rparr> else ct1
          | None \<Rightarrow> ct1\<lparr>ce_value := Some m\<rparr>"
  have val: "cert_inv idf verifyf nd M (?val ct1) \<and> ce_complete (?val ct1) = ce_complete ct1 \<and> ce_value (?val ct1) \<noteq> None"
    if "cert_inv idf verifyf nd M ct1" for ct1
    using that m(1-3) by (auto simp: cert_inv_def split: option.split)
  show ?thesis
  proof (cases "bm_bits (ce_bmap ct) ! i")
    case True
    then have "cert_record idf fullf ct m = Inr (?val ct)"
      using t by (simp add: cert_record_def i_def [symmetric])
    then show ?thesis using val [OF inv] by blast
  next
    case False
    obtain b where b: "bm_set (ce_bmap ct) i = Inr b" "bm_ok b" "bm_num b = 32" "bm_bits b = (bm_bits (ce_bmap ct))[i := True]"
      using bm_set_eq [OF ok(1), of i] ok(2) i by auto
    let ?ct = "ct\<lparr>ce_bmap := b, ce_count := ce_count ct + 1\<rparr>"
    have "length (filter id (bm_bits b)) = Suc (length (filter id (bm_bits (ce_bmap ct))))"
      using length_filter_list_update [of i "bm_bits (ce_bmap ct)" id True] False ok(2) i by (simp add: b(4))
    moreover have "\<exists>m \<in> M. idf m = int j \<and> verifyf m = Inr True \<and> is_replica nd (int j)" if "j < 32" "bm_bits b ! j" for j
      using that inv m i by (cases "j = i") (auto simp: b(4) cert_inv_def)
    ultimately have "cert_inv idf verifyf nd M ?ct"
      using inv b(2,3) by (simp add: cert_inv_def)
    moreover have "cert_record idf fullf ct m = Inr (?val ?ct)"
      using t False b(1) by (simp add: cert_record_def i_def [symmetric])
    ultimately show ?thesis using val [of ?ct] by auto
  qed
qed

lemma cert_add_inv:
  assumes inv: "cert_inv idf verifyf nd M ct" and "num_replicas nd \<le> 32" and "cert_add idf verifyf matchf fullf nd ct m = Inr (added, ct')"
  shows "cert_inv idf verifyf nd (insert m M) ct' \<and> ce_complete ct' = ce_complete ct \<and> (added \<longrightarrow> ce_value ct' \<noteq> None)"
proof (cases "idf m \<noteq> node_id nd \<and> verifyf m = Inr True \<and> is_replica nd (idf m) \<and>
    (case ce_value ct of None \<Rightarrow> True | Some v \<Rightarrow> matchf v m)")
  case True
  have "cert_inv idf verifyf nd (insert m M) ct" using inv by (rule cert_inv_mono) auto
  then obtain ct1 where "cert_record idf fullf ct m = Inr ct1" "cert_inv idf verifyf nd (insert m M) ct1"
      "ce_complete ct1 = ce_complete ct" "ce_value ct1 \<noteq> None"
    using cert_record_inv [of idf verifyf nd "insert m M" ct m fullf] True assms(2) by auto
  then show ?thesis using assms(3) True by (simp add: cert_add_def)
next
  case False
  then have "added = False \<and> ct' = ct"
    using assms(3) by (auto simp: cert_add_def rbind_eq_Inr split: if_splits)
  then show ?thesis using cert_inv_mono [OF inv, of "insert m M"] by blast
qed

text \<open>A complete certificate for all replicas has a message of every one of them.\<close>

lemma cert_complete_all:
  assumes inv: "cert_inv idf verifyf nd M ct" and n: "num_replicas nd \<le> 32" "ce_complete ct = num_replicas nd" "cert_is_complete ct"
    and i: "0 \<le> i" "i < num_replicas nd"
  shows "\<exists>m \<in> M. idf m = i \<and> verifyf m = Inr True"
proof -
  let ?S = "{j. j < 32 \<and> bm_bits (ce_bmap ct) ! j}"
  have ok: "bm_num (ce_bmap ct) = 32" using inv by (simp add: cert_inv_def)
  have card: "int (card ?S) = ce_count ct"
    using inv ok card_filter_index [of id "bm_bits (ce_bmap ct)"] by (simp add: cert_inv_def)
  have sub: "?S \<subseteq> {..<nat (num_replicas nd)}"
    using inv by (auto simp: cert_inv_def is_replica_def nat_less_iff)
  have "nat (num_replicas nd) \<le> card ?S"
    using card n(2,3) by (simp add: cert_is_complete_def)
  then have "?S = {..<nat (num_replicas nd)}"
    using card_subset_eq [OF _ sub] card_mono [OF _ sub] by simp
  moreover have "nat i \<in> {..<nat (num_replicas nd)}" using i by simp
  ultimately have "nat i < 32" "bm_bits (ce_bmap ct) ! nat i" by blast+
  then show ?thesis using inv i(1) unfolding cert_inv_def by force
qed

subsection \<open>What the client returns\<close>

definition client_inv :: "crypto \<Rightarrow> reply set \<Rightarrow> zclient \<Rightarrow> bool" where
  "client_inv c M cl \<longleftrightarrow> cert_inv rp_replica (reply_verify c (cl_node cl)) (cl_node cl) M (cl_reps cl) \<and>
     ce_complete (cl_reps cl) = num_replicas (cl_node cl) \<and> num_replicas (cl_node cl) \<le> 32"

lemma reply_add_inv:
  assumes "client_inv c M cl" "reply_add c (cl_node cl) (cl_reps cl) rep = Inr (added, ct)"
  shows "cert_inv rp_replica (reply_verify c (cl_node cl)) (cl_node cl) (insert rep M) ct"
    "ce_complete ct = num_replicas (cl_node cl)" "num_replicas (cl_node cl) \<le> 32"
proof -
  have i: "cert_inv rp_replica (reply_verify c (cl_node cl)) (cl_node cl) M (cl_reps cl)"
    "ce_complete (cl_reps cl) = num_replicas (cl_node cl)" "num_replicas (cl_node cl) \<le> 32"
    using assms(1) by (simp_all add: client_inv_def)
  show "cert_inv rp_replica (reply_verify c (cl_node cl)) (cl_node cl) (insert rep M) ct"
    "ce_complete ct = num_replicas (cl_node cl)" "num_replicas (cl_node cl) \<le> 32"
    using cert_add_inv [OF i(1,3) assms(2) [unfolded reply_add_def]] i(2,3) by simp_all
qed

lemma recv_step_waits:
  assumes inv: "client_inv c M cl" and step: "recv_step c tv cl (Some rep) = Inr (None, cl')"
  shows "client_inv c (if rp_rid rep = cl_out_rid cl then insert rep M else M) cl' \<and> cl_node cl' = cl_node cl \<and> cl_out_rid cl' = cl_out_rid cl"
proof (cases "rp_rid rep = cl_out_rid cl")
  case True
  then have nosw: "\<not> rp_should_switch rep"
    using step by (auto simp: recv_step_def split: prod.splits)
  then obtain added ct where add: "reply_add c (cl_node cl) (cl_reps cl) rep = Inr (added, ct)"
    using step True by (auto simp: recv_step_def rbind_eq_Inr)
  then have "cl' = cl\<lparr>cl_reps := ct\<rparr>"
    using step True nosw by (auto simp: recv_step_def Let_def split: if_splits option.splits prod.splits)
  then show ?thesis
    using reply_add_inv [OF inv add] True by (simp add: client_inv_def)
next
  case False
  then show ?thesis using inv step by (simp add: recv_step_def)
qed

lemma recv_step_returns:
  assumes inv: "client_inv c M cl" and step: "recv_step c tv cl (Some rep) = Inr (Some r, cl')" and nosw: "\<not> rp_should_switch r"
  shows "rp_rid rep = cl_out_rid cl \<and> full r \<and> r \<in> insert rep M \<and> reply_verify c (cl_node cl) r = Inr True \<and>
     (\<forall>i. 0 \<le> i \<and> i < num_replicas (cl_node cl) \<longrightarrow>
        (\<exists>q \<in> insert rep M. rp_replica q = i \<and> reply_verify c (cl_node cl) q = Inr True))"
proof -
  have rid: "rp_rid rep = cl_out_rid cl" using step by (auto simp: recv_step_def split: if_splits)
  moreover have "\<not> rp_should_switch rep"
    using step nosw rid by (auto simp: recv_step_def split: prod.splits)
  ultimately obtain added ct where add: "reply_add c (cl_node cl) (cl_reps cl) rep = Inr (added, ct)"
    and comp: "cert_is_complete ct" "ce_value ct = Some r" "full r"
    using step by (auto simp: recv_step_def rbind_eq_Inr Let_def split: if_splits option.splits prod.splits)
  note ct = reply_add_inv [OF inv add]
  have "r \<in> insert rep M \<and> reply_verify c (cl_node cl) r = Inr True"
    using ct(1) comp(2) unfolding cert_inv_def by blast
  then show ?thesis
    using cert_complete_all [OF ct(1,3,2) comp(1)] rid comp(3) by blast
qed

lemma recv_loop_returns:
  assumes "client_inv c M cl" "recv_loop c tv cl ds = Inr (Some (r, cl', rest))" "\<not> rp_should_switch r"
    and "\<forall>q \<in> M. rp_rid q = cl_out_rid cl"
  shows "\<exists>ps. ds = ps @ rest \<and> full r \<and> reply_verify c (cl_node cl) r = Inr True \<and> (r \<in> M \<or> Some r \<in> set ps) \<and> rp_rid r = cl_out_rid cl \<and>
     (\<forall>i. 0 \<le> i \<and> i < num_replicas (cl_node cl) \<longrightarrow>
        (\<exists>q. (q \<in> M \<or> Some q \<in> set ps) \<and> rp_replica q = i \<and> rp_rid q = cl_out_rid cl \<and> reply_verify c (cl_node cl) q = Inr True))"
  using assms
proof (induction ds arbitrary: cl M)
  case (Cons d ds)
  obtain x cl1 where step: "recv_step c tv cl d = Inr (x, cl1)"
    using Cons.prems(2) by (auto simp: rbind_eq_Inr)
  show ?case
  proof (cases x)
    case None
    show ?thesis
    proof (cases d)
      case None
      then have "cl1 = cl" using step \<open>x = None\<close> by (simp add: recv_step_def)
      then have "recv_loop c tv cl ds = Inr (Some (r, cl', rest))" using Cons.prems(2) step \<open>x = None\<close> by simp
      from Cons.IH [OF Cons.prems(1) this Cons.prems(3,4)] obtain ps where "ds = ps @ rest" "full r" "reply_verify c (cl_node cl) r = Inr True"
        "r \<in> M \<or> Some r \<in> set ps" "rp_rid r = cl_out_rid cl"
        "\<forall>i. 0 \<le> i \<and> i < num_replicas (cl_node cl) \<longrightarrow>
          (\<exists>q. (q \<in> M \<or> Some q \<in> set ps) \<and> rp_replica q = i \<and> rp_rid q = cl_out_rid cl \<and> reply_verify c (cl_node cl) q = Inr True)"
        by blast
      then show ?thesis by (intro exI [of _ "d # ps"]) auto
    next
      case (Some rep)
      let ?M = "if rp_rid rep = cl_out_rid cl then insert rep M else M"
      have s: "client_inv c ?M cl1" "cl_node cl1 = cl_node cl" "cl_out_rid cl1 = cl_out_rid cl"
        using recv_step_waits [OF Cons.prems(1)] step Some \<open>x = None\<close> by blast+
      have l: "recv_loop c tv cl1 ds = Inr (Some (r, cl', rest))" using Cons.prems(2) step \<open>x = None\<close> by simp
      have m: "\<forall>q \<in> ?M. rp_rid q = cl_out_rid cl1" using Cons.prems(4) s(3) by auto
      from Cons.IH [OF s(1) l Cons.prems(3) m] obtain ps where "ds = ps @ rest" "full r" "reply_verify c (cl_node cl) r = Inr True"
        "r \<in> ?M \<or> Some r \<in> set ps" "rp_rid r = cl_out_rid cl"
        "\<forall>i. 0 \<le> i \<and> i < num_replicas (cl_node cl) \<longrightarrow>
          (\<exists>q. (q \<in> ?M \<or> Some q \<in> set ps) \<and> rp_replica q = i \<and> rp_rid q = cl_out_rid cl \<and> reply_verify c (cl_node cl) q = Inr True)"
        unfolding s(2,3) by blast
      moreover have "q \<in> ?M \<or> Some q \<in> set ps \<Longrightarrow> q \<in> M \<or> Some q \<in> set (d # ps)" for q
        using Some by (auto split: if_splits)
      ultimately show ?thesis
        by (intro exI [of _ "d # ps"]) (simp, meson)
    qed
  next
    case (Some r')
    then have r': "r' = r" "ds = rest" using Cons.prems(2) step by auto
    then obtain rep where rep: "d = Some rep" using step Some by (cases d) (auto simp: recv_step_def)
    have "rp_rid rep = cl_out_rid cl \<and> full r \<and> r \<in> insert rep M \<and> reply_verify c (cl_node cl) r = Inr True \<and>
      (\<forall>i. 0 \<le> i \<and> i < num_replicas (cl_node cl) \<longrightarrow>
        (\<exists>q \<in> insert rep M. rp_replica q = i \<and> reply_verify c (cl_node cl) q = Inr True))"
      by (rule recv_step_returns [OF Cons.prems(1) _ Cons.prems(3)]) (use step Some r' rep in simp)
    then show ?thesis
      using r'(2) rep Cons.prems(4) by (intro exI [of _ "[d]"]) (simp, blast)
  qed
qed simp

lemma gen_auth_node: "gen_auth c nd s = Inr (d, nd') \<Longrightarrow> nd' = nd\<lparr>umac_nonce := umac_nonce nd + 1\<rparr>"
  by (auto simp: gen_auth_def rbind_eq_Inr Let_def split: option.splits)

lemma request_authenticate_node:
  "request_authenticate c nd r ro rnd = Inr (r', nd') \<Longrightarrow> nd' = nd\<lparr>umac_nonce := umac_nonce nd + 1\<rparr>"
  by (auto simp: request_authenticate_def rbind_eq_Inr Let_def dest!: gen_auth_node)

text \<open>The replies are authentic: what \<open>authenticate\<close> produces passes \<open>verify\<close> at the client.\<close>

lemma reply_tail_verified:
  assumes c: "crypto_ok c" and A: "node_ok A" and B: "node_ok B" and same: "num_principals A = num_principals B" "num_replicas A = num_replicas B"
    and ne: "node_id A \<noteq> node_id B" and repl: "node_id B < num_replicas B"
    and r: "rp_replica r = node_id B" "rp_reply_size r = int (length body)" "rp_digest r = Digest_of body"
      "rp_size r = ALIGNED_SIZE (80 + int (length body) + 16)" "length body < 60000"
    and me: "i_to_p B (node_id B) = Some me"
    and mac: "gen_mac_nonce c (umac_nonce B) me (reply_rep_bytes r) (node_id A) = Inr (mac, n)"
    and t: "rp_tail r' = body @ mac @ pad" "r' = r\<lparr>rp_tail := rp_tail r'\<rparr>"
  shows "reply_verify c A r' = Inr True"
proof -
  have b: "0 \<le> node_id B" "node_id B < num_principals B" "0 \<le> node_id A" "node_id A < num_principals B" "node_id B < num_principals A"
    using A B same by (auto simp: node_ok_def)
  obtain sn where sn: "i_to_p A (node_id B) = Some sn" "principal_ok (node_id A) (num_principals A) (nat (node_id B)) sn"
    using i_to_p_ok [OF A b(1,5)] .
  have me': "principal_ok (node_id B) (num_principals B) (nat (node_id B)) me" using i_to_p_ok [OF B b(1,2)] me by auto
  let ?u = "u64_bytes (umac_nonce B + 1)"
  let ?tag = "cr_umac c (chan_key (node_id B) (node_id A)) (reply_rep_bytes r) ?u"
  have tag: "length ?tag = 8" using c by (simp add: crypto_ok_def zl_UMAC_size_def)
  have mac': "mac = ?u @ ?tag" using mac gen_mac_own [OF me' b(1,3,4)] by (auto simp: gen_mac_nonce_def Let_def)
  have bytes: "reply_rep_bytes r' = reply_rep_bytes r" by (subst t(2)) (simp add: reply_rep_bytes_def)
  have f: "rp_replica r' = node_id B" "rp_reply_size r' = int (length body)" "rp_digest r' = Digest_of body"
    "rp_size r' = ALIGNED_SIZE (80 + int (length body) + 16)"
    using r by (subst t(2), simp)+
  have "read_bytes ((?u @ ?tag) @ pad) 0 8 = Inr ?u" "read_bytes ((?u @ ?tag) @ pad) 8 8 = Inr ?tag"
    using tag by (simp_all add: read_bytes_def)
  then have "verify_mac_nonce c (node_id A) sn (reply_rep_bytes r) ((?u @ ?tag) @ pad) = Inr True"
    using verify_mac_other [OF sn(2) b(1) ne [symmetric]] tag
    by (simp add: verify_mac_nonce_def zl_UMAC_size_def zl_UNonce_size_def)
  moreover have "\<not> wrap32 (ALIGNED_SIZE (80 + int (length body) + 16) - 80 - int (length body)) < 16"
    using ALIGNED_SIZE_props [of "80 + int (length body) + 16"] r(5) by (simp add: wrap32_def)
  moreover have "is_replica A (node_id B)" using b repl same by (simp add: is_replica_def)
  ultimately show ?thesis
    using sn(1) f bytes t(1)
    by (simp add: reply_verify_def full_def mac' Reply_rep_size_def zl_MAC_size_def zl_UMAC_size_def zl_UNonce_size_def read_bytes_def Let_def)
qed

lemma reply_authenticate_verified:
  assumes c: "crypto_ok c" and A: "node_ok A" and B: "node_ok B" and same: "num_principals A = num_principals B" "num_replicas A = num_replicas B"
    and ne: "node_id A \<noteq> node_id B" and repl: "node_id B < num_replicas B"
    and p: "p_id p = node_id A" and len: "act_len = int n" "n \<le> length (rp_tail r)" "n + 16 \<le> cap" "n < 60000" and rp: "rp_replica r = node_id B"
  shows "\<exists>r' B'. reply_authenticate c B p cap r act_len = Inr (r', B') \<and> reply_verify c A r' = Inr True \<and>
     reply_body r' = take n (rp_tail r) \<and> rp_rid r' = rp_rid r \<and> full r' \<and> rp_should_switch r' = rp_should_switch r \<and>
     rp_replica r' = rp_replica r"
proof -
  have b: "0 \<le> node_id B" "node_id B < num_principals B" "0 \<le> node_id A" "node_id A < num_principals B"
    using A B same by (auto simp: node_ok_def)
  obtain me where me: "i_to_p B (node_id B) = Some me" "principal_ok (node_id B) (num_principals B) (nat (node_id B)) me"
    using i_to_p_ok [OF B b(1,2)] .
  define body where "body = take n (rp_tail r)"
  have l: "length body = n" using len by (simp add: body_def)
  define r1 where "r1 = r\<lparr>rp_reply_size := int n, rp_digest := Digest_of body, rp_size := ALIGNED_SIZE (80 + int n + 16)\<rparr>"
  obtain mac k where mac: "gen_mac_nonce c (umac_nonce B) me (reply_rep_bytes r1) (node_id A) = Inr (mac, k)"
    using gen_mac_own [OF me(2) b(1,3,4)] by (simp add: gen_mac_nonce_def Let_def)
  let ?pad = "replicate (nat (ALIGNED_SIZE (80 + int n + 16) - 80 - int n - 16)) 0"
  let ?r = "r1\<lparr>rp_tail := body @ mac @ ?pad\<rparr>"
  have "wrap32 (int n) \<le> int cap - 16" using len by (simp add: wrap32_def)
  then have "reply_authenticate c B p cap r act_len = Inr (?r, B\<lparr>umac_nonce := k\<rparr>)"
    using len(1) me(1) mac p
    by (simp add: reply_authenticate_def zl_MAC_size_def zl_UMAC_size_def zl_UNonce_size_def Reply_rep_size_def Let_def r1_def body_def)
  moreover have "reply_verify c A ?r = Inr True"
    by (rule reply_tail_verified [OF c A B same ne repl _ _ _ _ _ me(1) mac]) (use rp l len in \<open>simp_all add: r1_def\<close>)
  ultimately show ?thesis
    using len by (intro exI conjI) (assumption, assumption, simp_all add: reply_body_def r1_def body_def full_def)
qed

text \<open>
  A reply that asks the client to switch is not verified: any datagram with the right request
  identifier ends the wait.
\<close>

lemma client_switches_unverified:
  "rp_rid rep = cl_out_rid cl \<Longrightarrow> rp_should_switch rep \<Longrightarrow> \<exists>cl'. recv_step c tv cl (Some rep) = Inr (Some rep, cl') \<and> cl_out_req cl' = None"
  by (auto simp: recv_step_def split: prod.split)

lemma reply_match_empty: "rp_reply_size q < 0 \<Longrightarrow> reply_match q r"
  by (simp add: reply_match_def)

subsection \<open>Properties\<close>


definition demo_config0 :: config where
  "demo_config0 = \<lparr>cf_max_faulty = 0, cf_num_principals = 2, cf_group = (99, 7000),
     cf_lines = map (\<lambda>i. \<lparr>cl_host = ''h'', cl_addr = of_nat i, cl_port = 6000, cl_pk = 15\<rparr>) [0..<2]\<rparr>"

definition demo_node0 :: "nat \<Rightarrow> node" where
  "demo_node0 i = projr (node_new demo_crypto demo_config0 (Some (of_nat i)) 0 None 1000)"

lemma demo_node0_new:
  assumes "i < 2"
  shows "node_new demo_crypto demo_config0 (Some (of_nat i)) 0 None 1000 = Inr (demo_node0 i)"
    and "node_id (demo_node0 i) = int i" and "cur_primary (demo_node0 i) = 0"
proof -
  have "i = 0 \<or> i = 1" using assms by linarith
  then show "node_new demo_crypto demo_config0 (Some (of_nat i)) 0 None 1000 = Inr (demo_node0 i)"
    "node_id (demo_node0 i) = int i" "cur_primary (demo_node0 i) = 0"
    by (auto simp: demo_node0_def node_new_def demo_config0_def Max_num_replicas_def Let_def upt_rec)
qed

lemma demo_node0_ok:
  assumes "i < 2"
  shows "node_ok (demo_node0 i)" "num_replicas (demo_node0 i) = 1" "num_principals (demo_node0 i) = 2" "max_faulty (demo_node0 i) = 0"
  using node_new_facts [OF demo_node0_new(1) [OF assms]] by (simp_all add: demo_config0_def node_ok_def)

definition demo_client :: zclient where
  "demo_client = projr (client_new (demo_node0 1) 1000 1 0 timers_new)"

lemma demo_client_eq:
  "demo_client = \<lparr>cl_node = snd (new_rid 1000 (demo_node0 1)), cl_out_rid = fst (new_rid 1000 (demo_node0 1)), cl_out_req = None,
     cl_n_retrans = 0, cl_timers = timer_new 1 0 timers_new 500 0, cl_rtimer = 0, cl_reps = cert_new 1\<rparr>"
  using demo_node0_new(2) [of 1] demo_node0_ok [of 1]
  by (simp add: demo_client_def client_new_def is_replica_def timers_new_def case_prod_beta)

lemma demo_client_inv: "client_inv demo_crypto {} demo_client" "cl_out_req demo_client = None"
  "cl_node demo_client = (demo_node0 1)\<lparr>cur_rid := cl_out_rid demo_client\<rparr>" "cl_reps demo_client = cert_new 1"
proof -
  show nd: "cl_node demo_client = (demo_node0 1)\<lparr>cur_rid := cl_out_rid demo_client\<rparr>"
    by (simp add: demo_client_eq new_rid_def Let_def)
  show "client_inv demo_crypto {} demo_client"
    using demo_node0_ok [of 1] cert_new_inv unfolding client_inv_def nd by (simp add: demo_client_eq) (simp add: cert_new_def)
qed (simp_all add: demo_client_eq)

lemma demo_first_reply:
  assumes "idf m = 0"
  shows "\<exists>ct'. cert_record idf fullf (cert_clear (cert_new 1)) m = Inr ct' \<and> ce_count ct' = 1 \<and> ce_complete ct' = 1 \<and> ce_value ct' = Some m"
  using assms
  by (simp add: cert_record_def cert_clear_def cert_new_def Max_num_replicas_def bm_clear_def bm_new_def bm_test_def bm_set_def
      bm_change_def chunk_at_def)

definition demo_reply :: "request_id \<Rightarrow> reply" where
  "demo_reply rid = \<lparr>rp_extra = 0, rp_size = 96, rp_v = 0, rp_rid = rid, rp_rh_digest = digest_zero, rp_digest = digest_zero,
     rp_replica = 0, rp_reply_size = -1, rp_cid = 1, rp_should_switch = False, rp_instance = protocol_number zlight,
     rp_unused = replicate 4 0, rp_tail = [5, 6]\<rparr>"

lemma demo_principal: "\<exists>p :: principal. p_id p = 1"
  by (rule exI [of _ "principal_new demo_crypto 0 1 2 (0, 0) None"]) (simp add: principal_new_def)


end
