(* ===== verification/ZReplica.thy ===== *)
theory ZReplica
  imports ZRequests Smashing Timers "HOL-Library.AList"
begin

section \<open>The ZLight replica: \<^verbatim>\<open>zl_Replica.cc\<close>, \<^verbatim>\<open>zl_Replica.h\<close>, \<^verbatim>\<open>zl_Rep_info.cc\<close>\<close>

text \<open>
  The state of a replica and its handlers, one definition per method. The service that executes
  the commands, GMP and the cryptographic libraries are the fields of \<open>env\<close>, next to the reading of the cycle
  counter, the verdict of the monitor, \<open>should_panic()\<close>, and the functions registered with the
  switcher (the table \<open>rg_tab\<close> of the theory \<open>Registry\<close>). What a handler sends is appended to \<open>z_out\<close>, in order. The two mutexes are flags: locking a
  mutex that the same handler holds is \<open>Deadlock\<close>.

  The threads that receive messages, the sockets and the multicast group are not part of the state:
  \<open>handle\<close> takes a received message. Counters of type \<open>int\<close> do not wrap.

  Stored replies are in \<open>zl_Rep_info\<close>, one per principal; a principal number out of range is
  \<open>Out_of_bounds\<close>. \<open>last_seqno\<close> is not initialised by the constructor: its initial value is an
  argument of \<open>replica_new\<close>.
\<close>

datatype replica_state =
    replica_state_NORMAL
  | replica_state_PANICKING
  | replica_state_MISWAITING
  | replica_state_STOP
  | replica_state_ABORTING

text \<open>The calls with an effect outside the replica, in the order in which a handler makes them.\<close>

datatype wire =
    W_checkpoint checkpoint
  | W_message zl_message

datatype out =
    To_client int reply
  | To_replicas order
  | Panic_replicas zl_message
  | Monitor_send wire int
  | Monitor_req_notif
  | Monitor_rep_notif
  | Monitor_switch_protocol protocols_e
  | Switch_call nat bool

record cset =
  cs_elems :: "checkpoint option list"
  cs_n :: int
  cs_s :: seqno
  cs_complete :: int

record 'st env =
  e_crypto :: crypto
  e_mpn :: mpn
  e_modulus :: dsum
  e_junk :: "nat \<Rightarrow> byte list"
  e_exec :: "'st \<Rightarrow> byte list \<Rightarrow> int \<Rightarrow> 'st \<times> byte list"
  e_rdtsc :: int
  e_should_panic :: bool
  e_switch_tab :: "protocols_e \<rightharpoonup> nat"

record 'st replica =
  z_node :: node
  z_seqno :: seqno
  z_last_seqno :: seqno
  z_req_count_switch :: u32
  z_replies :: "reply list"
  z_nb_retransmissions :: int
  z_nb_sent_replies :: int
  z_max_history_size :: int
  z_rh :: "request req_history"
  z_checkpoint_in_progress :: bool
  z_current_nb_requests :: int
  z_current_checkpoints :: "seqno \<rightharpoonup> cset"
  z_last_chkp_seqno :: seqno
  z_checkpointing_mutex :: bool
  z_switching_mutex :: bool
  z_cur_state :: replica_state
  z_aborts :: acert
  z_ah_2 :: "ahe list option"
  z_missing :: "ahe list option"
  z_num_missing :: nat
  z_missing_mask :: "bool list"
  z_missing_store :: "request option list"
  z_missing_store_seq :: "seqno list"
  z_timers :: timers
  z_rtimer :: nat
  z_ctimer :: nat
  z_outstanding :: "(int \<times> request_id) list"
  z_service :: 'st
  z_out :: "out list"

definition emit :: "'st replica \<Rightarrow> out \<Rightarrow> 'st replica" where
  "emit z o' = z\<lparr>z_out := z_out z @ [o']\<rparr>"

definition lock_sw :: "'st replica \<Rightarrow> 'st replica result" where
  "lock_sw z = (if z_switching_mutex z then Inl Deadlock else Inr (z\<lparr>z_switching_mutex := True\<rparr>))"

definition send_client :: "'st replica \<Rightarrow> int \<Rightarrow> reply \<Rightarrow> 'st replica result" where
  "send_client z cid r = rbind (node_send (z_node z) r cid) (\<lambda>_. Inr (emit z (To_client cid r)))"

definition unlock_sw :: "'st replica \<Rightarrow> 'st replica" where
  "unlock_sw z = z\<lparr>z_switching_mutex := False\<rparr>"

definition lock_ck :: "'st replica \<Rightarrow> 'st replica result" where
  "lock_ck z = (if z_checkpointing_mutex z then Inl Deadlock else Inr (z\<lparr>z_checkpointing_mutex := True\<rparr>))"

definition unlock_ck :: "'st replica \<Rightarrow> 'st replica" where
  "unlock_ck z = z\<lparr>z_checkpointing_mutex := False\<rparr>"

subsection \<open>\<open>CheckpointSet\<close>\<close>

definition cset_new :: "int \<Rightarrow> int \<Rightarrow> seqno \<Rightarrow> cset" where
  "cset_new sz k s = \<lparr>cs_elems = replicate (nat sz) None, cs_n = 0, cs_s = s, cs_complete = k\<rparr>"

definition cset_add :: "cset \<Rightarrow> int \<Rightarrow> checkpoint \<Rightarrow> (bool \<times> cset) result" where
  "cset_add cs i m =
     rbind (th_assert (i \<ge> 0 \<and> i < int (length (cs_elems cs)))) (\<lambda>_.
     if cs_elems cs ! nat i \<noteq> None \<or> ck_seqid m \<noteq> cs_s cs then Inr (False, cs)
     else Inr (True, cs\<lparr>cs_elems := (cs_elems cs)[nat i := Some m], cs_n := cs_n cs + 1\<rparr>))"

definition cset_get :: "cset \<Rightarrow> int \<Rightarrow> checkpoint option result" where
  "cset_get cs i =
     rbind (th_assert (i \<ge> 0 \<and> i < int (length (cs_elems cs)))) (\<lambda>_. Inr (cs_elems cs ! nat i))"

definition cset_is_complete :: "cset \<Rightarrow> bool" where
  "cset_is_complete cs \<longleftrightarrow> cs_n cs = cs_complete cs"

subsection \<open>\<open>zl_Rep_info\<close>\<close>

definition Max_rep_size :: nat where "Max_rep_size = 8192"

text \<open>
  \<open>valloc\<close> returns memory that may have been initialised before: \<open>old_nps\<close> is its first word, \<open>old\<close> the
  tags and replies in its pages.
\<close>

definition blank_reply :: reply where
  "blank_reply = \<lparr>rp_extra = 0, rp_size = 0, rp_v = 0, rp_rid = 0, rp_rh_digest = digest_zero, rp_digest = digest_zero,
     rp_replica = 0, rp_reply_size = -1, rp_cid = -1, rp_should_switch = False, rp_instance = 0,
     rp_unused = replicate 4 0, rp_tail = []\<rparr>"

definition rep_info_new :: "int \<Rightarrow> int \<Rightarrow> (int \<times> reply) list \<Rightarrow> reply list result" where
  "rep_info_new nps old_nps old =
     rbind (th_assert (nps \<noteq> 0)) (\<lambda>_.
     if old_nps \<noteq> 0
     then if nps \<noteq> old_nps then Inl Process_exit
          else rbind (th_assert (\<forall>(tg, r) \<in> set (take (nat nps) old). tg = zl_Reply_tag)) (\<lambda>_.
               Inr (map snd (take (nat nps) old)))
     else Inr (replicate (nat nps) blank_reply))"

definition rep_at :: "'st replica \<Rightarrow> int \<Rightarrow> reply result" where
  "rep_at z pid =
     (if 0 \<le> pid \<and> nat pid < length (z_replies z) then Inr (z_replies z ! nat pid) else Inl Out_of_bounds)"

definition set_rep :: "'st replica \<Rightarrow> int \<Rightarrow> reply \<Rightarrow> 'st replica" where
  "set_rep z pid r = z\<lparr>z_replies := (z_replies z)[nat pid := r]\<rparr>"

definition reps_req_id :: "'st replica \<Rightarrow> int \<Rightarrow> request_id result" where
  "reps_req_id z pid = rbind (rep_at z pid) (\<lambda>r. Inr (rp_rid r))"

definition reps_digest :: "'st replica \<Rightarrow> int \<Rightarrow> digest result" where
  "reps_digest z pid = rbind (rep_at z pid) (\<lambda>r. Inr (rp_digest r))"

definition new_reply_size :: nat where
  "new_reply_size = Max_rep_size - Reply_rep_size - zl_MAC_size"

definition new_reply :: "'st replica \<Rightarrow> int \<Rightarrow> 'st replica result" where
  "new_reply z pid = rbind (rep_at z pid) (\<lambda>r. Inr (set_rep z pid (r\<lparr>rp_reply_size := -1\<rparr>)))"

text \<open>\<open>body\<close> are the \<open>sz\<close> bytes in the buffer; the place of the MAC and the padding behind them are cleared.\<close>

definition end_reply :: "'st replica \<Rightarrow> int \<Rightarrow> request_id \<Rightarrow> byte list \<Rightarrow> digest \<Rightarrow> 'st replica result" where
  "end_reply z pid rid body d =
     rbind (rep_at z pid) (\<lambda>r.
     rbind (th_assert (rp_reply_size r = -1)) (\<lambda>_.
     let sz = ALIGNED_SIZE (int (Reply_rep_size + length body + zl_MAC_size)) in
     Inr (set_rep z pid (r\<lparr>rp_rid := rid, rp_reply_size := int (length body), rp_cid := -1, rp_rh_digest := d,
            rp_digest := Digest_of body, rp_size := sz,
            rp_tail := body @ replicate (nat sz - Reply_rep_size - length body) 0\<rparr>))))"

text \<open>The \<open>MAC_size\<close> bytes behind the reply, overwritten by \<open>mac\<close>.\<close>

definition put_mac :: "reply \<Rightarrow> byte list \<Rightarrow> reply" where
  "put_mac r mac = (let k = nat (rp_reply_size r) in
     r\<lparr>rp_tail := take k (rp_tail r) @ mac @ drop (k + length mac) (rp_tail r)\<rparr>)"

definition send_reply :: "crypto \<Rightarrow> 'st replica \<Rightarrow> int \<Rightarrow> int \<Rightarrow> int \<Rightarrow> 'st replica result" where
  "send_reply c z dest_pid v src_pid =
     rbind (rep_at z dest_pid) (\<lambda>r.
     rbind (th_assert (rp_reply_size r \<noteq> -1)) (\<lambda>_.
     rbind (th_assert (rp_extra r = 0 \<and> rp_v r = 0 \<and> rp_replica r = 0 \<and> rp_cid r = -1)) (\<lambda>_.
     let r1 = r\<lparr>rp_v := v, rp_replica := src_pid, rp_cid := -1\<rparr> in
     case i_to_p (z_node z) (node_id (z_node z)) of
       None \<Rightarrow> Inl Null_deref
     | Some me \<Rightarrow>
         rbind (gen_mac_nonce c (umac_nonce (z_node z)) me (reply_rep_bytes r1) dest_pid) (\<lambda>(mac, n).
         rbind (send_client (z\<lparr>z_node := (z_node z)\<lparr>umac_nonce := n\<rparr>\<rparr>) dest_pid (put_mac r1 mac)) (\<lambda>z1.
         Inr (set_rep z1 dest_pid (put_mac (r\<lparr>rp_extra := 0, rp_v := 0, rp_replica := 0, rp_cid := -1\<rparr>)
                                           (replicate zl_MAC_size 0))))))))"

subsection \<open>Checkpoints\<close>

text \<open>The handler of panic messages deletes the message and returns; the code behind the return is dead.\<close>

definition handle_panic :: "'st replica \<Rightarrow> 'st replica result" where
  "handle_panic z = Inr z"

text \<open>
  The loop that compares the checkpoints of a complete set with \<open>m\<close>, up to the first mismatch. The handler
  does not use its result.
\<close>

fun same_checkpoints :: "checkpoint \<Rightarrow> checkpoint option list \<Rightarrow> bool \<Rightarrow> bool" where
  "same_checkpoints m [] same = same"
| "same_checkpoints m (None # es) same = same_checkpoints m es same"
| "same_checkpoints m (Some c' # es) same = (checkpoint_match m c' \<and> same_checkpoints m es True)"

definition checkpoint_done :: "'st env \<Rightarrow> 'st replica \<Rightarrow> cset \<Rightarrow> 'st replica result" where
  "checkpoint_done E z cs =
     (let z1 = z\<lparr>z_max_history_size := max (int (rh_size (z_rh z))) (z_max_history_size z)\<rparr> in
      rbind (truncate_history (z_rh z1) (cs_s cs)) (\<lambda>(_, h, _).
      let z2 = z1\<lparr>z_rh := h, z_current_nb_requests := 0, z_checkpoint_in_progress := False,
                  z_last_chkp_seqno := cs_s cs, z_current_checkpoints := (z_current_checkpoints z1)(cs_s cs := None),
                  z_timers := timer_start (e_rdtsc E) (timer_stop (z_timers z1) (z_ctimer z1)) (z_ctimer z1)\<rparr>
      in if e_should_panic E then handle_panic z2 else Inr z2))"

text \<open>The set for a sequence number, a new one that wants \<open>2f+1\<close> checkpoints when there is none.\<close>

definition cset_for :: "'st replica \<Rightarrow> seqno \<Rightarrow> cset" where
  "cset_for z s =
     (case z_current_checkpoints z s of
        None \<Rightarrow> cset_new (num_replicas (z_node z)) (2 * max_faulty (z_node z) + 1) s
      | Some cs \<Rightarrow> cs)"

definition handle_checkpoint :: "'st env \<Rightarrow> 'st replica \<Rightarrow> checkpoint \<Rightarrow> 'st replica result" where
  "handle_checkpoint E z m =
     rbind (checkpoint_verify (e_crypto E) (z_node z) m) (\<lambda>ok.
     if \<not> ok then Inr z
     else
       rbind (lock_ck z) (\<lambda>z1.
       if ck_seqid m \<le> z_last_chkp_seqno z1 then Inr (unlock_ck z1)
       else
         rbind (cset_add (cset_for z1 (ck_seqid m)) (ck_id m) m) (\<lambda>(added, cs').
         let z2 = z1\<lparr>z_current_checkpoints := (z_current_checkpoints z1)(ck_seqid m \<mapsto> cs')\<rparr> in
         if \<not> added then Inr (unlock_ck z2)
         else if cset_is_complete cs'
         then rbind (checkpoint_done E z2 cs') (\<lambda>z3. Inr (unlock_ck z3))
         else Inr (unlock_ck z2))))"

definition make_checkpoint :: "'st env \<Rightarrow> 'st replica \<Rightarrow> 'st replica result" where
  "make_checkpoint E z =
     rbind (checkpoint_new (z_node z)) (\<lambda>m.
     rbind (get_top_seqno (z_rh z)) (\<lambda>s.
     let m1 = m\<lparr>ck_seqid := s, ck_digest := rh_digest (z_rh z)\<rparr> in
     rbind (checkpoint_sign (e_crypto E) (z_node z) m1) (\<lambda>m2.
     handle_checkpoint E (emit (z\<lparr>z_checkpoint_in_progress := True\<rparr>) (Monitor_send (W_checkpoint m2) (-1))) m2)))"

subsection \<open>Executing requests\<close>

definition reply_to :: "'st env \<Rightarrow> 'st replica \<Rightarrow> int \<Rightarrow> request_id \<Rightarrow> nat \<Rightarrow> 'st replica result" where
  "reply_to E z cid rid outsize =
     (let nd = z_node z; replier = unat rid mod nat (num_replicas nd) in
      if outsize < 50 \<or> int replier = node_id nd
      then rbind (send_reply (e_crypto E) z cid 0 (node_id nd)) (\<lambda>z1.
           Inr (z1\<lparr>z_nb_sent_replies := z_nb_sent_replies z1 + 1\<rparr>))
      else
        rbind (reps_digest z cid) (\<lambda>d.
        case i_to_p nd cid of
          None \<Rightarrow> Inl Null_deref
        | Some p \<Rightarrow>
            rbind (reply_new (e_crypto E) nd p 0 rid (node_id nd) d cid) (\<lambda>(r, nd').
            send_client (z\<lparr>z_node := nd', z_nb_sent_replies := z_nb_sent_replies z + 1\<rparr>) cid r)))"

definition execute_request :: "'st env \<Rightarrow> 'st replica \<Rightarrow> request \<Rightarrow> (bool \<times> 'st replica) result" where
  "execute_request E z req =
     (let cid = rq_cid req; rid = rq_rid req in
      rbind (reps_req_id z cid) (\<lambda>last_rid.
      if last_rid > rid then Inr (False, z)
      else if last_rid = rid
      then rbind (send_reply (e_crypto E) z cid 0 (node_id (z_node z))) (\<lambda>z1. Inr (False, z1))
      else
        rbind (new_reply z cid) (\<lambda>z1.
        let (st, outb) = e_exec E (z_service z1) (request_command req) cid in
        if length outb > new_reply_size then Inl Out_of_bounds
        else
          rbind (add_request (e_mpn E) (z_rh z1) req (rq_od req) (z_seqno z1)) (\<lambda>(h, d).
          let z2 = z1\<lparr>z_service := st, z_last_seqno := z_seqno z1, z_rh := h\<rparr> in
          rbind (end_reply z2 cid rid outb d) (\<lambda>z3.
          rbind (reply_to E z3 cid rid (length outb)) (\<lambda>z4.
          rbind (if should_checkpoint (z_rh z4) then make_checkpoint E z4 else Inr z4) (\<lambda>z5.
          Inr (True, z5))))))))"

text \<open>
  The reply that tells a client to switch, sent by a stopped replica and by \<open>notify_outstanding\<close>:
  \<open>next_instance_id()\<close> is \<open>chain\<close>.
\<close>

definition stop_reply :: "'st env \<Rightarrow> 'st replica \<Rightarrow> int \<Rightarrow> request_id \<Rightarrow> 'st replica result" where
  "stop_reply E z cid rid =
     rbind (reps_digest z cid) (\<lambda>d.
     case i_to_p (z_node z) cid of
       None \<Rightarrow> Inl Null_deref
     | Some p \<Rightarrow>
         rbind (reply_new (e_crypto E) (z_node z) p 0 rid (node_id (z_node z)) d cid) (\<lambda>(r, nd1).
         rbind (reply_authenticate (e_crypto E) nd1 p zl_MAC_size (set_instance_id r chain) 0) (\<lambda>(r', nd2).
         send_client (z\<lparr>z_node := nd2\<rparr>) cid r')))"

definition count_retransmission :: "'st replica \<Rightarrow> 'st replica" where
  "count_retransmission z = z\<lparr>z_nb_retransmissions := z_nb_retransmissions z + 1\<rparr>"

text \<open>The part of the handler behind the admission of the request.\<close>

definition process_request :: "'st env \<Rightarrow> 'st replica \<Rightarrow> request \<Rightarrow> 'st replica result" where
  "process_request E z m =
     (let cid = rq_cid m; rid = rq_rid m in
      rbind (reps_req_id z cid) (\<lambda>last_rid.
      if node_id (z_node z) = primary (z_node z)
      then if last_rid \<le> rid
           then (let z1 = (if last_rid = rid then count_retransmission z else z\<lparr>z_seqno := z_seqno z + 1\<rparr>) in
                 rbind (execute_request E z1 m) (\<lambda>(done, z2).
                 if \<not> done then Inr z2
                 else rbind (order_new (e_crypto E) (z_node z2) 0 (z_seqno z2) m) (\<lambda>(o', nd).
                      Inr (emit (z2\<lparr>z_node := nd\<rparr>) (To_replicas o')))))
           else Inr z
      else if last_rid = rid
           then rbind (execute_request E (count_retransmission z) m) (\<lambda>(_, z2). Inr z2)
           else Inr z))"

definition handle_request :: "'st env \<Rightarrow> 'st replica \<Rightarrow> request \<Rightarrow> 'st replica result" where
  "handle_request E z m =
     (if z_cur_state z = replica_state_STOP then stop_reply E z (rq_cid m) (rq_rid m)
      else if z_cur_state z \<noteq> replica_state_NORMAL
      then rbind (lock_sw z) (\<lambda>z1. Inr (unlock_sw (z1\<lparr>z_outstanding := z_outstanding z1 @ [(rq_cid m, rq_rid m)]\<rparr>)))
      else
        (let z0 = z\<lparr>z_timers := timer_restart (e_rdtsc E) (z_timers z) (z_ctimer z),
                    z_req_count_switch := z_req_count_switch z + 1\<rparr> in
         rbind (request_verify (e_crypto E) (z_node z0) m) (\<lambda>ok.
         if \<not> ok then Inr z0
         else if is_read_only m then Inr z0
         else
           rbind (lock_ck z0) (\<lambda>z1.
           if z_checkpoint_in_progress z1 \<and> \<not> z_current_nb_requests z1 < max_nb_requests_while_checkpointing
           then Inr (unlock_ck z1)
           else
             process_request E
               (unlock_ck (if z_checkpoint_in_progress z1
                           then z1\<lparr>z_current_nb_requests := z_current_nb_requests z1 + 1\<rparr> else z1)) m))))"

definition handle_order :: "'st env \<Rightarrow> 'st replica \<Rightarrow> order \<Rightarrow> 'st replica result" where
  "handle_order E z m =
     rbind (order_verify (e_crypto E) (z_node z) m) (\<lambda>ok.
     if \<not> ok then Inr z
     else
       rbind (reps_req_id z (or_cid m)) (\<lambda>last_rid.
       if last_rid \<le> or_req_id m
       then if or_seq_num m \<noteq> z_last_seqno z + 1 then Inr z
            else
              rbind (request_verify (e_crypto E) (z_node z) (or_request m)) (\<lambda>ok'.
              if \<not> ok' then Inr z
              else rbind (execute_request E (z\<lparr>z_seqno := z_last_seqno z + 1\<rparr>) (or_request m)) (\<lambda>(_, z'). Inr z'))
       else Inr z))"

definition handle_notification :: "'st replica \<Rightarrow> notification \<Rightarrow> 'st replica result" where
  "handle_notification z m =
     rbind (lock_ck z) (\<lambda>z1.
     Inr (unlock_ck (if cn_op_type m = 0 then emit z1 Monitor_req_notif
                     else if cn_op_type m = 1 then emit z1 Monitor_rep_notif else z1)))"

subsection \<open>Switching\<close>

text \<open>The function \<open>switch_zl_replica\<close> that the constructor registers calls \<open>enable_replica\<close>; its handle is 0.\<close>

definition switch_zl_replica :: nat where "switch_zl_replica = 0"

definition enable_replica :: "'st env \<Rightarrow> 'st replica \<Rightarrow> bool \<Rightarrow> 'st replica result" where
  "enable_replica E z st =
     rbind (lock_sw z) (\<lambda>z1.
     if z_cur_state z1 = replica_state_NORMAL \<or> z_cur_state z1 = replica_state_STOP
     then if st
          then rbind (if z_cur_state z1 \<noteq> replica_state_NORMAL
                      then rbind (rh_new (e_modulus E)) (\<lambda>h.
                           Inr (z1\<lparr>z_rh := h, z_current_checkpoints := Map.empty, z_outstanding := [],
                                   z_seqno := 0, z_last_seqno := 0, z_req_count_switch := 0\<rparr>))
                      else Inr z1) (\<lambda>z2.
               let z3 = emit (z2\<lparr>z_cur_state := replica_state_NORMAL\<rparr>) (Monitor_switch_protocol zlight) in
               Inr (unlock_sw (z3\<lparr>z_timers := timer_stop (z_timers z3) (z_ctimer z3)\<rparr>)))
          else Inr (unlock_sw (z1\<lparr>z_cur_state := replica_state_STOP,
                                  z_timers := timer_stop (z_timers z1) (z_ctimer z1)\<rparr>))
     else Inr (unlock_sw z1))"

definition call_switcher :: "'st env \<Rightarrow> 'st replica \<Rightarrow> protocols_e \<Rightarrow> bool \<Rightarrow> 'st replica result" where
  "call_switcher E z p st =
     (case e_switch_tab E p of
        None \<Rightarrow> Inr z
      | Some f \<Rightarrow> if f = switch_zl_replica then enable_replica E z st else Inr (emit z (Switch_call f st)))"

text \<open>\<open>omap\<close> is a \<open>std::map\<close>: the largest request of each client, visited in the order of the clients.\<close>

definition omap_add :: "(int \<times> request_id) list \<Rightarrow> int \<times> request_id \<Rightarrow> (int \<times> request_id) list" where
  "omap_add om e =
     (case map_of om (fst e) of
        None \<Rightarrow> AList.update (fst e) (snd e) om
      | Some r \<Rightarrow> if r < snd e then AList.update (fst e) (snd e) om else om)"

definition omap :: "(int \<times> request_id) list \<Rightarrow> (int \<times> request_id) list" where
  "omap outs = (let om = foldl omap_add [] outs in map (\<lambda>c. (c, the (map_of om c))) (sort (map fst om)))"

definition notify_outstanding :: "'st env \<Rightarrow> 'st replica \<Rightarrow> 'st replica result" where
  "notify_outstanding E z =
     rbind (lock_sw z) (\<lambda>z1.
     rbind (for_loop (\<lambda>z (cid, rid). stop_reply E z cid rid) (omap (z_outstanding z1)) z1) (\<lambda>z2.
     Inr (unlock_sw (z2\<lparr>z_outstanding := []\<rparr>))))"

definition retransmit_panic :: "'st env \<Rightarrow> 'st replica \<Rightarrow> 'st replica result" where
  "retransmit_panic E z =
     rbind (panic_new (e_junk E) (node_id (z_node z)) 0) (\<lambda>qp.
     rbind (lock_sw (emit z (Panic_replicas qp))) (\<lambda>z1.
     let z2 = unlock_sw (z1\<lparr>z_cur_state := replica_state_PANICKING\<rparr>) in
     Inr (z2\<lparr>z_timers := timer_restart (e_rdtsc E) (z_timers z2) (z_rtimer z2)\<rparr>)))"

definition no_checkpoint_timeout :: "'st replica \<Rightarrow> 'st replica result" where
  "no_checkpoint_timeout z = handle_panic (z\<lparr>z_timers := timer_stop (z_timers z) (z_ctimer z)\<rparr>)"

definition broadcast_abort :: "'st env \<Rightarrow> 'st replica \<Rightarrow> request_id \<Rightarrow> 'st replica result" where
  "broadcast_abort E z out_rid =
     rbind (abort_new rq_cid rq_rid rq_od (z_node z) (e_junk E) (node_id (z_node z)) out_rid (z_rh z)) (\<lambda>m.
     rbind (abort_sign (e_crypto E) (z_node z) m) (\<lambda>m1.
     rbind (lock_sw (emit z (Monitor_send (W_message m1) (-1)))) (\<lambda>z1.
     rbind (acert_add (z_aborts z1) m1) (\<lambda>(_, ct).
     Inr (unlock_sw (z1\<lparr>z_aborts := ct\<rparr>))))))"

subsection \<open>The handlers of abort, missing and get-a-grip messages\<close>

definition max_hist_size :: "acert \<Rightarrow> nat \<Rightarrow> nat \<Rightarrow> nat result" where
  "max_hist_size ct mx i =
     rbind (acert_at ct (int i)) (\<lambda>e. Inr (case e of None \<Rightarrow> mx | Some a \<Rightarrow> max mx (ab_hist_size a)))"

text \<open>\<open>rhe->req = NULL\<close> for the entry that \<open>find\<close> returns.\<close>

fun release_req :: "request rh_entry arr \<Rightarrow> int \<Rightarrow> request_id \<Rightarrow> nat list \<Rightarrow> request rh_entry arr result" where
  "release_req a cid rid [] = Inr a"
| "release_req a cid rid (i # is) =
     rbind (array_slot a (int i)) (\<lambda>e.
     case rhe_req e of
       Some r \<Rightarrow> if rq_cid r = cid \<and> rq_rid r = rid then array_set_slot a (int i) (e\<lparr>rhe_req := None\<rparr>)
                 else release_req a cid rid is
     | None \<Rightarrow> release_req a cid rid is)"

definition adopt_own ::
    "'st env \<Rightarrow> request req_history \<times> request req_history \<Rightarrow> ahe \<Rightarrow> (request req_history \<times> request req_history) result" where
  "adopt_own E s e =
     (case s of (h, newrh) \<Rightarrow>
        rbind (rh_find rq_cid rq_rid h (ahe_cid e) (ahe_rid e)) (\<lambda>rhe.
        case rhe of
          None \<Rightarrow> Inl Null_deref
        | Some x \<Rightarrow>
            (case rhe_req x of
               None \<Rightarrow> Inl Null_deref
             | Some ar \<Rightarrow>
                 rbind (release_req (rh_arr h) (ahe_cid e) (ahe_rid e) [0..<rh_size h]) (\<lambda>a.
                 rbind (add_request (e_mpn E) newrh ar (rq_od ar) (rhe_seq x)) (\<lambda>(newrh', _).
                 Inr (h\<lparr>rh_arr := a\<rparr>, newrh'))))))"

text \<open>The end of both handlers: the new history is in place, the protocol is stopped and the next one enabled.\<close>

definition finish_switch :: "'st env \<Rightarrow> 'st replica \<Rightarrow> request req_history \<Rightarrow> 'st replica result" where
  "finish_switch E z newrh =
     rbind (get_top_seqno newrh) (\<lambda>top.
     let z1 = z\<lparr>z_missing_store := [], z_missing_store_seq := [], z_missing_mask := [], z_num_missing := 0,
                z_ah_2 := None, z_missing := None, z_rh := newrh, z_seqno := top + 1, z_cur_state := replica_state_STOP\<rparr> in
     rbind (call_switcher E z1 zlight False) (\<lambda>z2.
     rbind (call_switcher E z2 chain True) (\<lambda>z3.
     notify_outstanding E z3)))"

definition abort_complete :: "'st env \<Rightarrow> 'st replica \<Rightarrow> 'st replica result" where
  "abort_complete E z =
     rbind (for_loop (max_hist_size (z_aborts z)) [0..<acert_size (z_aborts z)] 0) (\<lambda>max_size.
     rbind (smash_process max_size (nat (max_faulty (z_node z))) (z_aborts z) (node_id (z_node z))) (\<lambda>(ah2, miss).
     rbind (acert_clear (z_aborts z)) (\<lambda>ct.
     let k = length miss;
         z1 = z\<lparr>z_timers := timer_stop (z_timers z) (z_rtimer z), z_ah_2 := Some ah2, z_missing := Some miss,
                z_missing_mask := replicate k True, z_missing_store := replicate k None,
                z_missing_store_seq := replicate k 0, z_num_missing := k, z_aborts := ct\<rparr>
     in if k = 0
        then rbind (rh_new (e_modulus E)) (\<lambda>h0.
             rbind (for_loop (adopt_own E) ah2 (z_rh z1, h0)) (\<lambda>(_, newrh).
             finish_switch E z1 newrh))
        else rbind (missing_new (z_node z1) (e_junk E) (node_id (z_node z1)) miss) (\<lambda>qm.
             Inr ((emit z1 (Monitor_send (W_message qm) (-1)))\<lparr>z_cur_state := replica_state_MISWAITING\<rparr>)))))"

definition handle_abort :: "'st env \<Rightarrow> 'st replica \<Rightarrow> zl_message \<Rightarrow> 'st replica result" where
  "handle_abort E z m =
     rbind (lock_sw z) (\<lambda>z1.
     if z_cur_state z1 = replica_state_PANICKING
     then rbind (abort_verify (e_crypto E) (z_node z1) m) (\<lambda>ok.
          if \<not> ok then Inr (unlock_sw z1)
          else rbind (acert_add (z_aborts z1) m) (\<lambda>(added, ct).
               let z2 = z1\<lparr>z_aborts := ct\<rparr> in
               if \<not> added then Inr (unlock_sw z2)
               else if is_complete ct
               then rbind (abort_complete E z2) (\<lambda>z3. Inr (unlock_sw z3))
               else Inr (unlock_sw z2)))
     else Inr (unlock_sw z1))"

text \<open>The bytes of a request, as a get-a-grip message carries them, and back.\<close>

definition request_bytes :: "request \<Rightarrow> byte list result" where
  "request_bytes r = read_bytes (request_rep_bytes r @ rq_tail r) 0 (nat (rq_size r))"

definition request_of_bytes :: "byte list \<Rightarrow> request result" where
  "request_of_bytes bs =
     rbind (read_bytes bs 4 4) (\<lambda>szb.
     rbind (read_bytes bs 0 (nat (bytes_int32 szb))) (\<lambda>rep.
     if length rep < Request_rep_size then Inl Out_of_bounds
     else Inr \<lparr>rq_extra = bytes_short (take 2 (drop 2 rep)), rq_size = bytes_int32 szb,
               rq_od = bytes_digest (take 16 (drop 8 rep)), rq_replier = bytes_short (take 2 (drop 24 rep)),
               rq_command_size = bytes_short (take 2 (drop 26 rep)), rq_cid = bytes_int32 (take 4 (drop 28 rep)),
               rq_rid = bytes_u64 (take 8 (drop 32 rep)), rq_tail = drop Request_rep_size rep\<rparr>))"

definition grip_one :: "'st env \<Rightarrow> zl_message \<Rightarrow> 'st replica \<Rightarrow> nat \<Rightarrow> 'st replica result" where
  "grip_one E m z i =
     rbind (msg_read m (Missing_rep_size + 12 * i) 4) (\<lambda>cb.
     rbind (msg_read m (Missing_rep_size + 12 * i + 4) 8) (\<lambda>rb.
     let cid = bytes_int32 cb; rid = bytes_u64 rb in
     rbind (rh_find rq_cid rq_rid (z_rh z) cid rid) (\<lambda>rhe.
     case rhe of
       None \<Rightarrow> Inr z
     | Some x \<Rightarrow>
         (case rhe_req x of
            None \<Rightarrow> Inl Null_deref
          | Some r \<Rightarrow>
              rbind (request_bytes r) (\<lambda>rbs.
              rbind (grip_new (e_junk E) cid rid (node_id (z_node z)) (rhe_seq x) rbs) (\<lambda>g.
              Inr (emit z (Monitor_send (W_message g) (mi_id m)))))))))"

definition handle_missing :: "'st env \<Rightarrow> 'st replica \<Rightarrow> zl_message \<Rightarrow> 'st replica result" where
  "handle_missing E z m = for_loop (grip_one E m) [0..<mi_hist_size m] z"

text \<open>The position of the missing request that \<open>req\<close> is, if any is still missing.\<close>

fun grip_pos :: "bool list \<Rightarrow> ahe list \<Rightarrow> int \<Rightarrow> request_id \<Rightarrow> digest \<Rightarrow> nat list \<Rightarrow> nat option result" where
  "grip_pos msk miss cid rid d [] = Inr None"
| "grip_pos msk miss cid rid d (i # is) =
     rbind (th_assert (i < length msk)) (\<lambda>_.
     if msk ! i \<and> ahe_cid (miss ! i) = cid \<and> ahe_rid (miss ! i) = rid \<and> ahe_d (miss ! i) = d then Inr (Some i)
     else grip_pos msk miss cid rid d is)"

fun store_pos :: "request option list \<Rightarrow> ahe \<Rightarrow> nat \<Rightarrow> nat option result" where
  "store_pos [] e j = Inr None"
| "store_pos (r # rs) e j =
     (case r of
        None \<Rightarrow> Inl Null_deref
      | Some q \<Rightarrow> if rq_cid q = ahe_cid e \<and> rq_rid q = ahe_rid e then Inr (Some j) else store_pos rs e (Suc j))"

definition adopt_any :: "'st env \<Rightarrow> 'st replica \<Rightarrow> request req_history \<Rightarrow> ahe \<Rightarrow> request req_history result" where
  "adopt_any E z newrh e =
     rbind (rh_find rq_cid rq_rid (z_rh z) (ahe_cid e) (ahe_rid e)) (\<lambda>rhe.
     case rhe of
       Some x \<Rightarrow>
         (case rhe_req x of
            None \<Rightarrow> Inl Null_deref
          | Some ar \<Rightarrow> rbind (add_request (e_mpn E) newrh ar (rq_od ar) (rhe_seq x)) (\<lambda>(h, _). Inr h))
     | None \<Rightarrow>
         rbind (store_pos (z_missing_store z) e 0) (\<lambda>pos.
         case pos of
           None \<Rightarrow> Inr newrh
         | Some j \<Rightarrow>
             (case z_missing_store z ! j of
                None \<Rightarrow> Inl Null_deref
              | Some q \<Rightarrow>
                  rbind (add_request (e_mpn E) newrh q (rq_od q) (z_missing_store_seq z ! j)) (\<lambda>(h, _). Inr h))))"

definition handle_grip :: "'st env \<Rightarrow> 'st replica \<Rightarrow> zl_message \<Rightarrow> 'st replica result" where
  "handle_grip E z m =
     rbind (lock_sw z) (\<lambda>z1.
     if z_cur_state z1 \<noteq> replica_state_MISWAITING then Inr (unlock_sw z1)
     else
       rbind (request_of_bytes (grip_stored_request m)) (\<lambda>req.
       case (z_missing z1, z_ah_2 z1) of
         (Some miss, Some ah2) \<Rightarrow>
           rbind (grip_pos (z_missing_mask z1) miss (grip_client_id m) (grip_request_id m) (rq_od req) [0..<length miss]) (\<lambda>pos.
           case pos of
             None \<Rightarrow> Inr (unlock_sw z1)
           | Some i \<Rightarrow>
               (let z2 = z1\<lparr>z_missing_mask := (z_missing_mask z1)[i := False],
                            z_missing_store := (z_missing_store z1)[i := Some req],
                            z_missing_store_seq := (z_missing_store_seq z1)[i := grip_seqno m],
                            z_num_missing := z_num_missing z1 - 1\<rparr> in
                if z_num_missing z2 = 0
                then rbind (rh_new (e_modulus E)) (\<lambda>h0.
                     rbind (for_loop (adopt_any E z2) ah2 h0) (\<lambda>newrh.
                     rbind (finish_switch E z2 newrh) (\<lambda>z3. Inr (unlock_sw z3))))
                else Inr (unlock_sw z2)))
       | _ \<Rightarrow> Inl Null_deref))"

subsection \<open>Dispatch and construction\<close>

text \<open>A received message, by its tag; \<open>M_unknown\<close> has none of the eight tags.\<close>

datatype msg =
    M_request request
  | M_order order
  | M_checkpoint checkpoint
  | M_panic zl_message
  | M_abort zl_message
  | M_missing zl_message
  | M_grip zl_message
  | M_notification notification
  | M_unknown

fun handle :: "'st env \<Rightarrow> 'st replica \<Rightarrow> msg \<Rightarrow> 'st replica result" where
  "handle E z (M_request m) = handle_request E z m"
| "handle E z (M_order m) = handle_order E z m"
| "handle E z (M_checkpoint m) = handle_checkpoint E z m"
| "handle E z (M_panic m) = (case panic_convert m of None \<Rightarrow> Inr z | Some m' \<Rightarrow> handle_panic z)"
| "handle E z (M_abort m) = (case abort_convert m of None \<Rightarrow> Inr z | Some m' \<Rightarrow> handle_abort E z m')"
| "handle E z (M_missing m) = (case missing_convert m of None \<Rightarrow> Inr z | Some m' \<Rightarrow> handle_missing E z m')"
| "handle E z (M_grip m) = (case grip_convert m of None \<Rightarrow> Inr z | Some m' \<Rightarrow> handle_grip E z m')"
| "handle E z (M_notification m) = handle_notification z m"
| "handle E z M_unknown = Inr z"

text \<open>
  The timers of the replica are the last two of the list \<open>tms\<close>; \<open>j1\<close> and \<open>j2\<close> are the deadlines memory holds, \<open>ls\<close> the value
  of \<open>last_seqno\<close>. Handlers 0 and 1 are \<open>zl_abort_timeout_handler\<close> and \<open>zl_no_checkpoint_timeout_handler\<close>.
\<close>

definition CHECKPOINTING_TIMEOUT :: int where "CHECKPOINTING_TIMEOUT = 10000"

definition replica_new ::
    "'st env \<Rightarrow> node \<Rightarrow> u64 \<Rightarrow> int \<Rightarrow> int \<Rightarrow> seqno \<Rightarrow> int \<Rightarrow> (int \<times> reply) list \<Rightarrow> 'st \<Rightarrow> timers \<Rightarrow> 'st replica result" where
  "replica_new E nd mhz j1 j2 ls old_nps old st tms =
     rbind (acert_new (3 * max_faulty nd + 1) (3 * max_faulty nd + 1)) (\<lambda>ct.
     if \<not> is_replica nd (node_id nd) then Inl Process_exit
     else
       rbind (rh_new (e_modulus E)) (\<lambda>h.
       rbind (rep_info_new (num_principals nd) old_nps old) (\<lambda>reps.
       Inr \<lparr>z_node = nd, z_seqno = 0, z_last_seqno = ls, z_req_count_switch = 0, z_replies = reps,
            z_nb_retransmissions = 0, z_nb_sent_replies = 0, z_max_history_size = 0, z_rh = h,
            z_checkpoint_in_progress = False, z_current_nb_requests = 0, z_current_checkpoints = Map.empty,
            z_last_chkp_seqno = 0, z_checkpointing_mutex = False, z_switching_mutex = False,
            z_cur_state = replica_state_NORMAL, z_aborts = ct, z_ah_2 = None, z_missing = None, z_num_missing = 0,
            z_missing_mask = [], z_missing_store = [], z_missing_store_seq = [],
            z_timers = timer_new mhz j2 (timer_new mhz j1 tms 20 0) CHECKPOINTING_TIMEOUT 1,
            z_rtimer = length (tm_list tms), z_ctimer = Suc (length (tm_list tms)), z_outstanding = [],
            z_service = st, z_out = []\<rparr>)))"

end
