(* ===== verification/ZExecution.thy ===== *)
theory ZExecution
  imports ZReplica
begin

section \<open>The ZLight replica: execution\<close>

text \<open>
  What a replica executes, what it logs and what it stores as replies: the functional behaviour of
  \<open>execute_request\<close> and of the handlers built on it, the abstract replica they refine, and the agreement of a
  backup with the primary.
\<close>

subsection \<open>What the calls change\<close>

lemma emit_simps [simp]:
  "z_node (emit z o') = z_node z" "z_seqno (emit z o') = z_seqno z" "z_last_seqno (emit z o') = z_last_seqno z"
  "z_replies (emit z o') = z_replies z" "z_rh (emit z o') = z_rh z" "z_service (emit z o') = z_service z"
  "z_cur_state (emit z o') = z_cur_state z" "z_timers (emit z o') = z_timers z" "z_rtimer (emit z o') = z_rtimer z"
  "z_ctimer (emit z o') = z_ctimer z" "z_switching_mutex (emit z o') = z_switching_mutex z"
  "z_checkpointing_mutex (emit z o') = z_checkpointing_mutex z" "z_out (emit z o') = z_out z @ [o']"
  "z_outstanding (emit z o') = z_outstanding z" "z_current_checkpoints (emit z o') = z_current_checkpoints z"
  "z_last_chkp_seqno (emit z o') = z_last_chkp_seqno z"
  by (simp_all add: emit_def)

lemma send_client_Inr: "send_client z cid r = Inr z' \<Longrightarrow> z' = emit z (To_client cid r)"
  by (auto simp: send_client_def rbind_eq_Inr)

lemma rep_at_Inr: "rep_at z p = Inr r \<longleftrightarrow> 0 \<le> p \<and> nat p < length (z_replies z) \<and> r = z_replies z ! nat p"
  by (auto simp: rep_at_def)

text \<open>
  A stored reply is clean when the fields that differ between replicas are reset and the place of the MAC is
  cleared.
\<close>

definition rep_clean :: "reply \<Rightarrow> bool" where
  "rep_clean r \<longleftrightarrow> rp_extra r = 0 \<and> rp_v r = 0 \<and> rp_replica r = 0 \<and> rp_cid r = -1 \<and>
     (rp_reply_size r = -1 \<or>
      (\<exists>k. rp_tail r = reply_body r @ replicate k 0 \<and> zl_MAC_size \<le> k \<and> rp_reply_size r = int (length (reply_body r))))"

lemma clear_again:
  assumes "t = b @ replicate k 0" "n \<le> k"
  shows "take (length b) t @ replicate n 0 @ drop (length b + n) t = t"
  using assms by (simp add: replicate_add [symmetric])

lemma put_mac_clean:
  assumes "rep_clean r" "rp_reply_size r \<noteq> -1"
  shows "put_mac (r\<lparr>rp_extra := 0, rp_v := 0, rp_replica := 0, rp_cid := -1\<rparr>) (replicate zl_MAC_size 0) = r"
proof -
  obtain k where k: "rp_tail r = reply_body r @ replicate k 0" "zl_MAC_size \<le> k"
    "rp_reply_size r = int (length (reply_body r))"
    using assms by (auto simp: rep_clean_def)
  have e: "r\<lparr>rp_extra := 0, rp_v := 0, rp_replica := 0, rp_cid := -1\<rparr> = r"
    using assms(1) by (cases r) (simp add: rep_clean_def)
  have "take (length (reply_body r)) (rp_tail r) @ replicate zl_MAC_size 0 @
      drop (length (reply_body r) + zl_MAC_size) (rp_tail r) = rp_tail r"
    by (rule clear_again [OF k(1,2)])
  then show ?thesis
    unfolding e by (simp add: put_mac_def k(3))
qed

lemma send_reply_Inr:
  assumes "send_reply c z d v s = Inr z'" "rep_clean (z_replies z ! nat d)"
  obtains r mac n where "rep_at z d = Inr r" "rp_reply_size r \<noteq> -1"
    "z' = emit (z\<lparr>z_node := (z_node z)\<lparr>umac_nonce := n\<rparr>\<rparr>)
            (To_client d (put_mac (r\<lparr>rp_v := v, rp_replica := s, rp_cid := -1\<rparr>) mac))"
proof -
  obtain r where r: "rep_at z d = Inr r" "rp_reply_size r \<noteq> -1" and k:
    "(case i_to_p (z_node z) (node_id (z_node z)) of
       None \<Rightarrow> Inl Null_deref
     | Some me \<Rightarrow>
         rbind (gen_mac_nonce c (umac_nonce (z_node z)) me (reply_rep_bytes (r\<lparr>rp_v := v, rp_replica := s, rp_cid := -1\<rparr>)) d) (\<lambda>(mac, n).
         rbind (send_client (z\<lparr>z_node := (z_node z)\<lparr>umac_nonce := n\<rparr>\<rparr>) d (put_mac (r\<lparr>rp_v := v, rp_replica := s, rp_cid := -1\<rparr>) mac)) (\<lambda>z1.
         Inr (set_rep z1 d (put_mac (r\<lparr>rp_extra := 0, rp_v := 0, rp_replica := 0, rp_cid := -1\<rparr>)
                                           (replicate zl_MAC_size 0)))))) = Inr z'"
    using assms(1) unfolding send_reply_def Let_def rbind_eq_Inr th_assert_Inr_iff by blast
  have cl: "rep_clean r" using r(1) assms(2) by (simp add: rep_at_Inr)
  obtain me where me: "i_to_p (z_node z) (node_id (z_node z)) = Some me" using k by (auto split: option.splits)
  obtain mac n z1 where z1: "send_client (z\<lparr>z_node := (z_node z)\<lparr>umac_nonce := n\<rparr>\<rparr>) d (put_mac (r\<lparr>rp_v := v, rp_replica := s, rp_cid := -1\<rparr>) mac) = Inr z1"
      "z' = set_rep z1 d r"
    using k by (auto simp: me rbind_eq_Inr put_mac_clean [OF cl r(2)])
  note z1(1) [THEN send_client_Inr]
  moreover from this have "z' = z1"
    using z1(2) r(1) by (simp add: set_rep_def rep_at_Inr)
  ultimately show ?thesis using that [OF r] by blast
qed

subsection \<open>Checkpoints leave the execution state alone\<close>

lemma truncate_history_drop:
  assumes "rh_ok h"
  obtains b h' ds k where "truncate_history h seq = Inr (b, h', ds)" "rh_ok h'" "rh_entries h' = drop k (rh_entries h)"
    "rh_sum h' = rh_sum h" "rh_mod h' = rh_mod h"
proof (cases "\<exists>e \<in> set (rh_entries h). rhe_seq e = seq")
  case True
  then obtain before e after where es: "rh_entries h = before @ e # after" "rhe_seq e = seq"
    "\<forall>e' \<in> set before. rhe_seq e' \<noteq> seq"
    using split_list_first_prop [OF True] by blast
  have d: "after = drop (Suc (length before)) (rh_entries h)" by (simp add: es(1))
  obtain h' where h': "truncate_history h seq = Inr (True, h', deleted_of (before @ [e]))" "rh_ok h'" "rh_entries h' = after"
    "rh_sum h' = rh_sum h" "rh_mod h' = rh_mod h"
    using truncate_history_found [OF assms es] by blast
  show ?thesis by (rule that [OF h'(1,2) _ h'(4,5)]) (simp only: h'(3) d)
next
  case False
  then have "truncate_history h seq = Inr (False, h, [])" using truncate_history_absent(1) [OF assms] by blast
  then show ?thesis by (rule that [of _ _ _ 0]) (simp_all add: assms)
qed

text \<open>
  \<open>ck_frame z z'\<close>: from \<open>z\<close> to \<open>z'\<close> at most the log was truncated, next to the bookkeeping of checkpoints.
\<close>

definition orders_of :: "out list \<Rightarrow> order list" where
  "orders_of os = List.map_filter (\<lambda>o'. case o' of To_replicas m \<Rightarrow> Some m | _ \<Rightarrow> None) os"

definition csets_ok :: "node \<Rightarrow> (seqno \<rightharpoonup> cset) \<Rightarrow> bool" where
  "csets_ok nd m \<longleftrightarrow> (\<forall>s cs. m s = Some cs \<longrightarrow> length (cs_elems cs) = nat (num_replicas nd))"

definition truncated :: "request req_history \<Rightarrow> request req_history \<Rightarrow> bool" where
  "truncated h h' \<longleftrightarrow> rh_ok h' \<and> rh_sum h' = rh_sum h \<and> rh_mod h' = rh_mod h \<and> (\<exists>k. rh_entries h' = drop k (rh_entries h))"

definition ck_frame :: "'st replica \<Rightarrow> 'st replica \<Rightarrow> bool" where
  "ck_frame z z' \<longleftrightarrow>
     z_node z' = z_node z \<and> z_seqno z' = z_seqno z \<and> z_last_seqno z' = z_last_seqno z \<and> z_replies z' = z_replies z \<and>
     z_service z' = z_service z \<and> z_cur_state z' = z_cur_state z \<and> z_rtimer z' = z_rtimer z \<and> z_ctimer z' = z_ctimer z \<and>
     z_switching_mutex z' = z_switching_mutex z \<and> z_checkpointing_mutex z' = z_checkpointing_mutex z \<and>
     z_outstanding z' = z_outstanding z \<and>
     length (tm_list (z_timers z')) = length (tm_list (z_timers z)) \<and>
     (\<forall>i. i \<noteq> z_ctimer z \<longrightarrow> tm_list (z_timers z') ! i = tm_list (z_timers z) ! i) \<and>
     orders_of (z_out z') = orders_of (z_out z) \<and>
     (csets_ok (z_node z) (z_current_checkpoints z) \<longrightarrow> csets_ok (z_node z) (z_current_checkpoints z')) \<and>
     (rh_ok (z_rh z) \<longrightarrow> truncated (z_rh z) (z_rh z'))"

lemma orders_of_simps [simp]:
  "orders_of [] = []" "orders_of (xs @ ys) = orders_of xs @ orders_of ys"
  "orders_of [To_replicas m] = [m]" "orders_of [To_client c r] = []" "orders_of [Monitor_send w i] = []"
  by (simp_all add: orders_of_def List.map_filter_def)

lemma truncated_refl [simp]: "rh_ok h \<Longrightarrow> truncated h h"
  by (auto simp: truncated_def intro: exI [of _ 0])

lemma truncated_trans: "truncated a b \<Longrightarrow> truncated b c \<Longrightarrow> truncated a c"
  by (auto simp: truncated_def)

lemma ck_frame_refl [simp]: "ck_frame z z"
  by (simp add: ck_frame_def)

lemma ck_frame_trans: "ck_frame a b \<Longrightarrow> ck_frame b c \<Longrightarrow> ck_frame a c"
  unfolding ck_frame_def by (auto simp: truncated_def)

lemma timer_stop_other: "i \<noteq> j \<Longrightarrow> tm_list (timer_stop s j) ! i = tm_list s ! i"
  by (simp add: timer_stop_def set_timer_def)

lemma timer_restart_other: "i \<noteq> j \<Longrightarrow> tm_list (timer_restart now s j) ! i = tm_list s ! i"
  by (simp add: timer_restart_def set_timer_def Let_def)

lemma timer_start_other: "i \<noteq> j \<Longrightarrow> tm_list (timer_start now s j) ! i = tm_list s ! i"
  by (simp add: timer_start_def timer_restart_other)

lemma length_timer_ops [simp]:
  "length (tm_list (timer_stop s j)) = length (tm_list s)"
  "length (tm_list (timer_restart now s j)) = length (tm_list s)"
  "length (tm_list (timer_start now s j)) = length (tm_list s)"
  by (simp_all add: timer_stop_def timer_restart_def timer_start_def set_timer_def Let_def)

lemma cset_add_length: "cset_add cs i m = Inr (b, cs') \<Longrightarrow> length (cs_elems cs') = length (cs_elems cs)"
  by (auto simp: cset_add_def rbind_eq_Inr split: if_splits)

lemma cset_add_ok: "0 \<le> i \<and> i < int (length (cs_elems cs)) \<Longrightarrow> \<exists>b cs'. cset_add cs i m = Inr (b, cs')"
  by (cases "cs_elems cs ! nat i \<noteq> None \<or> ck_seqid m \<noteq> cs_s cs") (auto simp: cset_add_def)

lemma csets_ok_upd: "csets_ok nd m \<Longrightarrow> length (cs_elems cs) = nat (num_replicas nd) \<Longrightarrow> csets_ok nd (m(s \<mapsto> cs))"
  "csets_ok nd m \<Longrightarrow> csets_ok nd (m(s := None))"
  by (auto simp: csets_ok_def)

lemma checkpoint_done_csets:
  "checkpoint_done E z cs = Inr z' \<Longrightarrow> z_current_checkpoints z' = (z_current_checkpoints z)(cs_s cs := None)"
  by (auto simp: checkpoint_done_def rbind_eq_Inr Let_def handle_panic_def split: if_splits)

lemma checkpoint_done_frame:
  assumes "checkpoint_done E z cs = Inr z'"
  shows "ck_frame z z'"
proof -
  obtain b h ds where h: "truncate_history (z_rh z) (cs_s cs) = Inr (b, h, ds)"
    and z': "z' = z\<lparr>z_max_history_size := max (int (rh_size (z_rh z))) (z_max_history_size z), z_rh := h,
        z_current_nb_requests := 0, z_checkpoint_in_progress := False, z_last_chkp_seqno := cs_s cs,
        z_current_checkpoints := (z_current_checkpoints z)(cs_s cs := None),
        z_timers := timer_start (e_rdtsc E) (timer_stop (z_timers z) (z_ctimer z)) (z_ctimer z)\<rparr>"
    using assms by (auto simp: checkpoint_done_def rbind_eq_Inr Let_def handle_panic_def split: if_splits)
  have "rh_ok (z_rh z) \<Longrightarrow> truncated (z_rh z) h"
    by (erule truncate_history_drop [where seq = "cs_s cs"]) (use h in \<open>auto simp: truncated_def\<close>)
  then show ?thesis
    by (simp add: ck_frame_def z' timer_start_other timer_stop_other csets_ok_upd)
qed

lemma lock_ck_Inr: "lock_ck z = Inr z' \<longleftrightarrow> \<not> z_checkpointing_mutex z \<and> z' = z\<lparr>z_checkpointing_mutex := True\<rparr>"
  by (auto simp: lock_ck_def)

lemma lock_sw_Inr: "lock_sw z = Inr z' \<longleftrightarrow> \<not> z_switching_mutex z \<and> z' = z\<lparr>z_switching_mutex := True\<rparr>"
  by (auto simp: lock_sw_def)

lemma ck_frame_unlock:
  assumes "\<not> z_checkpointing_mutex z" "ck_frame (z\<lparr>z_checkpointing_mutex := True\<rparr>) z'"
  shows "ck_frame z (unlock_ck z')"
  using assms by (simp add: ck_frame_def unlock_ck_def)

lemma ck_frame_checkpoints:
  assumes "cset_add (cset_for z s) i m = Inr (b, cs)"
  shows "ck_frame z (z\<lparr>z_current_checkpoints := (z_current_checkpoints z)(s \<mapsto> cs)\<rparr>)"
proof -
  have "csets_ok (z_node z) ((z_current_checkpoints z)(s \<mapsto> cs))" if "csets_ok (z_node z) (z_current_checkpoints z)"
  proof -
    have "length (cs_elems (cset_for z s)) = nat (num_replicas (z_node z))"
      using that by (auto simp: csets_ok_def cset_for_def cset_new_def split: option.split)
    then show ?thesis using csets_ok_upd(1) [OF that] cset_add_length [OF assms] by simp
  qed
  then show ?thesis by (simp add: ck_frame_def)
qed

lemma cset_for_mutex [simp]: "cset_for (z\<lparr>z_checkpointing_mutex := b\<rparr>) s = cset_for z s"
  by (simp add: cset_for_def cong: option.case_cong)

lemma handle_checkpoint_frame:
  assumes "handle_checkpoint E z m = Inr z'"
  shows "ck_frame z z'"
proof -
  let ?z1 = "z\<lparr>z_checkpointing_mutex := True\<rparr>"
  consider "z' = z"
    | "\<not> z_checkpointing_mutex z" "z' = unlock_ck ?z1"
    | b cs' where "\<not> z_checkpointing_mutex z" "cset_add (cset_for ?z1 (ck_seqid m)) (ck_id m) m = Inr (b, cs')"
        "z' = unlock_ck (?z1\<lparr>z_current_checkpoints := (z_current_checkpoints z)(ck_seqid m \<mapsto> cs')\<rparr>)"
    | b cs' z3 where "\<not> z_checkpointing_mutex z" "cset_add (cset_for ?z1 (ck_seqid m)) (ck_id m) m = Inr (b, cs')"
        "checkpoint_done E (?z1\<lparr>z_current_checkpoints := (z_current_checkpoints z)(ck_seqid m \<mapsto> cs')\<rparr>) cs' = Inr z3"
        "z' = unlock_ck z3"
    using assms
    by (auto simp: handle_checkpoint_def rbind_eq_Inr lock_ck_Inr Let_def split: if_splits)
  then show ?thesis
  proof cases
    case 2
    then show ?thesis using ck_frame_unlock [OF 2(1) ck_frame_refl] by simp
  next
    case 3
    then show ?thesis using ck_frame_unlock [OF 3(1) ck_frame_checkpoints [OF 3(2)]] by simp
  next
    case 4
    have "ck_frame ?z1 (?z1\<lparr>z_current_checkpoints := (z_current_checkpoints z)(ck_seqid m \<mapsto> cs')\<rparr>)"
      using ck_frame_checkpoints [OF 4(2)] by simp
    from ck_frame_trans [OF this checkpoint_done_frame [OF 4(3)]] show ?thesis
      using ck_frame_unlock [OF 4(1)] 4(4) by simp
  qed simp
qed

lemma make_checkpoint_frame:
  assumes "make_checkpoint E z = Inr z'"
  shows "ck_frame z z'"
proof -
  obtain m where "handle_checkpoint E (emit (z\<lparr>z_checkpoint_in_progress := True\<rparr>) (Monitor_send (W_checkpoint m) (-1))) m = Inr z'"
    using assms by (auto simp: make_checkpoint_def rbind_eq_Inr Let_def)
  then have "ck_frame (emit (z\<lparr>z_checkpoint_in_progress := True\<rparr>) (Monitor_send (W_checkpoint m) (-1))) z'"
    by (rule handle_checkpoint_frame)
  moreover have "ck_frame z (emit (z\<lparr>z_checkpoint_in_progress := True\<rparr>) (Monitor_send (W_checkpoint m) (-1)))"
    by (simp add: ck_frame_def)
  ultimately show ?thesis by (blast intro: ck_frame_trans)
qed

subsection \<open>Executing one request\<close>

text \<open>What \<open>end_reply\<close> leaves in the place of a client.\<close>

definition stored_reply :: "reply \<Rightarrow> request_id \<Rightarrow> byte list \<Rightarrow> digest \<Rightarrow> reply" where
  "stored_reply r rid body d =
     (let sz = ALIGNED_SIZE (int (Reply_rep_size + length body + zl_MAC_size)) in
      r\<lparr>rp_rid := rid, rp_reply_size := int (length body), rp_cid := -1, rp_rh_digest := d, rp_digest := Digest_of body,
        rp_size := sz, rp_tail := body @ replicate (nat sz - Reply_rep_size - length body) 0\<rparr>)"

lemma ALIGNED_SIZE_ge: "0 \<le> n \<Longrightarrow> n \<le> ALIGNED_SIZE n"
  by (simp add: ALIGNED_SIZE_def ALIGNMENT_def ALIGNED_def) presburger

lemma stored_reply_clean:
  assumes "rep_clean r"
  shows "rep_clean (stored_reply r rid body d)"
proof -
  let ?sz = "ALIGNED_SIZE (int (Reply_rep_size + length body + zl_MAC_size))"
  have "int (Reply_rep_size + length body + zl_MAC_size) \<le> ?sz" by (rule ALIGNED_SIZE_ge) simp
  then have "zl_MAC_size \<le> nat ?sz - Reply_rep_size - length body" by linarith
  then show ?thesis
    using assms unfolding rep_clean_def stored_reply_def Let_def reply_body_def
    by (auto intro!: exI [of _ "nat ?sz - Reply_rep_size - length body"])
qed

lemma end_reply_Inr:
  assumes "end_reply z cid rid body d = Inr z'"
  shows "0 \<le> cid" "nat cid < length (z_replies z)"
    "z' = z\<lparr>z_replies := (z_replies z)[nat cid := stored_reply (z_replies z ! nat cid) rid body d]\<rparr>"
  using assms by (auto simp: end_reply_def rbind_eq_Inr rep_at_Inr set_rep_def stored_reply_def Let_def)

lemma end_reply_ok:
  assumes "0 \<le> cid" "nat cid < length (z_replies z)" "rp_reply_size (z_replies z ! nat cid) = -1"
  shows "end_reply z cid rid body d =
    Inr (z\<lparr>z_replies := (z_replies z)[nat cid := stored_reply (z_replies z ! nat cid) rid body d]\<rparr>)"
  using assms by (simp add: end_reply_def rep_at_def set_rep_def stored_reply_def Let_def)

lemma stored_reply_reset [simp]: "stored_reply (r\<lparr>rp_reply_size := n\<rparr>) rid body d = stored_reply r rid body d"
  by (simp add: stored_reply_def Let_def)

lemma stored_reply_simps [simp]:
  "rp_rid (stored_reply r rid body d) = rid" "rp_reply_size (stored_reply r rid body d) = int (length body)"
  "rp_digest (stored_reply r rid body d) = Digest_of body" "rp_rh_digest (stored_reply r rid body d) = d"
  "reply_body (stored_reply r rid body d) = body"
  by (simp_all add: stored_reply_def Let_def reply_body_def)

text \<open>\<open>sent z z' cid r\<close>: the reply \<open>r\<close> was sent to \<open>cid\<close> and nothing else of the execution state changed.\<close>

definition sent :: "'st replica \<Rightarrow> 'st replica \<Rightarrow> int \<Rightarrow> reply \<Rightarrow> bool" where
  "sent z z' cid r \<longleftrightarrow> (\<exists>n k. z' = emit (z\<lparr>z_node := (z_node z)\<lparr>umac_nonce := n\<rparr>, z_nb_sent_replies := k\<rparr>) (To_client cid r))"

lemma reply_new_Inr:
  assumes "reply_new c nd p v rid i d cid = Inr (r, nd')"
  shows "\<exists>n. nd' = nd\<lparr>umac_nonce := n\<rparr>" "rp_rid r = rid" "rp_digest r = d" "rp_replica r = i" "rp_cid r = cid" "rp_reply_size r = -1"
  using assms by (auto simp: reply_new_def rbind_eq_Inr Let_def split: option.splits)

lemma reply_to_sent:
  assumes "reply_to E z cid rid k = Inr z'" "rep_clean (z_replies z ! nat cid)"
  obtains r where "sent z z' cid r"
proof (cases "k < 50 \<or> int (unat rid mod nat (num_replicas (z_node z))) = node_id (z_node z)")
  case True
  obtain z1 where z1: "send_reply (e_crypto E) z cid 0 (node_id (z_node z)) = Inr z1"
    "z' = z1\<lparr>z_nb_sent_replies := z_nb_sent_replies z1 + 1\<rparr>"
    using assms(1) True by (auto simp: reply_to_def Let_def rbind_eq_Inr)
  from send_reply_Inr [OF z1(1) assms(2)]
  obtain r mac n where "z1 = emit (z\<lparr>z_node := (z_node z)\<lparr>umac_nonce := n\<rparr>\<rparr>)
      (To_client cid (put_mac (r\<lparr>rp_v := 0, rp_replica := node_id (z_node z), rp_cid := -1\<rparr>) mac))"
    by blast
  with z1(2) have "sent z z' cid (put_mac (r\<lparr>rp_v := 0, rp_replica := node_id (z_node z), rp_cid := -1\<rparr>) mac)"
    unfolding sent_def emit_def by (intro exI [of _ n] exI [of _ "z_nb_sent_replies z + 1"]) simp
  then show ?thesis by (rule that)
next
  case False
  obtain d p r nd' where r: "reply_new (e_crypto E) (z_node z) p 0 rid (node_id (z_node z)) d cid = Inr (r, nd')"
    and z': "send_client (z\<lparr>z_node := nd', z_nb_sent_replies := z_nb_sent_replies z + 1\<rparr>) cid r = Inr z'"
    using assms(1) False by (auto simp: reply_to_def Let_def rbind_eq_Inr split: option.splits)
  have "sent z z' cid r"
    using reply_new_Inr(1) [OF r] send_client_Inr [OF z'] by (auto simp: sent_def)
  then show ?thesis by (rule that)
qed

text \<open>
  \<open>executed E z req z'\<close>: what executing the request \<open>req\<close>, a new one, changes.
\<close>

definition executed :: "'st env \<Rightarrow> 'st replica \<Rightarrow> request \<Rightarrow> 'st replica \<Rightarrow> bool" where
  "executed E z req z' \<longleftrightarrow>
     (\<exists>st outb h d n k r. e_exec E (z_service z) (request_command req) (rq_cid req) = (st, outb) \<and> length outb \<le> new_reply_size \<and>
        add_request (e_mpn E) (z_rh z) req (rq_od req) (z_seqno z) = Inr (h, d) \<and>
        0 \<le> rq_cid req \<and> nat (rq_cid req) < length (z_replies z) \<and> rp_rid (z_replies z ! nat (rq_cid req)) < rq_rid req \<and>
        ck_frame (emit (z\<lparr>z_service := st, z_last_seqno := z_seqno z, z_rh := h,
                          z_replies := (z_replies z)[nat (rq_cid req) :=
                            stored_reply (z_replies z ! nat (rq_cid req)) (rq_rid req) outb d],
                          z_node := (z_node z)\<lparr>umac_nonce := n\<rparr>, z_nb_sent_replies := k\<rparr>) (To_client (rq_cid req) r)) z')"

lemma executedE:
  assumes "executed E z req z'"
  obtains st outb h d n where "e_exec E (z_service z) (request_command req) (rq_cid req) = (st, outb)" "length outb \<le> new_reply_size"
    "add_request (e_mpn E) (z_rh z) req (rq_od req) (z_seqno z) = Inr (h, d)"
    "0 \<le> rq_cid req" "nat (rq_cid req) < length (z_replies z)" "rp_rid (z_replies z ! nat (rq_cid req)) < rq_rid req"
    "z_service z' = st" "z_last_seqno z' = z_seqno z" "z_seqno z' = z_seqno z"
    "z_replies z' = (z_replies z)[nat (rq_cid req) := stored_reply (z_replies z ! nat (rq_cid req)) (rq_rid req) outb d]"
    "z_node z' = (z_node z)\<lparr>umac_nonce := n\<rparr>" "rh_ok h \<longrightarrow> truncated h (z_rh z')" "z_cur_state z' = z_cur_state z"
    "orders_of (z_out z') = orders_of (z_out z)"
proof -
  obtain st outb h d n k r where x: "e_exec E (z_service z) (request_command req) (rq_cid req) = (st, outb)" "length outb \<le> new_reply_size"
      "add_request (e_mpn E) (z_rh z) req (rq_od req) (z_seqno z) = Inr (h, d)"
      "0 \<le> rq_cid req" "nat (rq_cid req) < length (z_replies z)" "rp_rid (z_replies z ! nat (rq_cid req)) < rq_rid req"
    and fr: "ck_frame (emit (z\<lparr>z_service := st, z_last_seqno := z_seqno z, z_rh := h,
                z_replies := (z_replies z)[nat (rq_cid req) := stored_reply (z_replies z ! nat (rq_cid req)) (rq_rid req) outb d],
                z_node := (z_node z)\<lparr>umac_nonce := n\<rparr>, z_nb_sent_replies := k\<rparr>) (To_client (rq_cid req) r)) z'"
    using assms unfolding executed_def by blast
  show ?thesis
    by (rule that [OF x]) (use fr in \<open>simp_all add: ck_frame_def\<close>)
qed

lemma executed_newer: "executed E z req z' \<Longrightarrow> rp_rid (z_replies z ! nat (rq_cid req)) < rq_rid req"
  by (erule executedE)

lemma execute_request_cases:
  assumes ex: "execute_request E z req = Inr (b, z')" and cl: "\<forall>r \<in> set (z_replies z). rep_clean r"
  obtains (older) "\<not> b" "z' = z" "rq_rid req < rp_rid (z_replies z ! nat (rq_cid req))"
  | (again) r mac n where "\<not> b" "rep_at z (rq_cid req) = Inr r" "rp_rid r = rq_rid req" "rp_reply_size r \<noteq> -1"
      "z' = emit (z\<lparr>z_node := (z_node z)\<lparr>umac_nonce := n\<rparr>\<rparr>)
              (To_client (rq_cid req) (put_mac (r\<lparr>rp_v := 0, rp_replica := node_id (z_node z), rp_cid := -1\<rparr>) mac))"
  | (new) "b" "executed E z req z'"
proof -
  let ?cid = "rq_cid req" and ?rid = "rq_rid req"
  let ?r = "z_replies z ! nat ?cid"
  obtain c: "0 \<le> ?cid" "nat ?cid < length (z_replies z)" and ca: "rep_at z ?cid = Inr ?r"
    using ex by (auto simp: execute_request_def Let_def rbind_eq_Inr reps_req_id_def rep_at_Inr)
  have rc: "rep_clean ?r" using c cl by simp
  consider "?rid < rp_rid ?r" | "rp_rid ?r = ?rid" | "rp_rid ?r < ?rid" by fastforce
  then show ?thesis
  proof cases
    case 1
    with ex show ?thesis by (intro older) (auto simp: execute_request_def reps_req_id_def ca)
  next
    case 2
    with ex obtain "\<not> b" and s: "send_reply (e_crypto E) z ?cid 0 (node_id (z_node z)) = Inr z'"
      by (auto simp: execute_request_def reps_req_id_def ca rbind_eq_Inr)
    from s rc obtain r mac n where "rep_at z ?cid = Inr r" "rp_reply_size r \<noteq> -1"
      "z' = emit (z\<lparr>z_node := (z_node z)\<lparr>umac_nonce := n\<rparr>\<rparr>)
              (To_client ?cid (put_mac (r\<lparr>rp_v := 0, rp_replica := node_id (z_node z), rp_cid := -1\<rparr>) mac))"
      by (rule send_reply_Inr)
    then show ?thesis using again \<open>\<not> b\<close> 2 ca by simp
  next
    case 3
    let ?z1 = "z\<lparr>z_replies := (z_replies z)[nat ?cid := ?r\<lparr>rp_reply_size := -1\<rparr>]\<rparr>"
    obtain st outb where xo: "e_exec E (z_service z) (request_command req) ?cid = (st, outb)" by fastforce
    obtain h d z3 z4 where len: "length outb \<le> new_reply_size" and h: "add_request (e_mpn E) (z_rh z) req (rq_od req) (z_seqno z) = Inr (h, d)"
      and z3: "end_reply (?z1\<lparr>z_service := st, z_last_seqno := z_seqno z, z_rh := h\<rparr>) ?cid ?rid outb d = Inr z3"
      and z4: "reply_to E z3 ?cid ?rid (length outb) = Inr z4"
      and z5: "(if should_checkpoint (z_rh z4) then make_checkpoint E z4 else Inr z4) = Inr z'" and b
      using ex 3 xo by (auto simp: execute_request_def reps_req_id_def ca rbind_eq_Inr new_reply_def set_rep_def Let_def split: if_splits)
    note e3 = end_reply_Inr(3) [OF z3, simplified nth_list_update_eq [OF c(2)], simplified]
    have "rep_clean (z_replies z3 ! nat ?cid)" using c rc by (simp add: e3 stored_reply_clean)
    from reply_to_sent [OF z4 this] obtain r where "sent z3 z4 ?cid r" .
    then obtain n k where e4: "z4 = emit (z3\<lparr>z_node := (z_node z3)\<lparr>umac_nonce := n\<rparr>, z_nb_sent_replies := k\<rparr>) (To_client ?cid r)"
      by (auto simp: sent_def)
    have fr: "ck_frame z4 z'" using z5 make_checkpoint_frame by (auto split: if_splits)
    have "executed E z req z'"
      unfolding executed_def using xo len h c 3 fr
      by (intro exI [of _ st] exI [of _ outb] exI [of _ h] exI [of _ d] exI [of _ n] exI [of _ k] exI [of _ r]) (simp add: e4 e3)
    with \<open>b\<close> show ?thesis by (rule new)
  qed
qed

subsection \<open>Well-formed replicas\<close>

text \<open>
  A well-formed replica: its node and log are, there is a reply for every principal, each clean and complete unless
  its client never sent anything, and no mutex is held.
\<close>

definition reply_ok :: "reply \<Rightarrow> bool" where
  "reply_ok r \<longleftrightarrow> rep_clean r \<and> \<not> rp_should_switch r \<and> (rp_rid r \<noteq> 0 \<longrightarrow> rp_reply_size r \<noteq> -1)"

definition replica_ok :: "'st replica \<Rightarrow> bool" where
  "replica_ok z \<longleftrightarrow>
     node_ok (z_node z) \<and> is_replica (z_node z) (node_id (z_node z)) \<and> rh_ok (z_rh z) \<and>
     int (length (z_replies z)) = num_principals (z_node z) \<and> (\<forall>r \<in> set (z_replies z). reply_ok r) \<and>
     csets_ok (z_node z) (z_current_checkpoints z) \<and> \<not> z_checkpointing_mutex z \<and> \<not> z_switching_mutex z"

text \<open>The node has a private key, and its signatures fit.\<close>

definition signs :: "crypto \<Rightarrow> node \<Rightarrow> bool" where
  "signs c nd \<longleftrightarrow> (\<forall>src. \<exists>sig ss. gen_signature c nd src = Inr sig \<and> sig_size nd (-1) = Inr ss \<and> length sig \<le> ss)"

lemma node_nonce [simp]:
  "i_to_p (nd\<lparr>umac_nonce := n\<rparr>) i = i_to_p nd i" "node_ok (nd\<lparr>umac_nonce := n\<rparr>) = node_ok nd"
  "is_replica (nd\<lparr>umac_nonce := n\<rparr>) i = is_replica nd i" "sig_size (nd\<lparr>umac_nonce := n\<rparr>) i = sig_size nd i"
  "gen_signature c (nd\<lparr>umac_nonce := n\<rparr>) src = gen_signature c nd src" "signs c (nd\<lparr>umac_nonce := n\<rparr>) = signs c nd"
  "csets_ok (nd\<lparr>umac_nonce := n\<rparr>) m = csets_ok nd m" "primary (nd\<lparr>umac_nonce := n\<rparr>) = primary nd"
  by (simp_all add: i_to_p_def node_ok_def is_replica_def sig_size_def gen_signature_def signs_def csets_ok_def primary_def Let_def
      cong: option.case_cong)

lemma gen_mac_nonce_ok:
  assumes "node_ok nd" "0 \<le> j" "j < num_principals nd"
  shows "\<exists>me. i_to_p nd (node_id nd) = Some me \<and> (\<forall>src. \<exists>mac n. gen_mac_nonce c u me src j = Inr (mac, n))"
proof -
  have b: "0 \<le> node_id nd" "node_id nd < num_principals nd" using assms(1) by (simp_all add: node_ok_def)
  obtain me where me: "i_to_p nd (node_id nd) = Some me" "principal_ok (node_id nd) (num_principals nd) (nat (node_id nd)) me"
    by (rule i_to_p_ok [OF assms(1) b])
  have "\<exists>mac n. gen_mac_nonce c u me src j = Inr (mac, n)" for src
    using gen_mac_own [OF me(2) b(1) assms(2,3)] by (simp add: gen_mac_nonce_def Let_def)
  with me(1) show ?thesis by blast
qed

lemma send_client_ok:
  "0 \<le> cid \<Longrightarrow> cid < num_principals (z_node z) \<Longrightarrow> send_client z cid r = Inr (emit z (To_client cid r))"
  by (simp add: send_client_def node_send_def)

lemma send_reply_ok:
  assumes "node_ok (z_node z)" "0 \<le> cid" "cid < num_principals (z_node z)" "nat cid < length (z_replies z)"
    and "rep_clean (z_replies z ! nat cid)" "rp_reply_size (z_replies z ! nat cid) \<noteq> -1"
  shows "\<exists>z'. send_reply c z cid v s = Inr z'"
proof -
  let ?r = "z_replies z ! nat cid"
  obtain me where me: "i_to_p (z_node z) (node_id (z_node z)) = Some me"
    and mac: "\<And>src. \<exists>mac n. gen_mac_nonce c (umac_nonce (z_node z)) me src cid = Inr (mac, n)"
    using gen_mac_nonce_ok [OF assms(1-3)] by blast
  obtain mac n where m: "gen_mac_nonce c (umac_nonce (z_node z)) me (reply_rep_bytes (?r\<lparr>rp_v := v, rp_replica := s, rp_cid := -1\<rparr>)) cid = Inr (mac, n)"
    using mac by blast
  have r: "rep_at z cid = Inr ?r" using assms(2,4) by (simp add: rep_at_def)
  have "rp_extra ?r = 0 \<and> rp_v ?r = 0 \<and> rp_replica ?r = 0 \<and> rp_cid ?r = -1" using assms(5) by (simp add: rep_clean_def)
  then show ?thesis
    using assms(2,3,6) by (simp add: send_reply_def r me m Let_def send_client_ok)
qed

lemma reply_new_ok:
  assumes "i_to_p nd (node_id nd) = Some me" "\<And>src. \<exists>mac n. gen_mac_nonce c (umac_nonce nd) me src (p_id p) = Inr (mac, n)"
  shows "\<exists>r n. reply_new c nd p v rid i d cid = Inr (r, nd\<lparr>umac_nonce := n\<rparr>)"
proof -
  define r where "r = \<lparr>rp_extra = 0, rp_size = int (Reply_rep_size + zl_MAC_size), rp_v = v, rp_rid = rid,
      rp_rh_digest = digest_zero, rp_digest = d, rp_replica = i, rp_reply_size = -1, rp_cid = cid, rp_should_switch = False,
      rp_instance = protocol_number zlight, rp_unused = replicate 4 0, rp_tail = []\<rparr>"
  obtain mac n where "gen_mac_nonce c (umac_nonce nd) me (reply_rep_bytes r) (p_id p) = Inr (mac, n)"
    using assms(2) by blast
  then show ?thesis unfolding reply_new_def Let_def assms(1) r_def [symmetric] by simp (rule exI, rule refl)
qed

lemma reply_to_ok:
  assumes "node_ok (z_node z)" "0 \<le> cid" "cid < num_principals (z_node z)" "nat cid < length (z_replies z)"
    and "rep_clean (z_replies z ! nat cid)" "rp_reply_size (z_replies z ! nat cid) \<noteq> -1"
  shows "\<exists>z'. reply_to E z cid rid k = Inr z'"
proof -
  obtain z1 where z1: "send_reply (e_crypto E) z cid 0 (node_id (z_node z)) = Inr z1" using send_reply_ok [OF assms] by blast
  obtain p where p: "i_to_p (z_node z) cid = Some p" "principal_ok (node_id (z_node z)) (num_principals (z_node z)) (nat cid) p"
    by (rule i_to_p_ok [OF assms(1-3)])
  obtain me where me: "i_to_p (z_node z) (node_id (z_node z)) = Some me"
    and mac: "\<And>src. \<exists>mac n. gen_mac_nonce (e_crypto E) (umac_nonce (z_node z)) me src cid = Inr (mac, n)"
    using gen_mac_nonce_ok [OF assms(1-3)] by blast
  have pid: "p_id p = cid" using p(2) assms(2) by (simp add: principal_ok_def)
  have "\<exists>r n. reply_new (e_crypto E) (z_node z) p 0 rid (node_id (z_node z)) d cid = Inr (r, (z_node z)\<lparr>umac_nonce := n\<rparr>)" for d
    by (rule reply_new_ok [OF me]) (simp add: mac pid)
  then obtain r n where "reply_new (e_crypto E) (z_node z) p 0 rid (node_id (z_node z)) (rp_digest (z_replies z ! nat cid)) cid
      = Inr (r, (z_node z)\<lparr>umac_nonce := n\<rparr>)" by blast
  then show ?thesis
    using assms(2-4) by (auto simp: reply_to_def Let_def z1 reps_digest_def rep_at_def p(1) send_client_ok)
qed

lemma replica_ok_frame: "replica_ok z \<Longrightarrow> ck_frame z z' \<Longrightarrow> replica_ok z'"
  by (simp add: replica_ok_def ck_frame_def truncated_def)

lemma checkpoint_done_ok: "rh_ok (z_rh z) \<Longrightarrow> \<exists>z'. checkpoint_done E z cs = Inr z'"
  by (erule truncate_history_drop [where seq = "cs_s cs"]) (auto simp: checkpoint_done_def handle_panic_def Let_def)

lemma handle_checkpoint_ok:
  assumes ok: "replica_ok z" and v: "checkpoint_verify (e_crypto E) (z_node z) m = Inr b"
  shows "\<exists>z'. handle_checkpoint E z m = Inr z' \<and> replica_ok z'"
proof (cases "b \<and> ck_seqid m > z_last_chkp_seqno z")
  case False
  have "replica_ok (unlock_ck (z\<lparr>z_checkpointing_mutex := True\<rparr>))" "\<not> z_checkpointing_mutex z"
    using ok by (simp_all add: replica_ok_def unlock_ck_def)
  then show ?thesis using False ok by (auto simp: handle_checkpoint_def v lock_ck_def)
next
  case True
  let ?z1 = "z\<lparr>z_checkpointing_mutex := True\<rparr>"
  let ?cs = "cset_for z (ck_seqid m)"
  have mx: "\<not> z_checkpointing_mutex z" and cso: "csets_ok (z_node z) (z_current_checkpoints z)" and rh: "rh_ok (z_rh z)"
    using ok by (simp_all add: replica_ok_def)
  have len: "length (cs_elems ?cs) = nat (num_replicas (z_node z))"
    using cso by (auto simp: csets_ok_def cset_for_def cset_new_def split: option.split)
  have "is_replica (z_node z) (ck_id m)" using v True by (auto simp: checkpoint_verify_def split: if_splits)
  then have "ck_id m \<ge> 0 \<and> ck_id m < int (length (cs_elems ?cs))" by (simp add: len is_replica_def)
  then obtain added cs' where ca: "cset_add ?cs (ck_id m) m = Inr (added, cs')"
    using cset_add_ok by blast
  let ?z2 = "?z1\<lparr>z_current_checkpoints := (z_current_checkpoints z)(ck_seqid m \<mapsto> cs')\<rparr>"
  have cso2: "csets_ok (z_node z) (z_current_checkpoints ?z2)"
    using csets_ok_upd(1) [OF cso] cset_add_length [OF ca] len by simp
  obtain z3 where z3: "checkpoint_done E ?z2 cs' = Inr z3" using checkpoint_done_ok [of ?z2] rh by auto
  have hc: "handle_checkpoint E z m = Inr (if added \<and> cset_is_complete cs' then unlock_ck z3 else unlock_ck ?z2)"
    using True ca z3 by (simp add: handle_checkpoint_def v lock_ck_def mx Let_def)
  have "csets_ok (z_node z) (z_current_checkpoints (if added \<and> cset_is_complete cs' then unlock_ck z3 else unlock_ck ?z2))"
    using checkpoint_done_csets [OF z3] cso2 csets_ok_upd(2) [OF cso2] by (simp add: unlock_ck_def)
  with replica_ok_frame [OF ok handle_checkpoint_frame [OF hc]] hc show ?thesis by blast
qed

lemma make_checkpoint_ok:
  assumes ok: "replica_ok z" and sg: "signs (e_crypto E) (z_node z)"
  shows "\<exists>z'. make_checkpoint E z = Inr z' \<and> replica_ok z'"
proof -
  let ?nd = "z_node z"
  obtain ss where ss: "sig_size ?nd (-1) = Inr ss" using sg by (auto simp: signs_def)
  obtain m where m: "checkpoint_new ?nd = Inr m" "ck_id m = node_id ?nd" "ss \<le> length (ck_tail m)"
    using ALIGNED_SIZE_ge [of "int (Checkpoint_rep_size + ss)"] by (simp add: checkpoint_new_def ss)
  obtain s where s: "get_top_seqno (z_rh z) = Inr s" using ok get_top_seqno_eq by (auto simp: replica_ok_def)
  let ?m1 = "m\<lparr>ck_seqid := s, ck_digest := rh_digest (z_rh z)\<rparr>"
  obtain sig where sig: "gen_signature (e_crypto E) ?nd (checkpoint_rep_bytes ?m1) = Inr sig" "length sig \<le> ss"
    using sg ss unfolding signs_def by (metis Inr_inject)
  obtain m2 where m2: "checkpoint_sign (e_crypto E) ?nd ?m1 = Inr m2" "ck_id m2 = node_id ?nd"
    using sig m by (simp add: checkpoint_sign_def put_bytes_def)
  let ?z1 = "emit (z\<lparr>z_checkpoint_in_progress := True\<rparr>) (Monitor_send (W_checkpoint m2) (-1))"
  have "replica_ok ?z1" using ok by (simp add: replica_ok_def)
  moreover have "checkpoint_verify (e_crypto E) (z_node ?z1) m2 = Inr True"
    using ok m2(2) by (simp add: checkpoint_verify_def replica_ok_def)
  ultimately obtain z' where "handle_checkpoint E ?z1 m2 = Inr z'" "replica_ok z'" using handle_checkpoint_ok by blast
  then show ?thesis by (simp add: make_checkpoint_def m(1) s m2(1) Let_def)
qed

text \<open>
  A request that fits: its client is a principal, the service's answer fits into the reply buffer, and it is not the
  request 0 of a client without a reply.
\<close>

definition fits :: "'st env \<Rightarrow> 'st replica \<Rightarrow> request \<Rightarrow> bool" where
  "fits E z req \<longleftrightarrow> 0 \<le> rq_cid req \<and> rq_cid req < num_principals (z_node z) \<and> rq_rid req \<noteq> 0 \<and>
     length (snd (e_exec E (z_service z) (request_command req) (rq_cid req))) \<le> new_reply_size"

lemma replica_ok_replies:
  assumes "replica_ok z" "0 \<le> cid" "cid < num_principals (z_node z)"
  shows "nat cid < length (z_replies z)" "reply_ok (z_replies z ! nat cid)" "rep_at z cid = Inr (z_replies z ! nat cid)"
proof -
  have "int (length (z_replies z)) = num_principals (z_node z)" using assms(1) by (simp add: replica_ok_def)
  then show "nat cid < length (z_replies z)" using assms(2,3) by linarith
  then show "reply_ok (z_replies z ! nat cid)" "rep_at z cid = Inr (z_replies z ! nat cid)"
    using assms by (simp_all add: replica_ok_def rep_at_def)
qed

lemma replica_ok_clean: "replica_ok z \<Longrightarrow> \<forall>r \<in> set (z_replies z). rep_clean r"
  by (simp add: replica_ok_def reply_ok_def)

lemma executed_ok_mid:
  assumes ok: "replica_ok z" and h: "rh_ok h" and c: "nat cid < length (z_replies z)" "reply_ok (z_replies z ! nat cid)"
  shows "replica_ok (z\<lparr>z_service := st, z_last_seqno := s, z_rh := h,
            z_replies := (z_replies z)[nat cid := stored_reply (z_replies z ! nat cid) rid outb d]\<rparr>)"
proof -
  have "reply_ok (stored_reply (z_replies z ! nat cid) rid outb d)"
    using c stored_reply_clean by (simp add: reply_ok_def) (simp add: stored_reply_def Let_def)
  then show ?thesis
    using ok h by (auto simp: replica_ok_def dest!: set_update_subset_insert [THEN subsetD])
qed

lemma execute_new_ok:
  assumes ok: "replica_ok z" and sg: "signs (e_crypto E) (z_node z)" and g: "mpn_ok (e_mpn E)" and f: "fits E z req"
    and 3: "rp_rid (z_replies z ! nat (rq_cid req)) < rq_rid req"
  shows "\<exists>z'. execute_request E z req = Inr (True, z') \<and> replica_ok z'"
proof -
  let ?cid = "rq_cid req" and ?rid = "rq_rid req"
  let ?r = "z_replies z ! nat ?cid"
  have cid: "0 \<le> ?cid" "?cid < num_principals (z_node z)" using f by (simp_all add: fits_def)
  note rp = replica_ok_replies [OF ok cid]
  have nok: "node_ok (z_node z)" using ok by (simp add: replica_ok_def)
  have ra: "reps_req_id z ?cid = Inr (rp_rid ?r)" by (simp add: reps_req_id_def rp)
  obtain st outb where xo: "e_exec E (z_service z) (request_command req) ?cid = (st, outb)" by fastforce
  obtain h d where h: "add_request (e_mpn E) (z_rh z) req (rq_od req) (z_seqno z) = Inr (h, d)" "rh_ok h"
    using add_request_facts [OF g, of "z_rh z" req "rq_od req" "z_seqno z"] ok unfolding replica_ok_def by blast
  let ?z3 = "z\<lparr>z_service := st, z_last_seqno := z_seqno z, z_rh := h,
          z_replies := (z_replies z)[nat ?cid := stored_reply ?r ?rid outb d]\<rparr>"
  have ok3: "replica_ok ?z3" by (rule executed_ok_mid [OF ok h(2) rp(1,2)])
  have cl3: "rep_clean (z_replies ?z3 ! nat ?cid)" "rp_reply_size (z_replies ?z3 ! nat ?cid) \<noteq> -1"
    using rp(1,2) stored_reply_clean by (simp_all add: reply_ok_def)
  have len3: "nat ?cid < length (z_replies ?z3)" using rp(1) by simp
  have nd3: "node_ok (z_node ?z3)" "?cid < num_principals (z_node ?z3)" using nok cid by simp_all
  obtain z4 where z4: "reply_to E ?z3 ?cid ?rid (length outb) = Inr z4"
    using reply_to_ok [OF nd3(1) cid(1) nd3(2) len3 cl3] by blast
  obtain r where "sent ?z3 z4 ?cid r" by (rule reply_to_sent [OF z4 cl3(1)])
  then obtain n k where e4: "z4 = emit (?z3\<lparr>z_node := (z_node ?z3)\<lparr>umac_nonce := n\<rparr>, z_nb_sent_replies := k\<rparr>) (To_client ?cid r)"
    unfolding sent_def by blast
  have ok4: "replica_ok z4" "signs (e_crypto E) (z_node z4)" using ok3 sg unfolding e4 by (simp_all add: replica_ok_def)
  obtain z' where z': "(if should_checkpoint (z_rh z4) then make_checkpoint E z4 else Inr z4) = Inr z'" "replica_ok z'"
    using make_checkpoint_ok [OF ok4] ok4(1) by (cases "should_checkpoint (z_rh z4)") auto
  let ?z2 = "z\<lparr>z_replies := (z_replies z)[nat ?cid := ?r\<lparr>rp_reply_size := -1\<rparr>], z_service := st, z_last_seqno := z_seqno z, z_rh := h\<rparr>"
  have len2: "nat ?cid < length (z_replies ?z2)" "rp_reply_size (z_replies ?z2 ! nat ?cid) = -1" using rp(1) by simp_all
  have e: "end_reply ?z2 ?cid ?rid outb d = Inr ?z3"
    using end_reply_ok [OF cid(1) len2] rp(1) by simp
  have ne: "\<not> ?rid < rp_rid ?r" "rp_rid ?r \<noteq> ?rid" "\<not> new_reply_size < length outb" using 3 f by (auto simp: fits_def xo)
  have "execute_request E z req = Inr (True, z')"
    using e z4 z'(1) by (simp add: execute_request_def Let_def ra ne new_reply_def rp(3) set_rep_def xo h(1))
  then show ?thesis using z'(2) by blast
qed

lemma execute_request_ok:
  assumes ok: "replica_ok z" and sg: "signs (e_crypto E) (z_node z)" and g: "mpn_ok (e_mpn E)" and f: "fits E z req"
  shows "\<exists>b z'. execute_request E z req = Inr (b, z') \<and> replica_ok z'"
proof -
  let ?cid = "rq_cid req" and ?rid = "rq_rid req"
  let ?r = "z_replies z ! nat ?cid"
  have cid: "0 \<le> ?cid" "?cid < num_principals (z_node z)" using f by (simp_all add: fits_def)
  note rp = replica_ok_replies [OF ok cid]
  have nok: "node_ok (z_node z)" using ok by (simp add: replica_ok_def)
  have ra: "reps_req_id z ?cid = Inr (rp_rid ?r)" by (simp add: reps_req_id_def rp)
  consider "?rid < rp_rid ?r" | "rp_rid ?r = ?rid" | "rp_rid ?r < ?rid" by fastforce
  then show ?thesis
  proof cases
    case 1
    then show ?thesis using ok by (auto simp: execute_request_def ra)
  next
    case 2
    then have ne: "rep_clean ?r" "rp_reply_size ?r \<noteq> -1" using f rp(2) by (auto simp: reply_ok_def fits_def)
    from send_reply_ok [OF nok cid rp(1) ne] obtain z1 where z1: "send_reply (e_crypto E) z ?cid 0 (node_id (z_node z)) = Inr z1"
      by blast
    obtain r mac n where "z1 = emit (z\<lparr>z_node := (z_node z)\<lparr>umac_nonce := n\<rparr>\<rparr>)
              (To_client ?cid (put_mac (r\<lparr>rp_v := 0, rp_replica := node_id (z_node z), rp_cid := -1\<rparr>) mac))"
      using send_reply_Inr [OF z1 ne(1)] by blast
    then have "replica_ok z1" using ok by (simp add: replica_ok_def)
    then show ?thesis using 2 z1 by (auto simp: execute_request_def ra)
  next
    case 3
    then show ?thesis using execute_new_ok [OF ok sg g f] by blast
  qed
qed

lemma executed_keeps_ok:
  assumes ok: "replica_ok z" and g: "mpn_ok (e_mpn E)" and ex: "executed E z req z'"
  shows "replica_ok z'"
proof -
  obtain st outb h d n k r where x: "add_request (e_mpn E) (z_rh z) req (rq_od req) (z_seqno z) = Inr (h, d)"
      "0 \<le> rq_cid req" "nat (rq_cid req) < length (z_replies z)"
    and fr: "ck_frame (emit (z\<lparr>z_service := st, z_last_seqno := z_seqno z, z_rh := h,
                z_replies := (z_replies z)[nat (rq_cid req) := stored_reply (z_replies z ! nat (rq_cid req)) (rq_rid req) outb d],
                z_node := (z_node z)\<lparr>umac_nonce := n\<rparr>, z_nb_sent_replies := k\<rparr>) (To_client (rq_cid req) r)) z'"
    using ex unfolding executed_def by blast
  have "rh_ok (z_rh z)" "reply_ok (z_replies z ! nat (rq_cid req))" using ok x(3) by (simp_all add: replica_ok_def)
  moreover from this(1) x(1) have "rh_ok h" using add_request_facts [OF g, of "z_rh z" req "rq_od req" "z_seqno z"] by auto
  ultimately have "replica_ok (z\<lparr>z_service := st, z_last_seqno := z_seqno z, z_rh := h,
      z_replies := (z_replies z)[nat (rq_cid req) := stored_reply (z_replies z ! nat (rq_cid req)) (rq_rid req) outb d]\<rparr>)"
    using executed_ok_mid [OF ok _ x(3)] by blast
  then have "replica_ok (emit (z\<lparr>z_service := st, z_last_seqno := z_seqno z, z_rh := h,
      z_replies := (z_replies z)[nat (rq_cid req) := stored_reply (z_replies z ! nat (rq_cid req)) (rq_rid req) outb d],
      z_node := (z_node z)\<lparr>umac_nonce := n\<rparr>, z_nb_sent_replies := k\<rparr>) (To_client (rq_cid req) r))"
    by (simp add: replica_ok_def)
  from replica_ok_frame [OF this fr] show ?thesis .
qed

lemma execute_keeps_ok:
  assumes "execute_request E z req = Inr (b, z')" "replica_ok z" "mpn_ok (e_mpn E)"
  shows "replica_ok z'"
  using assms(1) replica_ok_clean [OF assms(2)]
proof (cases rule: execute_request_cases)
  case (again r mac n)
  then show ?thesis using assms(2) by (simp add: replica_ok_def)
qed (use assms executed_keeps_ok in blast)+

subsection \<open>The abstract replica\<close>

text \<open>
  What a replica promises: a service, for each client the last request executed and the answer to it, the sum of
  the digests of the executed requests, and the number of the last one. \<open>spec_execute\<close> executes a
  request unless its client already had this one or a later one answered.
\<close>

record 'st spec =
  sp_service :: 'st
  sp_last :: "int \<Rightarrow> request_id"
  sp_answer :: "int \<Rightarrow> byte list option"
  sp_total :: nat
  sp_top :: seqno

definition spec_execute :: "('st \<Rightarrow> byte list \<Rightarrow> int \<Rightarrow> 'st \<times> byte list) \<Rightarrow> nat \<Rightarrow> 'st spec \<Rightarrow> request \<Rightarrow> seqno \<Rightarrow> 'st spec" where
  "spec_execute exec M a req s =
     (let cid = rq_cid req in
      if rq_rid req \<le> sp_last a cid then a
      else
        (let (st, outb) = exec (sp_service a) (request_command req) cid in
         \<lparr>sp_service = st, sp_last = (sp_last a)(cid := rq_rid req), sp_answer = (sp_answer a)(cid := Some outb),
          sp_total = (sp_total a + digest_val (rq_od req)) mod M, sp_top = s\<rparr>))"

definition client_reply :: "'st replica \<Rightarrow> int \<Rightarrow> reply" where
  "client_reply z c = (if 0 \<le> c \<and> nat c < length (z_replies z) then z_replies z ! nat c else blank_reply)"

definition abs_replica :: "'st replica \<Rightarrow> 'st spec" where
  "abs_replica z =
     \<lparr>sp_service = z_service z, sp_last = (\<lambda>c. rp_rid (client_reply z c)),
      sp_answer = (\<lambda>c. if full (client_reply z c) then Some (reply_body (client_reply z c)) else None),
      sp_total = limbs_val (rh_sum (z_rh z)), sp_top = z_last_seqno z\<rparr>"

lemma client_reply_update:
  assumes "z_replies z' = (z_replies z)[nat cid := r]" "0 \<le> cid" "nat cid < length (z_replies z)"
  shows "client_reply z' = (client_reply z)(cid := r)"
  using assms by (auto simp: client_reply_def fun_eq_iff nth_list_update)

lemma executed_abs:
  assumes ex: "executed E z req z'" and ok: "rh_ok (z_rh z)" and g: "mpn_ok (e_mpn E)"
  shows "abs_replica z' = spec_execute (e_exec E) (limbs_val (rh_mod (z_rh z))) (abs_replica z) req (z_seqno z)"
proof -
  obtain st outb h d where x: "e_exec E (z_service z) (request_command req) (rq_cid req) = (st, outb)"
    and h: "add_request (e_mpn E) (z_rh z) req (rq_od req) (z_seqno z) = Inr (h, d)"
    and c: "0 \<le> rq_cid req" "nat (rq_cid req) < length (z_replies z)"
    and rid: "rp_rid (z_replies z ! nat (rq_cid req)) < rq_rid req"
    and z': "z_service z' = st" "z_last_seqno z' = z_seqno z" "rh_ok h \<longrightarrow> truncated h (z_rh z')"
      "z_replies z' = (z_replies z)[nat (rq_cid req) := stored_reply (z_replies z ! nat (rq_cid req)) (rq_rid req) outb d]"
    by (rule executedE [OF ex]) (rule that; assumption)
  have "rh_ok h" "limbs_val (rh_sum h) = (limbs_val (rh_sum (z_rh z)) + digest_val (rq_od req)) mod limbs_val (rh_mod (z_rh z))"
    using add_request_facts [OF g ok, of req "rq_od req" "z_seqno z"] h by auto
  moreover from this z'(3) have "rh_sum (z_rh z') = rh_sum h" by (simp add: truncated_def)
  moreover have "\<not> rq_rid req \<le> sp_last (abs_replica z) (rq_cid req)" using rid c by (simp add: abs_replica_def client_reply_def)
  moreover note cr = client_reply_update [OF z'(4) c]
  ultimately show ?thesis
    by (simp add: spec_execute_def Let_def) (simp add: abs_replica_def x z'(1,2) cr full_def fun_eq_iff)
qed

lemma emit_abs:
  "abs_replica (emit (z\<lparr>z_node := nd\<rparr>) o') = abs_replica z"
  by (simp add: abs_replica_def client_reply_def fun_eq_iff)

lemma execute_abs:
  assumes ex: "execute_request E z req = Inr (b, z')" and ok: "replica_ok z" and g: "mpn_ok (e_mpn E)"
  shows "abs_replica z' = spec_execute (e_exec E) (limbs_val (rh_mod (z_rh z))) (abs_replica z) req (z_seqno z)"
    and "b = (sp_last (abs_replica z) (rq_cid req) < rq_rid req)"
proof -
  have c: "0 \<le> rq_cid req" "nat (rq_cid req) < length (z_replies z)"
    using ex by (auto simp: execute_request_def Let_def rbind_eq_Inr reps_req_id_def rep_at_Inr)
  then have l: "sp_last (abs_replica z) (rq_cid req) = rp_rid (z_replies z ! nat (rq_cid req))"
    by (simp add: abs_replica_def client_reply_def)
  have rh: "rh_ok (z_rh z)" using ok by (simp add: replica_ok_def)
  from ex replica_ok_clean [OF ok]
  have "abs_replica z' = spec_execute (e_exec E) (limbs_val (rh_mod (z_rh z))) (abs_replica z) req (z_seqno z) \<and>
     b = (sp_last (abs_replica z) (rq_cid req) < rq_rid req)"
  proof (cases rule: execute_request_cases)
    case older
    then show ?thesis by (auto simp: spec_execute_def l Let_def)
  next
    case (again r mac n)
    then show ?thesis by (auto simp: spec_execute_def l emit_abs rep_at_Inr Let_def)
  next
    case new
    then show ?thesis using executed_abs [OF new(2) rh g] executed_newer [OF new(2)] by (simp add: l)
  qed
  then show "abs_replica z' = spec_execute (e_exec E) (limbs_val (rh_mod (z_rh z))) (abs_replica z) req (z_seqno z)"
    "b = (sp_last (abs_replica z) (rq_cid req) < rq_rid req)" by blast+
qed

subsection \<open>New replicas\<close>

lemma blank_reply_ok: "reply_ok blank_reply"
  by (simp add: reply_ok_def rep_clean_def blank_reply_def)

lemma replica_new_facts:
  assumes nd: "node_ok nd" "0 \<le> max_faulty nd" "is_replica nd (node_id nd)" and M: "modulus_ok (e_modulus E)"
  shows "\<exists>z. replica_new E nd mhz j1 j2 ls 0 old st tms = Inr z \<and> replica_ok z \<and> z_node z = nd \<and> z_service z = st \<and>
     z_replies z = replicate (nat (num_principals nd)) blank_reply \<and> rh_entries (z_rh z) = [] \<and> rh_sum (z_rh z) = dsum_new \<and>
     rh_mod (z_rh z) = e_modulus E \<and>
     z_seqno z = 0 \<and> z_last_seqno z = ls \<and> z_cur_state z = replica_state_NORMAL \<and> \<not> z_checkpoint_in_progress z \<and> z_out z = [] \<and>
     z_current_checkpoints z = Map.empty \<and> z_last_chkp_seqno z = 0 \<and> z_outstanding z = [] \<and>
     z_rtimer z = length (tm_list tms) \<and> z_ctimer z = Suc (length (tm_list tms)) \<and>
     length (tm_list (z_timers z)) = Suc (Suc (length (tm_list tms))) \<and> t_state (tm_list (z_timers z) ! z_rtimer z) = stopped"
proof -
  obtain ct where ct: "acert_new (3 * max_faulty nd + 1) (3 * max_faulty nd + 1) = Inr ct"
    by (rule acert_new_ok [of "3 * max_faulty nd + 1" "3 * max_faulty nd + 1"]) (use nd(2) in simp_all)
  obtain h :: "request req_history" where h: "rh_new (e_modulus E) = Inr h" "rh_ok h" "rh_entries h = []" "rh_sum h = dsum_new" "rh_mod h = e_modulus E"
    using rh_new_ok [OF M] by blast
  have np: "0 < num_principals nd" using nd(1,3) by (simp add: node_ok_def is_replica_def)
  show ?thesis
    using nd np h
    by (simp add: replica_new_def ct rep_info_new_def replica_ok_def csets_ok_def blank_reply_ok timer_new_def nth_append)
qed

text \<open>An example: a service that counts its calls and echoes the commands, and new replicas of the example configuration.\<close>

definition demo_env :: "nat env" where
  "demo_env = \<lparr>e_crypto = demo_crypto, e_mpn = school_mpn, e_modulus = limbs_of 8 (2 ^ 128), e_junk = (\<lambda>n. replicate n 0),
     e_exec = (\<lambda>st cmd cid. (st + 1, cmd)), e_rdtsc = 0, e_should_panic = False, e_switch_tab = [zlight \<mapsto> switch_zl_replica]\<rparr>"

definition demo_replica :: "nat \<Rightarrow> nat replica" where
  "demo_replica i = projr (replica_new demo_env (demo_node i) 1 0 0 0 0 [] 0 timers_new)"

lemma node_new_primary: "node_new c cfg addr port priv tv = Inr nd \<Longrightarrow> cur_primary nd = 0"
  by (auto simp: node_new_def Let_def split: option.splits if_splits prod.splits)

lemma demo_node_facts:
  assumes "i < 5"
  shows "node_ok (demo_node i)" "max_faulty (demo_node i) = 1" "num_replicas (demo_node i) = 4" "num_principals (demo_node i) = 5"
    "node_id (demo_node i) = int i" "cur_primary (demo_node i) = 0"
proof -
  note f = node_new_facts [OF demo_node_new(1) [OF assms] demo_config_lines]
  show "node_ok (demo_node i)" by (rule f(1))
  show "max_faulty (demo_node i) = 1" "num_principals (demo_node i) = 5" using f by (simp_all add: demo_config_def)
  then show "num_replicas (demo_node i) = 4" using f(1) by (simp add: node_ok_def)
  show "node_id (demo_node i) = int i" by (rule demo_node_new(2) [OF assms])
  show "cur_primary (demo_node i) = 0"
    by (rule node_new_primary [OF demo_node_new(1) [OF assms]])
qed

lemma demo_node_signs:
  assumes "i < 5"
  shows "signs demo_crypto (demo_node i)"
proof -
  have b: "0 \<le> node_id (demo_node i)" "node_id (demo_node i) < num_principals (demo_node i)"
    using demo_node_facts [OF assms] assms by simp_all
  obtain p where p: "i_to_p (demo_node i) (node_id (demo_node i)) = Some p" "p_ssize p = 20"
    using node_new_principal(1) [OF demo_node_new(1) [OF assms] demo_config_lines b] demo_node_facts(5) [OF assms] assms
    by (auto simp: demo_config_def demo_crypto_def)
  have "priv_key (demo_node i) = Some (3, 5)"
    by (rule node_new_principal(2) [OF demo_node_new(1) [OF assms] demo_config_lines b])
  then show ?thesis
    using b p by (simp add: signs_def gen_signature_def sig_size_def Let_def demo_crypto_def)
qed

lemma demo_replica_facts:
  assumes "i < 4"
  shows "replica_ok (demo_replica i)" "z_node (demo_replica i) = demo_node i" "z_service (demo_replica i) = 0"
    "z_replies (demo_replica i) = replicate 5 blank_reply" "z_seqno (demo_replica i) = 0" "z_last_seqno (demo_replica i) = 0"
    "z_cur_state (demo_replica i) = replica_state_NORMAL" "\<not> z_checkpoint_in_progress (demo_replica i)" "z_out (demo_replica i) = []"
    "rh_sum (z_rh (demo_replica i)) = dsum_new" "rh_mod (z_rh (demo_replica i)) = limbs_of 8 (2 ^ 128)"
    "rh_entries (z_rh (demo_replica i)) = []"
    "replica_new demo_env (demo_node i) 1 0 0 0 0 [] 0 timers_new = Inr (demo_replica i)"
proof -
  have i: "i < 5" using assms by simp
  note f = demo_node_facts [OF i]
  have r: "is_replica (demo_node i) (node_id (demo_node i))" using f assms by (simp add: is_replica_def)
  have M: "modulus_ok (e_modulus demo_env)" by (simp only: demo_env_def env.simps modulus_ok_128)
  from replica_new_facts [OF f(1) _ r M, of 1 0 0 0 "[]" 0 timers_new] f
  obtain z where z: "replica_new demo_env (demo_node i) 1 0 0 0 0 [] 0 timers_new = Inr z" and
    facts: "replica_ok z" "z_node z = demo_node i" "z_service z = 0" "z_replies z = replicate 5 blank_reply" "z_seqno z = 0"
    "z_last_seqno z = 0" "z_cur_state z = replica_state_NORMAL" "\<not> z_checkpoint_in_progress z" "z_out z = []"
    "rh_sum (z_rh z) = dsum_new" "rh_mod (z_rh z) = limbs_of 8 (2 ^ 128)" "rh_entries (z_rh z) = []"
    by (auto simp: demo_env_def)
  have "demo_replica i = z" by (simp add: demo_replica_def z)
  with facts z show "replica_ok (demo_replica i)" "z_node (demo_replica i) = demo_node i" "z_service (demo_replica i) = 0"
    "z_replies (demo_replica i) = replicate 5 blank_reply" "z_seqno (demo_replica i) = 0" "z_last_seqno (demo_replica i) = 0"
    "z_cur_state (demo_replica i) = replica_state_NORMAL" "\<not> z_checkpoint_in_progress (demo_replica i)" "z_out (demo_replica i) = []"
    "rh_sum (z_rh (demo_replica i)) = dsum_new" "rh_mod (z_rh (demo_replica i)) = limbs_of 8 (2 ^ 128)"
    "rh_entries (z_rh (demo_replica i)) = []"
    "replica_new demo_env (demo_node i) 1 0 0 0 0 [] 0 timers_new = Inr (demo_replica i)"
    by simp_all
qed

lemma demo_request:
  assumes "length cmd < 1000"
  obtains r where "rq_cid r = 4" "rq_rid r = rid" "request_command r = cmd" "\<not> is_read_only r" "rq_size r \<le> 1100"
    "\<And>i. i < 4 \<Longrightarrow> request_verify demo_crypto (demo_node i) r = Inr True"
proof -
  note A = demo_node_facts [of 4, simplified]
  obtain r where r: "request_command r = cmd" "is_read_only r = False" "rq_rid r = rid" "rq_cid r = node_id (demo_node 4)"
    "rq_size r = ALIGNED_SIZE (40 + int (length cmd) + (num_replicas (demo_node 4) * 8 + 8))"
    and v: "\<forall>B. node_ok B \<longrightarrow> num_replicas B = num_replicas (demo_node 4) \<longrightarrow> num_principals B = num_principals (demo_node 4) \<longrightarrow>
          node_id B < num_replicas B \<longrightarrow> request_verify demo_crypto B r = Inr True"
    using request_accepted_by_all [OF demo_crypto_ok, of "demo_node 4" cmd rid 0 False 0] A assms by auto
  have "request_verify demo_crypto (demo_node i) r = Inr True" if "i < 4" for i
    using v demo_node_facts [of i] A that by simp
  moreover have "rq_size r \<le> 1100"
    using ALIGNED_SIZE_props [of "40 + int (length cmd) + 40"] assms by (simp add: r(5) A)
  ultimately show ?thesis using that r A by simp
qed

lemma demo_env_simps [simp]:
  "e_crypto demo_env = demo_crypto" "e_mpn demo_env = school_mpn" "e_exec demo_env = (\<lambda>st cmd cid. (st + 1, cmd))"
  "e_should_panic demo_env = False"
  by (simp_all add: demo_env_def)

lemma demo_fits:
  assumes "i < 4" "rq_cid r = 4" "rq_rid r \<noteq> 0" "length (request_command r) < 1000"
  shows "fits demo_env (demo_replica i) r"
  using assms demo_replica_facts(2) [of i] demo_node_facts(4) [of i]
  by (simp add: fits_def new_reply_size_def Max_rep_size_def Reply_rep_size_def zl_MAC_size_def zl_UMAC_size_def zl_UNonce_size_def)

subsection \<open>Properties\<close>

text \<open>
  C5: \<open>execute_request\<close> refines the abstract replica. For every well-formed replica with a private key and every request
  that fits, it returns; the replica stays well formed; the request is executed exactly when it is newer than the
  last one of its client; and service, last requests, answers, digest sum and sequence number change as
  \<open>spec_execute\<close> says.
\<close>

theorem execute_refines_spec:
  assumes "replica_ok z" "signs (e_crypto E) (z_node z)" "mpn_ok (e_mpn E)" "fits E z req"
  shows "\<exists>b z'. execute_request E z req = Inr (b, z') \<and> replica_ok z' \<and>
     (b \<longleftrightarrow> sp_last (abs_replica z) (rq_cid req) < rq_rid req) \<and>
     abs_replica z' = spec_execute (e_exec E) (limbs_val (rh_mod (z_rh z))) (abs_replica z) req (z_seqno z)"
  using execute_request_ok [OF assms] execute_abs [OF _ assms(1,3)] by blast

theorem execute_refines_spec_witness:
  "\<exists>req z'. rq_rid req = 7 \<and> execute_request demo_env (demo_replica 2) req = Inr (True, z') \<and>
     sp_service (abs_replica z') = 1 \<and> sp_answer (abs_replica z') 4 = Some [5, 6]"
proof -
  obtain r where r: "rq_cid r = 4" "rq_rid r = 7" "request_command r = [5, 6]" by (rule demo_request [of "[5, 6]" 7]) auto
  note f = demo_replica_facts [of 2, simplified]
  have last: "sp_last (abs_replica (demo_replica 2)) 4 = 0" "sp_service (abs_replica (demo_replica 2)) = 0"
    by (simp_all add: abs_replica_def client_reply_def f blank_reply_def)
  have "signs (e_crypto demo_env) (z_node (demo_replica 2))" "fits demo_env (demo_replica 2) r"
    using demo_node_signs [of 2] demo_fits [of 2 r] r f by simp_all
  from execute_refines_spec [OF f(1) this(1) _ this(2)] obtain b z' where
    "execute_request demo_env (demo_replica 2) r = Inr (b, z')" "b \<longleftrightarrow> sp_last (abs_replica (demo_replica 2)) (rq_cid r) < rq_rid r"
    "abs_replica z' = spec_execute (e_exec demo_env) (limbs_val (rh_mod (z_rh (demo_replica 2)))) (abs_replica (demo_replica 2)) r (z_seqno (demo_replica 2))"
    using school_mpn_ok by auto
  then show ?thesis using r last by (auto simp: spec_execute_def Let_def intro!: exI [of _ r])
qed

text \<open>
  C11: a retransmitted request is answered again and not executed again. When the request is the last one
  executed for its client, \<open>execute_request\<close> returns false, sends the client the stored answer and leaves the
  service, the log, the stored replies and the sequence numbers as they are.
\<close>

theorem retransmission_idempotent:
  assumes "replica_ok z" "signs (e_crypto E) (z_node z)" "mpn_ok (e_mpn E)" "fits E z req"
    and "rp_rid (client_reply z (rq_cid req)) = rq_rid req"
  shows "\<exists>z' r. execute_request E z req = Inr (False, z') \<and>
     z_service z' = z_service z \<and> z_rh z' = z_rh z \<and> z_replies z' = z_replies z \<and>
     z_seqno z' = z_seqno z \<and> z_last_seqno z' = z_last_seqno z \<and>
     z_out z' = z_out z @ [To_client (rq_cid req) r] \<and> rp_rid r = rq_rid req \<and>
     reply_body r = reply_body (client_reply z (rq_cid req))"
proof -
  obtain b z' where ex: "execute_request E z req = Inr (b, z')" using execute_request_ok [OF assms(1-4)] by blast
  have cl: "client_reply z (rq_cid req) = z_replies z ! nat (rq_cid req)"
    using assms(4) replica_ok_replies(1) [OF assms(1), of "rq_cid req"] by (simp add: client_reply_def fits_def)
  from ex replica_ok_clean [OF assms(1)] show ?thesis
  proof (cases rule: execute_request_cases)
    case (again r mac n)
    have "rep_clean r" using again(2) replica_ok_clean [OF assms(1)] by (auto simp: rep_at_Inr)
    then have "reply_body (put_mac (r\<lparr>rp_v := 0, rp_replica := node_id (z_node z), rp_cid := -1\<rparr>) mac) = reply_body r"
      using again(4) by (auto simp: rep_clean_def reply_body_def put_mac_def Let_def)
    then show ?thesis using ex again by (auto simp: cl rep_at_Inr put_mac_def Let_def)
  qed (use assms(5) cl in \<open>auto dest: executed_newer\<close>)
qed

theorem retransmission_idempotent_witness:
  "\<exists>req z1 z2 r. execute_request demo_env (demo_replica 2) req = Inr (True, z1) \<and>
     execute_request demo_env z1 req = Inr (False, z2) \<and> z_service z2 = 1 \<and>
     z_out z2 = z_out z1 @ [To_client 4 r] \<and> reply_body r = [5, 6]"
proof -
  obtain r where r: "rq_cid r = 4" "rq_rid r = 7" "request_command r = [5, 6]" by (rule demo_request [of "[5, 6]" 7]) auto
  note f = demo_replica_facts [of 2, simplified]
  have g: "mpn_ok (e_mpn demo_env)" by (simp add: school_mpn_ok)
  have sg: "signs (e_crypto demo_env) (z_node (demo_replica 2))" and ft: "fits demo_env (demo_replica 2) r"
    using demo_node_signs [of 2] demo_fits [of 2 r] r f by simp_all
  have "rp_rid (z_replies (demo_replica 2) ! nat (rq_cid r)) < rq_rid r" by (simp add: r f blank_reply_def)
  from execute_new_ok [OF f(1) sg g ft this] obtain z1 where z1: "execute_request demo_env (demo_replica 2) r = Inr (True, z1)" "replica_ok z1"
    by blast
  from z1(1) replica_ok_clean [OF f(1)] have ex: "executed demo_env (demo_replica 2) r z1" by (cases rule: execute_request_cases) auto
  obtain n d where s1: "z_service z1 = 1" "z_node z1 = (demo_node 2)\<lparr>umac_nonce := n\<rparr>"
    and c1: "client_reply z1 4 = stored_reply blank_reply 7 [5, 6] d"
    by (rule executedE [OF ex]) (simp add: r f client_reply_def that)
  have "signs (e_crypto demo_env) (z_node z1)" "fits demo_env z1 r"
    using sg ft s1 r f by (simp_all add: fits_def)
  from retransmission_idempotent [OF z1(2) this(1) g this(2)] show ?thesis
    using z1(1) s1(1) c1 r by (auto simp: intro!: exI [of _ r])
qed

end
