(* ===== verification/ZAgreement.thy ===== *)
theory ZAgreement
  imports ZExecution
begin

section \<open>Agreement of the backups with the primary\<close>

text \<open>
  A backup that handles the order messages of the primary ends in the state of the primary: the same service state,
  the same stored replies, the same digest sum and the same sequence number.
\<close>

definition agree :: "'st replica \<Rightarrow> 'st replica \<Rightarrow> bool" where
  "agree p b \<longleftrightarrow> z_service b = z_service p \<and> z_replies b = z_replies p \<and> rh_sum (z_rh b) = rh_sum (z_rh p) \<and>
     rh_mod (z_rh b) = rh_mod (z_rh p) \<and> z_last_seqno b = z_last_seqno p"

lemma add_request_same:
  assumes "add_request g h req rd s = Inr (h', d)" "add_request g k req rd s' = Inr (k', e)"
    and "rh_sum k = rh_sum h" "rh_mod k = rh_mod h"
  shows "e = d" "rh_sum k' = rh_sum h'" "rh_mod k' = rh_mod h'"
  using assms by (auto simp: add_request_def rbind_eq_Inr Let_def rh_digest_def)

lemma executed_agree:
  assumes p: "executed Ep p req p'" and b: "executed Eb b req b'" and ag: "agree p b" and s: "z_seqno b = z_seqno p"
    and E: "e_exec Eb = e_exec Ep" "e_mpn Eb = e_mpn Ep" and g: "mpn_ok (e_mpn Ep)" and ok: "rh_ok (z_rh p)" "rh_ok (z_rh b)"
  shows "agree p' b'"
proof -
  note a = ag [unfolded agree_def]
  obtain st outb h d where x: "e_exec Ep (z_service p) (request_command req) (rq_cid req) = (st, outb)"
    "add_request (e_mpn Ep) (z_rh p) req (rq_od req) (z_seqno p) = Inr (h, d)" "z_service p' = st" "z_last_seqno p' = z_seqno p"
    "z_replies p' = (z_replies p)[nat (rq_cid req) := stored_reply (z_replies p ! nat (rq_cid req)) (rq_rid req) outb d]"
    "rh_ok h \<longrightarrow> truncated h (z_rh p')"
    by (rule executedE [OF p]) (rule that; assumption)
  obtain st2 outb2 k e where y: "e_exec Eb (z_service b) (request_command req) (rq_cid req) = (st2, outb2)"
    "add_request (e_mpn Eb) (z_rh b) req (rq_od req) (z_seqno b) = Inr (k, e)" "z_service b' = st2" "z_last_seqno b' = z_seqno b"
    "z_replies b' = (z_replies b)[nat (rq_cid req) := stored_reply (z_replies b ! nat (rq_cid req)) (rq_rid req) outb2 e]"
    "rh_ok k \<longrightarrow> truncated k (z_rh b')"
    by (rule executedE [OF b]) (rule that; assumption)
  have so: "st2 = st" "outb2 = outb" using x(1) y(1) a E by simp_all
  have "rh_ok h" "rh_ok k"
    using add_request_facts [OF g ok(1), of req "rq_od req" "z_seqno p"] x(2)
      add_request_facts [OF g ok(2), of req "rq_od req" "z_seqno b"] y(2) E by auto
  with x(6) y(6) have t: "truncated h (z_rh p')" "truncated k (z_rh b')" by simp_all
  have "e = d" "rh_sum k = rh_sum h" "rh_mod k = rh_mod h"
    using add_request_same [OF x(2), of "z_rh b" "z_seqno b" k e] y(2) a E by simp_all
  with so t show ?thesis
    by (simp add: agree_def x y a s truncated_def)
qed

subsection \<open>The primary\<close>

text \<open>One request at the primary: it is either ordered and executed, or nothing happens but a retransmission.\<close>

text \<open>\<open>started p t c k\<close>: the state in which a request that was let in is looked up and executed.\<close>

definition started :: "'st replica \<Rightarrow> timers \<Rightarrow> u32 \<Rightarrow> int \<Rightarrow> 'st replica" where
  "started p t c k = p\<lparr>z_timers := t, z_req_count_switch := c, z_current_nb_requests := k, z_checkpointing_mutex := False\<rparr>"

lemma started_ok [simp]: "replica_ok p \<Longrightarrow> replica_ok (started p t c k)"
  by (simp add: replica_ok_def started_def)

lemma started_simps [simp]:
  "z_service (started p t c k) = z_service p" "z_replies (started p t c k) = z_replies p" "z_rh (started p t c k) = z_rh p"
  "z_seqno (started p t c k) = z_seqno p" "z_last_seqno (started p t c k) = z_last_seqno p" "z_node (started p t c k) = z_node p"
  "z_cur_state (started p t c k) = z_cur_state p" "z_out (started p t c k) = z_out p"
  by (simp_all add: started_def)

lemma handle_request_started:
  assumes h: "handle_request E p m = Inr p'" and ok: "replica_ok p" and st: "z_cur_state p = replica_state_NORMAL"
  obtains (dropped) c k where "p' = started p (timer_restart (e_rdtsc E) (z_timers p) (z_ctimer p)) c k"
  | (admitted) c k where "process_request E (started p (timer_restart (e_rdtsc E) (z_timers p) (z_ctimer p)) c k) m = Inr p'"
proof -
  let ?t = "timer_restart (e_rdtsc E) (z_timers p) (z_ctimer p)" and ?c = "z_req_count_switch p + 1"
  have mx: "\<not> z_checkpointing_mutex p" using ok by (simp add: replica_ok_def)
  have e0: "p\<lparr>z_timers := ?t, z_req_count_switch := ?c\<rparr> = started p ?t ?c (z_current_nb_requests p)"
    and e1: "unlock_ck (p\<lparr>z_timers := ?t, z_req_count_switch := ?c, z_checkpointing_mutex := True\<rparr>) = started p ?t ?c (z_current_nb_requests p)"
    and e2: "unlock_ck (p\<lparr>z_timers := ?t, z_req_count_switch := ?c, z_checkpointing_mutex := True, z_current_nb_requests := k\<rparr>) = started p ?t ?c k" for k
    using mx by (cases p; simp add: started_def unlock_ck_def)+
  let ?z0 = "p\<lparr>z_timers := ?t, z_req_count_switch := ?c\<rparr>"
  obtain v where v: "request_verify (e_crypto E) (z_node p) m = Inr v"
    using h st by (auto simp: handle_request_def Let_def rbind_eq_Inr)
  consider "\<not> v \<or> is_read_only m"
    | "v" "\<not> is_read_only m" "z_checkpoint_in_progress p \<and> \<not> z_current_nb_requests p < max_nb_requests_while_checkpointing"
    | "v" "\<not> is_read_only m" "\<not> (z_checkpoint_in_progress p \<and> \<not> z_current_nb_requests p < max_nb_requests_while_checkpointing)"
    by blast
  then show ?thesis
  proof cases
    case 1
    then have "p' = ?z0" using h st v by (cases v) (simp_all add: handle_request_def Let_def)
    then show ?thesis unfolding e0 by (rule dropped)
  next
    case 2
    then have "p' = unlock_ck (?z0\<lparr>z_checkpointing_mutex := True\<rparr>)"
      using h st v mx by (simp add: handle_request_def Let_def lock_ck_def)
    then show ?thesis unfolding e1 by (rule dropped)
  next
    case 3
    define k where "k = (if z_checkpoint_in_progress p then z_current_nb_requests p + 1 else z_current_nb_requests p)"
    have "handle_request E p m = process_request E (started p ?t ?c k) m"
      using st v mx 3 by (cases "z_checkpoint_in_progress p") (simp_all add: handle_request_def Let_def lock_ck_def e1 e2 k_def)
    with h show ?thesis by (intro admitted) simp
  qed
qed

lemma order_new_Inr:
  assumes "order_new c nd v s req = Inr (o', nd')" "node_ok nd"
  shows "or_seq_num o' = s" "or_req_id o' = rq_rid req" "or_cid o' = rq_cid req" "or_request o' = req"
    "\<exists>n. nd' = nd\<lparr>umac_nonce := n\<rparr>" "gen_auth c nd (order_rep_bytes o') = Inr (or_auth o', nd')"
proof -
  define m where "m = \<lparr>or_extra = 0, or_size = ALIGNED_SIZE (int Order_request_rep_size + rq_size req + auth_size nd (-1)), or_v = v,
      or_seq_num = s, or_req_id = rq_rid req, or_cid = rq_cid req, or_unused = replicate 4 0, or_auth = [], or_request = req\<rparr>"
  obtain a where a: "gen_auth c nd (order_rep_bytes m) = Inr (a, nd')" "o' = m\<lparr>or_auth := a\<rparr>"
    using assms(1) unfolding order_new_def Let_def m_def [symmetric] by (auto simp: rbind_eq_Inr split: if_splits)
  have "order_rep_bytes o' = order_rep_bytes m" by (simp add: a(2) order_rep_bytes_def)
  with a show "gen_auth c nd (order_rep_bytes o') = Inr (or_auth o', nd')" by simp
  show "\<exists>n. nd' = nd\<lparr>umac_nonce := n\<rparr>" using a(1) gen_auth_eq [OF assms(2), of c "order_rep_bytes m"] by auto
qed (use assms(1) in \<open>auto simp: order_new_def rbind_eq_Inr Let_def split: if_splits\<close>)

text \<open>One request at the primary: it is ordered and executed, or at most a reply is sent again.\<close>

lemma primary_step:
  assumes h: "handle_request E p m = Inr p'" and ok: "replica_ok p" and st: "z_cur_state p = replica_state_NORMAL"
    and pr: "node_id (z_node p) = primary (z_node p)" and g: "mpn_ok (e_mpn E)"
  obtains (same) n where "agree p p'" "z_seqno p' = z_seqno p" "z_node p' = (z_node p)\<lparr>umac_nonce := n\<rparr>" "z_cur_state p' = z_cur_state p"
      "orders_of (z_out p') = orders_of (z_out p)" "replica_ok p'"
  | (ordered) p0 p1 o' nd where "agree p p0" "z_seqno p0 = z_seqno p + 1" "z_node p0 = z_node p" "z_rh p0 = z_rh p"
      "executed E p0 m p1" "order_new (e_crypto E) (z_node p1) 0 (z_seqno p1) m = Inr (o', nd)"
      "p' = emit (p1\<lparr>z_node := nd\<rparr>) (To_replicas o')" "z_cur_state p1 = z_cur_state p"
      "orders_of (z_out p1) = orders_of (z_out p)" "replica_ok p1"
proof -
  from h ok st show ?thesis
  proof (cases rule: handle_request_started)
    case (dropped c k)
    then show ?thesis using ok by (intro same [of "umac_nonce (z_node p)"]) (simp_all add: agree_def)
  next
    case (admitted c k)
    let ?s = "started p (timer_restart (e_rdtsc E) (z_timers p) (z_ctimer p)) c k"
    let ?r = "rp_rid (z_replies p ! nat (rq_cid m))"
    have ra: "reps_req_id ?s (rq_cid m) = Inr ?r"
      using admitted by (auto simp: process_request_def Let_def rbind_eq_Inr reps_req_id_def rep_at_Inr)
    have oks: "replica_ok ?s" "replica_ok (count_retransmission ?s)" "replica_ok (?s\<lparr>z_seqno := z_seqno p + 1\<rparr>)"
      using started_ok [OF ok, of _ c k] by (simp_all add: replica_ok_def count_retransmission_def)
    consider "rq_rid m < ?r" | "?r = rq_rid m" | "?r < rq_rid m" by fastforce
    then show ?thesis
    proof cases
      case 1
      then have "\<not> ?r \<le> rq_rid m" by simp
      then have "p' = ?s" using admitted pr ra by (simp add: process_request_def Let_def leD)
      then show ?thesis using ok by (intro same [of "umac_nonce (z_node p)"]) (simp_all add: agree_def)
    next
      case 2
      let ?c = "count_retransmission ?s"
      obtain b z2 where z2: "execute_request E ?c m = Inr (b, z2)"
        using admitted pr ra 2 by (auto simp: process_request_def Let_def rbind_eq_Inr)
      have c: "z_replies ?c = z_replies p" by (simp add: count_retransmission_def)
      obtain r mac n where nb: "\<not> b" and e: "z2 = emit (?c\<lparr>z_node := (z_node p)\<lparr>umac_nonce := n\<rparr>\<rparr>)
              (To_client (rq_cid m) (put_mac (r\<lparr>rp_v := 0, rp_replica := node_id (z_node p), rp_cid := -1\<rparr>) mac))"
        using z2 replica_ok_clean [OF oks(2)]
        by (cases rule: execute_request_cases) (use 2 c in \<open>auto simp: count_retransmission_def dest: executed_newer\<close>)
      have p': "p' = z2" using admitted pr ra 2 z2 nb by (simp add: process_request_def Let_def)
      show ?thesis
        using execute_keeps_ok [OF z2 oks(2) g]
        by (intro same [of n]) (simp_all add: p' e agree_def count_retransmission_def)
    next
      case 3
      let ?p0 = "?s\<lparr>z_seqno := z_seqno p + 1\<rparr>"
      have ne: "?r \<le> rq_rid m" "?r \<noteq> rq_rid m" using 3 by auto
      obtain b p1 where p1: "execute_request E ?p0 m = Inr (b, p1)"
        using admitted pr ra ne by (auto simp: process_request_def Let_def rbind_eq_Inr)
      have b: "b" and ex: "executed E ?p0 m p1"
        using p1 replica_ok_clean [OF oks(3)] by (cases rule: execute_request_cases; use 3 in \<open>auto simp: rep_at_Inr\<close>)+
      obtain o' nd where od: "order_new (e_crypto E) (z_node p1) 0 (z_seqno p1) m = Inr (o', nd)" "p' = emit (p1\<lparr>z_node := nd\<rparr>) (To_replicas o')"
        using admitted pr ra ne p1 b by (auto simp: process_request_def Let_def rbind_eq_Inr)
      have "z_cur_state p1 = z_cur_state p" "orders_of (z_out p1) = orders_of (z_out p)"
        by (rule executedE [OF ex]; simp)+
      then show ?thesis
        using ex od execute_keeps_ok [OF p1 oks(3) g] by (intro ordered [of ?p0]) (simp_all add: agree_def)
    qed
  qed
qed

subsection \<open>A backup\<close>

lemma verify_nonce [simp]:
  "order_verify c (nd\<lparr>umac_nonce := n\<rparr>) o' = order_verify c nd o'"
  "request_verify c (nd\<lparr>umac_nonce := n\<rparr>) r = request_verify c nd r"
  by (simp_all add: order_verify_def request_verify_def verify_auth_def auth_size_def Let_def cong: option.case_cong if_cong)

lemma agree_trans: "agree p q \<Longrightarrow> agree q r \<Longrightarrow> agree p r"
  by (simp add: agree_def)

lemma agree_sym: "agree p q \<Longrightarrow> agree q p"
  by (simp add: agree_def)

lemma backup_executes:
  assumes p: "executed Ep p m p'" and ag: "agree p b" and ok: "replica_ok b" "rh_ok (z_rh p)" and sg: "signs (e_crypto Eb) (z_node b)"
    and E: "e_exec Eb = e_exec Ep" "e_mpn Eb = e_mpn Ep" and g: "mpn_ok (e_mpn Ep)"
    and o': "or_seq_num o' = z_last_seqno b + 1" "or_req_id o' = rq_rid m" "or_cid o' = rq_cid m" "or_request o' = m"
    and s: "z_seqno p = z_last_seqno b + 1"
    and v: "order_verify (e_crypto Eb) (z_node b) o' = Inr True" "request_verify (e_crypto Eb) (z_node b) m = Inr True"
  shows "\<exists>b' n. handle_order Eb b o' = Inr b' \<and> agree p' b' \<and> replica_ok b' \<and> z_node b' = (z_node b)\<lparr>umac_nonce := n\<rparr>"
proof -
  obtain st outb where x: "e_exec Ep (z_service p) (request_command m) (rq_cid m) = (st, outb)" "length outb \<le> new_reply_size"
      "0 \<le> rq_cid m" "nat (rq_cid m) < length (z_replies p)" "rp_rid (z_replies p ! nat (rq_cid m)) < rq_rid m"
    by (rule executedE [OF p]) (rule that; assumption)
  let ?b = "b\<lparr>z_seqno := z_last_seqno b + 1\<rparr>"
  have okb: "replica_ok ?b" using ok(1) by (simp add: replica_ok_def)
  have rep: "z_replies b = z_replies p" "z_service b = z_service p" using ag by (simp_all add: agree_def)
  have "int (length (z_replies p)) = num_principals (z_node b)" using ok(1) rep(1) by (simp add: replica_ok_def)
  then have cid: "rq_cid m < num_principals (z_node b)" using x(3,4) by linarith
  have "rq_rid m \<noteq> 0" using x(5) by (metis word_not_simps(1))
  then have "fits Eb ?b m" using x cid rep E by (simp add: fits_def)
  moreover have "rp_rid (z_replies ?b ! nat (rq_cid m)) < rq_rid m" using x(5) rep by simp
  ultimately obtain b' where b': "execute_request Eb ?b m = Inr (True, b')" "replica_ok b'"
    using execute_new_ok [OF okb, of Eb m] sg g E by auto
  have ex: "executed Eb ?b m b'" using b'(1) replica_ok_clean [OF okb] by (cases rule: execute_request_cases) auto
  have "agree p b \<Longrightarrow> agree p ?b" by (simp add: agree_def)
  then have "agree p' b'"
    using executed_agree [OF p ex _ _ E g ok(2)] ag s ok(1) by (simp add: replica_ok_def)
  moreover have "handle_order Eb b o' = Inr b'"
    using b'(1) v x(3-5) rep o' by (simp add: handle_order_def reps_req_id_def rep_at_def)
  moreover obtain n where "z_node b' = (z_node ?b)\<lparr>umac_nonce := n\<rparr>" by (rule executedE [OF ex]) (rule that; assumption)
  then have "z_node b' = (z_node b)\<lparr>umac_nonce := n\<rparr>" by simp
  ultimately show ?thesis using b'(2) by blast
qed

text \<open>
  \<open>paired c p b\<close>: \<open>p\<close> is the primary of a configuration and \<open>b\<close> a backup of it, both well formed, in the same
  state, and the primary counts from the last request it executed.
\<close>

definition paired :: "crypto \<Rightarrow> 'st replica \<Rightarrow> 'st replica \<Rightarrow> bool" where
  "paired c p b \<longleftrightarrow>
     replica_ok p \<and> z_cur_state p = replica_state_NORMAL \<and> node_id (z_node p) = 0 \<and> primary (z_node p) = 0 \<and>
     z_seqno p = z_last_seqno p \<and>
     replica_ok b \<and> signs c (z_node b) \<and> node_id (z_node b) \<noteq> 0 \<and>
     num_replicas (z_node p) = num_replicas (z_node b) \<and> num_principals (z_node p) = num_principals (z_node b) \<and> agree p b"

lemma paired_step:
  assumes pb: "paired (e_crypto Ep) p b" and h: "handle_request Ep p m = Inr p'"
    and E: "e_exec Eb = e_exec Ep" "e_mpn Eb = e_mpn Ep" "e_crypto Eb = e_crypto Ep" and g: "mpn_ok (e_mpn Ep)" "crypto_ok (e_crypto Ep)"
    and v: "request_verify (e_crypto Ep) (z_node b) m = Inr True"
  shows "\<exists>os b' n. orders_of (z_out p') = orders_of (z_out p) @ os \<and> for_loop (handle_order Eb) os b = Inr b' \<and>
     paired (e_crypto Ep) p' b' \<and> z_node b' = (z_node b)\<lparr>umac_nonce := n\<rparr>"
proof -
  note x = pb [unfolded paired_def]
  have pp: "node_id (z_node p) = primary (z_node p)" using x by simp
  have okp: "replica_ok p" "z_cur_state p = replica_state_NORMAL" using x by simp_all
  from h okp pp g(1) show ?thesis
  proof (cases rule: primary_step)
    case (same n)
    then have "paired (e_crypto Ep) p' b" using x by (auto simp: paired_def agree_def)
    then show ?thesis using same(5) by (intro exI [of _ "[]"] exI [of _ b] exI [of _ "umac_nonce (z_node b)"]) simp
  next
    case (ordered p0 p1 o' nd)
    have rh: "rh_ok (z_rh p0)" using okp(1) ordered(4) by (simp add: replica_ok_def)
    obtain n1 where n1: "z_node p1 = (z_node p0)\<lparr>umac_nonce := n1\<rparr>" "z_seqno p1 = z_seqno p0" "z_last_seqno p1 = z_seqno p0"
      by (rule executedE [OF ordered(5)]) (rule that; assumption)
    then have p1: "z_node p1 = (z_node p)\<lparr>umac_nonce := n1\<rparr>" "z_seqno p1 = z_seqno p + 1" "z_last_seqno p1 = z_seqno p + 1"
      by (simp_all add: ordered(2,3))
    have nok: "node_ok (z_node p1)" "node_ok (z_node b)" using x p1(1) by (simp_all add: replica_ok_def)
    note o' = order_new_Inr [OF ordered(6) nok(1)]
    have rb: "node_id (z_node b) < num_replicas (z_node b)" using x by (simp add: replica_ok_def is_replica_def)
    have ne: "num_replicas (z_node p1) = num_replicas (z_node b)" "num_principals (z_node p1) = num_principals (z_node b)"
      "node_id (z_node p1) \<noteq> node_id (z_node b)" "node_id (z_node p1) = 0" using x p1(1) by simp_all
    have v2: "order_verify (e_crypto Eb) (z_node b) o' = Inr True" "request_verify (e_crypto Eb) (z_node b) m = Inr True"
      using auth_roundtrip [OF g(2) nok ne(1,2) rb ne(3) o'(6), of "[]"] ne(4) v E(3) by (simp_all add: order_verify_def)
    have ab: "agree p0 b" using agree_trans [OF agree_sym [OF ordered(1)]] x by blast
    have sn: "or_seq_num o' = z_last_seqno b + 1" "z_seqno p0 = z_last_seqno b + 1"
      using o'(1) p1 ordered(2) x by (simp_all add: agree_def)
    have okb: "replica_ok b" "signs (e_crypto Eb) (z_node b)" using x E(3) by simp_all
    obtain b' n where b': "handle_order Eb b o' = Inr b'" "agree p1 b'" "replica_ok b'" "z_node b' = (z_node b)\<lparr>umac_nonce := n\<rparr>"
      using backup_executes [OF ordered(5) ab okb(1) rh okb(2) E(1,2) g(1) sn(1) o'(2-4) sn(2) v2] by blast
    obtain n2 where nd: "nd = (z_node p1)\<lparr>umac_nonce := n2\<rparr>" using o'(5) by blast
    have "replica_ok p'" using ordered(10) by (simp add: ordered(7) nd replica_ok_def)
    moreover have "agree p' b'" using b'(2) by (simp add: ordered(7) agree_def)
    ultimately have "paired (e_crypto Ep) p' b'"
      using x b'(3,4) ordered(8) p1 by (simp add: paired_def ordered(7) nd)
    then show ?thesis
      using b' ordered(7,9) by (intro exI [of _ "[o']"] exI [of _ b'] exI [of _ n]) simp
  qed
qed

lemma paired_run:
  assumes "paired (e_crypto Ep) p b" "for_loop (handle_request Ep) ms p = Inr p'"
    and E: "e_exec Eb = e_exec Ep" "e_mpn Eb = e_mpn Ep" "e_crypto Eb = e_crypto Ep" and g: "mpn_ok (e_mpn Ep)" "crypto_ok (e_crypto Ep)"
    and "\<forall>m \<in> set ms. request_verify (e_crypto Ep) (z_node b) m = Inr True"
  shows "\<exists>os b'. orders_of (z_out p') = orders_of (z_out p) @ os \<and> for_loop (handle_order Eb) os b = Inr b' \<and> paired (e_crypto Ep) p' b'"
  using assms(1,2,8)
proof (induction ms arbitrary: p b)
  case Nil
  then show ?case by (intro exI [of _ "[]"] exI [of _ b]) simp
next
  case (Cons m ms)
  obtain p1 where p1: "handle_request Ep p m = Inr p1" "for_loop (handle_request Ep) ms p1 = Inr p'"
    using Cons.prems(2) by (auto simp: rbind_eq_Inr)
  have v: "request_verify (e_crypto Ep) (z_node b) m = Inr True" using Cons.prems(3) by simp
  obtain os b1 n where s: "orders_of (z_out p1) = orders_of (z_out p) @ os" "for_loop (handle_order Eb) os b = Inr b1"
    "paired (e_crypto Ep) p1 b1" "z_node b1 = (z_node b)\<lparr>umac_nonce := n\<rparr>"
    using paired_step [OF Cons.prems(1) p1(1) E g v] by blast
  have "\<forall>m \<in> set ms. request_verify (e_crypto Ep) (z_node b1) m = Inr True" using Cons.prems(3) s(4) by simp
  from Cons.IH [OF s(3) p1(2) this] obtain os' b' where "orders_of (z_out p') = orders_of (z_out p1) @ os'"
    "for_loop (handle_order Eb) os' b1 = Inr b'" "paired (e_crypto Ep) p' b'" by blast
  then show ?case using s by (intro exI [of _ "os @ os'"] exI [of _ b']) (simp add: for_loop_append)
qed

subsection \<open>New requests are ordered\<close>

lemma order_new_ok:
  assumes "node_ok nd" "int Order_request_rep_size + rq_size req + auth_size nd (-1) \<le> zl_Max_message_size"
  shows "\<exists>o' nd'. order_new c nd v s req = Inr (o', nd')"
proof -
  define m where "m = \<lparr>or_extra = 0, or_size = ALIGNED_SIZE (int Order_request_rep_size + rq_size req + auth_size nd (-1)), or_v = v,
      or_seq_num = s, or_req_id = rq_rid req, or_cid = rq_cid req, or_unused = replicate 4 0, or_auth = [], or_request = req\<rparr>"
  obtain a nd' where "gen_auth c nd (order_rep_bytes m) = Inr (a, nd')" using gen_auth_eq [OF assms(1)] by blast
  then show ?thesis using assms(2) unfolding order_new_def Let_def m_def [symmetric] by simp
qed

lemma handle_request_new:
  assumes ok: "replica_ok p" and st: "z_cur_state p = replica_state_NORMAL" "\<not> z_checkpoint_in_progress p"
    and pr: "node_id (z_node p) = primary (z_node p)" and g: "mpn_ok (e_mpn E)" "signs (e_crypto E) (z_node p)"
    and v: "request_verify (e_crypto E) (z_node p) m = Inr True" "\<not> is_read_only m" "fits E p m"
    and new: "rp_rid (client_reply p (rq_cid m)) < rq_rid m"
    and size: "int Order_request_rep_size + rq_size m + auth_size (z_node p) (-1) \<le> zl_Max_message_size"
  obtains t k p0 p1 o' nd where "p0 = (started p (timer_restart (e_rdtsc E) (z_timers p) (z_ctimer p)) t k)\<lparr>z_seqno := z_seqno p + 1\<rparr>"
    "execute_request E p0 m = Inr (True, p1)" "replica_ok p1" "order_new (e_crypto E) (z_node p1) 0 (z_seqno p1) m = Inr (o', nd)"
    "handle_request E p m = Inr (emit (p1\<lparr>z_node := nd\<rparr>) (To_replicas o'))"
proof -
  let ?s = "started p (timer_restart (e_rdtsc E) (z_timers p) (z_ctimer p)) (z_req_count_switch p + 1) (z_current_nb_requests p)"
  let ?p0 = "?s\<lparr>z_seqno := z_seqno p + 1\<rparr>"
  have ok0: "replica_ok ?p0" using ok by (simp add: replica_ok_def started_def)
  have cid: "0 \<le> rq_cid m" "nat (rq_cid m) < length (z_replies p)"
    using v(3) replica_ok_replies(1) [OF ok, of "rq_cid m"] by (simp_all add: fits_def)
  have new': "rp_rid (z_replies ?p0 ! nat (rq_cid m)) < rq_rid m" using new cid by (simp add: client_reply_def)
  have f0: "fits E ?p0 m" using v(3) by (simp add: fits_def)
  obtain p1 where p1: "execute_request E ?p0 m = Inr (True, p1)" "replica_ok p1"
    using execute_new_ok [OF ok0 _ g(1) f0 new'] g(2) by auto
  have ex: "executed E ?p0 m p1" using p1(1) replica_ok_clean [OF ok0] by (cases rule: execute_request_cases) auto
  obtain n where e: "z_node p1 = (z_node ?p0)\<lparr>umac_nonce := n\<rparr>"
    by (rule executedE [OF ex]) (rule that; assumption)
  have nok: "node_ok (z_node p1)" using p1(2) by (simp add: replica_ok_def)
  have "auth_size (z_node p1) (-1) = auth_size (z_node p) (-1)" by (simp add: e auth_size_def)
  then obtain o' nd where od: "order_new (e_crypto E) (z_node p1) 0 (z_seqno p1) m = Inr (o', nd)"
    using order_new_ok [OF nok] size by metis
  have mx: "\<not> z_checkpointing_mutex p" using ok by (simp add: replica_ok_def)
  have adm: "handle_request E p m = process_request E ?s m"
    using st v mx by (simp add: handle_request_def Let_def lock_ck_def started_def unlock_ck_def)
  have ne: "rp_rid (z_replies p ! nat (rq_cid m)) \<le> rq_rid m" "rp_rid (z_replies p ! nat (rq_cid m)) \<noteq> rq_rid m"
    using new' by auto
  have "process_request E ?s m = Inr (emit (p1\<lparr>z_node := nd\<rparr>) (To_replicas o'))"
    using pr p1(1) od cid ne by (simp add: process_request_def Let_def reps_req_id_def rep_at_def)
  with adm show ?thesis by (intro that [OF refl p1 od]) simp
qed

lemma handle_request_new_ok:
  assumes ok: "replica_ok p" and st: "z_cur_state p = replica_state_NORMAL" "\<not> z_checkpoint_in_progress p"
    and pr: "node_id (z_node p) = primary (z_node p)" and g: "mpn_ok (e_mpn E)" "signs (e_crypto E) (z_node p)"
    and v: "request_verify (e_crypto E) (z_node p) m = Inr True" "\<not> is_read_only m" "fits E p m"
    and new: "rp_rid (client_reply p (rq_cid m)) < rq_rid m"
    and size: "int Order_request_rep_size + rq_size m + auth_size (z_node p) (-1) \<le> zl_Max_message_size"
  shows "\<exists>p' o'. handle_request E p m = Inr p' \<and> orders_of (z_out p') = orders_of (z_out p) @ [o'] \<and>
     or_request o' = m \<and> or_seq_num o' = z_seqno p + 1"
  using ok st pr g v new size
proof (rule handle_request_new)
  fix t k p0 p1 o' nd
  assume p0: "p0 = (started p (timer_restart (e_rdtsc E) (z_timers p) (z_ctimer p)) t k)\<lparr>z_seqno := z_seqno p + 1\<rparr>"
    and x: "execute_request E p0 m = Inr (True, p1)" "replica_ok p1" "order_new (e_crypto E) (z_node p1) 0 (z_seqno p1) m = Inr (o', nd)"
    "handle_request E p m = Inr (emit (p1\<lparr>z_node := nd\<rparr>) (To_replicas o'))"
  have ok0: "replica_ok p0" using ok by (simp add: p0 replica_ok_def started_def)
  have ex: "executed E p0 m p1" using x(1) replica_ok_clean [OF ok0] by (cases rule: execute_request_cases) auto
  obtain n where "z_seqno p1 = z_seqno p0" "orders_of (z_out p1) = orders_of (z_out p0)"
    by (rule executedE [OF ex]) (rule that; assumption)
  moreover have "node_ok (z_node p1)" using x(2) by (simp add: replica_ok_def)
  ultimately show ?thesis using x order_new_Inr [OF x(3)] p0 by auto
qed

subsection \<open>Properties\<close>

lemma demo_paired: "paired demo_crypto (demo_replica 0) (demo_replica 2)"
  using demo_replica_facts [of 0] demo_replica_facts [of 2] demo_node_facts [of 0] demo_node_facts [of 2] demo_node_signs [of 2]
  by (simp add: paired_def agree_def primary_def)

lemma demo_request_56:
  "\<exists>r. rq_cid r = 4 \<and> rq_rid r = 7 \<and> request_command r = [5, 6] \<and> \<not> is_read_only r \<and> rq_size r \<le> 1100 \<and>
     (\<forall>i < 4. request_verify demo_crypto (demo_node i) r = Inr True)"
  by (rule demo_request [of "[5, 6]" 7]) (simp, blast)

lemma demo_ordered:
  assumes "rq_cid r = 4" "rq_rid r \<noteq> 0" "length (request_command r) < 1000" "\<not> is_read_only r" "rq_size r \<le> 1100"
    "request_verify demo_crypto (demo_node 0) r = Inr True"
  shows "\<exists>p' o'. handle_request demo_env (demo_replica 0) r = Inr p' \<and> orders_of (z_out p') = [o'] \<and> or_request o' = r \<and> or_seq_num o' = 1"
proof -
  note f = demo_replica_facts [of 0, simplified] and nd = demo_node_facts [of 0, simplified]
  have "int Order_request_rep_size + rq_size r + auth_size (z_node (demo_replica 0)) (-1) \<le> zl_Max_message_size"
    using assms(5) by (simp add: f nd auth_size_def Order_request_rep_size_def zl_Max_message_size_def zl_UMAC_size_def zl_UNonce_size_def)
  moreover have "rp_rid (client_reply (demo_replica 0) (rq_cid r)) < rq_rid r"
    using assms(1,2) by (simp add: client_reply_def f blank_reply_def word_neq_0_conv)
  ultimately show ?thesis
    using handle_request_new_ok [of "demo_replica 0" demo_env r] f nd assms demo_node_signs [of 0] demo_fits [of 0 r]
    by (auto simp: school_mpn_ok primary_def)
qed

text \<open>
  C3: a backup follows the primary. Let a primary and a backup of the same configuration be in the same state, and let the
  primary handle any sequence of requests whose MACs the backup accepts: some new, some retransmitted, some refused.
  When the backup handles the order messages the primary sent, in order, it accepts and executes each of them and
  ends in the state of the primary: same service state, same stored replies, same digest sum, same sequence number.
\<close>

theorem backup_follows_primary:
  assumes "paired (e_crypto Ep) p b" "for_loop (handle_request Ep) ms p = Inr p'"
    and "e_exec Eb = e_exec Ep" "e_mpn Eb = e_mpn Ep" "e_crypto Eb = e_crypto Ep" "mpn_ok (e_mpn Ep)" "crypto_ok (e_crypto Ep)"
    and "\<forall>m \<in> set ms. request_verify (e_crypto Ep) (z_node b) m = Inr True"
  shows "\<exists>os b'. orders_of (z_out p') = orders_of (z_out p) @ os \<and> for_loop (handle_order Eb) os b = Inr b' \<and>
     agree p' b' \<and> paired (e_crypto Ep) p' b'"
proof -
  obtain os b' where "orders_of (z_out p') = orders_of (z_out p) @ os" "for_loop (handle_order Eb) os b = Inr b'" "paired (e_crypto Ep) p' b'"
    using paired_run [OF assms] by blast
  moreover from this(3) have "agree p' b'" by (simp add: paired_def)
  ultimately show ?thesis by blast
qed

theorem backup_follows_primary_witness:
  "\<exists>r p' o' b'. handle_request demo_env (demo_replica 0) r = Inr p' \<and> orders_of (z_out p') = [o'] \<and>
     handle_order demo_env (demo_replica 2) o' = Inr b' \<and> agree p' b'"
proof -
  obtain r where r: "rq_cid r = 4" "rq_rid r = 7" "request_command r = [5, 6]" "\<not> is_read_only r" "rq_size r \<le> 1100"
    "\<forall>i < 4. request_verify demo_crypto (demo_node i) r = Inr True" using demo_request_56 by blast
  obtain p' o' where p': "handle_request demo_env (demo_replica 0) r = Inr p'" "orders_of (z_out p') = [o']"
    using demo_ordered [of r] r by auto
  have "paired (e_crypto demo_env) (demo_replica 0) (demo_replica 2)" "for_loop (handle_request demo_env) [r] (demo_replica 0) = Inr p'"
    using demo_paired p' by simp_all
  from backup_follows_primary [OF this, of demo_env] show ?thesis
    using p' r(6) demo_replica_facts [of 0] demo_replica_facts [of 2] school_mpn_ok demo_crypto_ok
    by (auto simp: rbind_eq_Inr)
qed



end
