(* ===== verification/NoDeadlock.thy ===== *)
theory NoDeadlock
  imports ZReplica
begin

section \<open>Code that takes no lock\<close>

text \<open>
  Only code that locks a mutex can block on one. The rules below, collected in \<open>nodl\<close>, say so for the calls
  the handlers of a replica make outside their critical sections.
\<close>

named_theorems nodl \<open>calls that do not block\<close>

definition nonblocking :: "'a result \<Rightarrow> bool" where
  "nonblocking r \<longleftrightarrow> r \<noteq> Inl Deadlock"

lemma nonblocking_Inr [nodl]: "nonblocking (Inr x)"
  by (simp add: nonblocking_def)

lemma nonblocking_Inl [nodl]:
  "nonblocking (Inl Assert_failed)" "nonblocking (Inl Out_of_bounds)" "nonblocking (Inl Null_deref)"
  "nonblocking (Inl Uninitialised)" "nonblocking (Inl Process_exit)"
  by (simp_all add: nonblocking_def)

lemma nonblocking_bind [nodl]: "nonblocking m \<Longrightarrow> (\<And>x. m = Inr x \<Longrightarrow> nonblocking (k x)) \<Longrightarrow> nonblocking (rbind m k)"
  by (auto simp: nonblocking_def rbind_eq_Inl)

lemma nonblocking_assert [nodl]: "nonblocking (th_assert b)"
  by (simp add: nonblocking_def th_assert_def)

lemma nonblocking_if [nodl]: "(b \<Longrightarrow> nonblocking x) \<Longrightarrow> (\<not> b \<Longrightarrow> nonblocking y) \<Longrightarrow> nonblocking (if b then x else y)"
  by simp

lemma nonblocking_option [nodl]:
  "(x = None \<Longrightarrow> nonblocking a) \<Longrightarrow> (\<And>y. x = Some y \<Longrightarrow> nonblocking (f y)) \<Longrightarrow> nonblocking (case x of None \<Rightarrow> a | Some y \<Rightarrow> f y)"
  by (cases x) auto

lemma nonblocking_prod [nodl]: "(\<And>a b. x = (a, b) \<Longrightarrow> nonblocking (f a b)) \<Longrightarrow> nonblocking (case x of (a, b) \<Rightarrow> f a b)"
  by (cases x) auto

lemma nonblocking_let [nodl]: "nonblocking (f x) \<Longrightarrow> nonblocking (let y = x in f y)"
  by simp

lemma nonblocking_for [nodl]: "(\<And>s i. nonblocking (f s i)) \<Longrightarrow> nonblocking (for_loop f is s)"
  by (induction "is" arbitrary: s) (auto intro!: nodl)

subsection \<open>Bytes, messages and arrays\<close>

lemma nonblocking_bytes [nodl]: "nonblocking (read_bytes m off len)" "nonblocking (put_bytes m off bs)"
  unfolding read_bytes_def put_bytes_def by (intro nodl)+

lemma nonblocking_msg [nodl]: "nonblocking (msg_put m off bs)" "nonblocking (msg_read m off n)" "nonblocking (put_zero m i)"
    "nonblocking (msg_set_size m sz)"
  unfolding msg_put_def msg_read_def put_zero_def msg_set_size_def by (intro nodl)+

lemma nonblocking_array [nodl]:
  "nonblocking (array_slot a i)" "nonblocking (array_set_slot a i x)" "nonblocking (array_high a)" "nonblocking (array_predict_new n)"
  unfolding array_slot_def array_set_slot_def array_high_def array_predict_new_def by (intro nodl)+

lemma nonblocking_dsum_add [nodl]: "nonblocking (dsum_add g M s d)"
  unfolding dsum_add_def by (intro nodl)

subsection \<open>The request history\<close>

lemma nonblocking_find_seq [nodl]: "nonblocking (find_seq a seq is)"
  by (induction "is") (auto intro!: nodl)

lemma nonblocking_rh_find_loop [nodl]: "nonblocking (rh_find_loop cidf ridf a cid rid is)"
  by (induction "is") (auto intro!: nodl)

lemma nonblocking_history [nodl]:
  "nonblocking (rh_new M)" "nonblocking (get_top_seqno h)" "nonblocking (add_request g h req rd sn)" "nonblocking (rh_find cidf ridf h cid rid)"
  unfolding rh_new_def get_top_seqno_def add_request_def rh_find_def by (intro nodl)+

lemma nonblocking_truncate [nodl]: "nonblocking (truncate_history h sn)"
  unfolding truncate_history_def drop_entry_def move_entry_def clear_entry_def by (intro nodl)

subsection \<open>Cryptography and messages\<close>

lemma nonblocking_macs [nodl]:
  "nonblocking (ctx_at p i)" "nonblocking (gen_mac c p src d u)" "nonblocking (gen_mac_nonce c n p src d)"
  "nonblocking (verify_mac c me p src mac u)" "nonblocking (verify_mac_nonce c me p src mac)"
  unfolding ctx_at_def gen_mac_def gen_mac_nonce_def verify_mac_def verify_mac_nonce_def by (intro nodl)+

lemma nonblocking_auth [nodl]: "nonblocking (gen_auth c nd s)" "nonblocking (verify_auth c nd i s dest)" "nonblocking (node_send nd m i)"
  unfolding gen_auth_def add_mac_def verify_auth_def node_send_def by (intro nodl)+

lemma nonblocking_signatures [nodl]:
  "nonblocking (sig_size nd i)" "nonblocking (gen_signature c nd src)" "nonblocking (verify_signature c me p src sg self)"
  unfolding sig_size_def gen_signature_def verify_signature_def by (intro nodl)+

lemma nonblocking_requests [nodl]: "nonblocking (comp_digest r)" "nonblocking (request_verify c nd r)"
  unfolding comp_digest_def request_verify_def by (intro nodl)+

lemma nonblocking_replies [nodl]: "nonblocking (reply_new c nd p v rid i d cid)" "nonblocking (reply_authenticate c nd p cap r len)"
  unfolding reply_new_def reply_authenticate_def by (intro nodl)+

lemma nonblocking_orders [nodl]: "nonblocking (order_new c nd v sn req)" "nonblocking (order_verify c nd o')"
  unfolding order_new_def order_verify_def by (intro nodl)+

lemma nonblocking_checkpoints [nodl]:
  "nonblocking (checkpoint_new nd)" "nonblocking (checkpoint_sign c nd m)" "nonblocking (checkpoint_verify c nd m)"
  unfolding checkpoint_new_def checkpoint_sign_def checkpoint_verify_def by (intro nodl)+

lemma nonblocking_grip_new [nodl]: "nonblocking (grip_new junk cid rid i sn r)"
  unfolding grip_new_def by (intro nodl)

subsection \<open>The replica outside its critical sections\<close>

lemma nonblocking_stored [nodl]:
  "nonblocking (rep_at z i)" "nonblocking (reps_req_id z i)" "nonblocking (reps_digest z i)" "nonblocking (new_reply z i)"
  "nonblocking (end_reply z i rid body d)"
  unfolding rep_at_def reps_req_id_def reps_digest_def new_reply_def end_reply_def by (intro nodl)+

lemma nonblocking_sends [nodl]:
  "nonblocking (send_client z cid r)" "nonblocking (send_reply c z cid v i)" "nonblocking (reply_to E z cid rid k)"
  "nonblocking (stop_reply E z cid rid)"
  unfolding send_client_def send_reply_def reply_to_def stop_reply_def by (intro nodl)+

lemma nonblocking_cset [nodl]: "nonblocking (cset_add cs i m)"
  unfolding cset_add_def by (intro nodl)

lemma nonblocking_checkpoint_done [nodl]: "nonblocking (checkpoint_done E z cs)"
  unfolding checkpoint_done_def handle_panic_def by (intro nodl)

lemma nonblocking_missing [nodl]: "nonblocking (handle_missing E z m)"
  unfolding handle_missing_def grip_one_def request_bytes_def by (intro nodl)

end
