(* ===== verification/ZSwitching.thy ===== *)
theory ZSwitching
  imports ZAgreement NoDeadlock
begin

section \<open>Runs of a ZLight replica\<close>

text \<open>
  The steps a replica can take: it handles a message, it is enabled or disabled by the switcher, or one of its two
  timers fires. The environment may differ from step to step in what the clock and the monitor say; the service, GMP and
  the cryptographic functions stay the same. The theory shows what holds in every state such runs reach.
\<close>

definition same_world :: "'st env \<Rightarrow> 'st env \<Rightarrow> bool" where
  "same_world E E' \<longleftrightarrow> e_crypto E' = e_crypto E \<and> e_mpn E' = e_mpn E \<and> e_modulus E' = e_modulus E \<and> e_exec E' = e_exec E"

definition expire :: "'st replica \<Rightarrow> nat \<Rightarrow> 'st replica" where
  "expire z i = z\<lparr>z_timers := set_timer (z_timers z) i ((tm_list (z_timers z) ! i)\<lparr>t_state := expired\<rparr>)\<rparr>"

datatype event = Received msg | Switched bool | Checkpoint_timeout | Retransmit_timeout

inductive zstep :: "'st env \<Rightarrow> 'st replica \<Rightarrow> event \<Rightarrow> 'st replica \<Rightarrow> bool" for E0 where
  step_message: "same_world E0 E \<Longrightarrow> handle E z m = Inr z' \<Longrightarrow> zstep E0 z (Received m) z'"
| step_switch: "same_world E0 E \<Longrightarrow> enable_replica E z b = Inr z' \<Longrightarrow> zstep E0 z (Switched b) z'"
| step_ctimer: "t_state (tm_list (z_timers z) ! z_ctimer z) = running \<Longrightarrow>
     no_checkpoint_timeout (expire z (z_ctimer z)) = Inr z' \<Longrightarrow> zstep E0 z Checkpoint_timeout z'"
| step_rtimer: "same_world E0 E \<Longrightarrow> t_state (tm_list (z_timers z) ! z_rtimer z) = running \<Longrightarrow>
     retransmit_panic E (expire z (z_rtimer z)) = Inr z' \<Longrightarrow> zstep E0 z Retransmit_timeout z'"

inductive zreach :: "'st env \<Rightarrow> 'st replica \<Rightarrow> event list \<Rightarrow> 'st replica \<Rightarrow> bool" for E0 z0 where
  reach_start: "zreach E0 z0 [] z0"
| reach_step: "zreach E0 z0 evs z \<Longrightarrow> zstep E0 z e z' \<Longrightarrow> zreach E0 z0 (evs @ [e]) z'"

subsection \<open>What the handlers keep\<close>

text \<open>\<open>quiet_frame z z'\<close>: state and timers are kept, except for the checkpoint timer.\<close>

definition quiet_frame :: "'st replica \<Rightarrow> 'st replica \<Rightarrow> bool" where
  "quiet_frame z z' \<longleftrightarrow> z_cur_state z' = z_cur_state z \<and> z_rtimer z' = z_rtimer z \<and> z_ctimer z' = z_ctimer z \<and>
     length (tm_list (z_timers z')) = length (tm_list (z_timers z)) \<and>
     (\<forall>i. i \<noteq> z_ctimer z \<longrightarrow> tm_list (z_timers z') ! i = tm_list (z_timers z) ! i) \<and>
     (z_node z')\<lparr>umac_nonce := 0\<rparr> = (z_node z)\<lparr>umac_nonce := 0\<rparr>"

lemma quiet_frame_refl [simp]: "quiet_frame z z"
  by (simp add: quiet_frame_def)

lemma quiet_frame_trans: "quiet_frame a b \<Longrightarrow> quiet_frame b c \<Longrightarrow> quiet_frame a c"
  by (simp add: quiet_frame_def)

lemma quiet_emit [simp]: "quiet_frame z (emit z o')"
  by (simp add: quiet_frame_def)

lemma ck_quiet: "ck_frame z z' \<Longrightarrow> quiet_frame z z'"
  by (simp add: quiet_frame_def ck_frame_def)

lemma executed_quiet:
  assumes "executed E z req z'"
  shows "quiet_frame z z'"
proof -
  obtain st h rs n k r where "ck_frame (emit (z\<lparr>z_service := st, z_last_seqno := z_seqno z, z_rh := h,
      z_replies := rs, z_node := (z_node z)\<lparr>umac_nonce := n\<rparr>, z_nb_sent_replies := k\<rparr>) (To_client (rq_cid req) r)) z'"
    using assms unfolding executed_def by blast
  from ck_quiet [OF this] show ?thesis by (simp add: quiet_frame_def)
qed

lemma execute_quiet:
  assumes "execute_request E z req = Inr (b, z')" "replica_ok z"
  shows "quiet_frame z z'"
  using assms(1) replica_ok_clean [OF assms(2)]
proof (cases rule: execute_request_cases)
  case new
  then show ?thesis by (intro executed_quiet)
qed (simp_all add: quiet_frame_def)

text \<open>\<open>fine\<close>: what every handler keeps, given that the sums are computed as documented.\<close>

definition fine :: "'st replica \<Rightarrow> bool" where
  "fine z \<longleftrightarrow> replica_ok z \<and> (z_cur_state z = replica_state_NORMAL \<or> z_cur_state z = replica_state_STOP) \<and>
     z_rtimer z < length (tm_list (z_timers z)) \<and> z_rtimer z \<noteq> z_ctimer z \<and> t_state (tm_list (z_timers z) ! z_rtimer z) = stopped"

lemma fine_frame: "fine z \<Longrightarrow> quiet_frame z z' \<Longrightarrow> replica_ok z' \<Longrightarrow> fine z'"
  by (simp add: fine_def quiet_frame_def)

lemma replica_ok_emit [simp]: "replica_ok (emit z o') = replica_ok z"
  by (simp add: replica_ok_def)

lemma reply_authenticate_Inr:
  assumes "reply_authenticate c nd p cap r len = Inr (r', nd')"
  shows "(\<exists>n. nd' = nd\<lparr>umac_nonce := n\<rparr>) \<and> rp_should_switch r' = rp_should_switch r \<and> rp_instance r' = rp_instance r \<and> rp_rid r' = rp_rid r"
proof -
  obtain me where me: "i_to_p nd (node_id nd) = Some me"
    using assms by (auto simp: reply_authenticate_def rbind_eq_Inr split: option.splits)
  show ?thesis using assms by (auto simp: reply_authenticate_def me rbind_eq_Inr Let_def)
qed

lemma stop_reply_emits:
  assumes "stop_reply E z cid rid = Inr z'"
  obtains n r where "z' = emit (z\<lparr>z_node := (z_node z)\<lparr>umac_nonce := n\<rparr>\<rparr>) (To_client cid r)" "rp_should_switch r"
    "rp_instance r = protocol_number chain" "rp_rid r = rid"
proof -
  obtain d p r nd1 r' nd2 where 1: "reply_new (e_crypto E) (z_node z) p 0 rid (node_id (z_node z)) d cid = Inr (r, nd1)"
    and 2: "reply_authenticate (e_crypto E) nd1 p zl_MAC_size (set_instance_id r chain) 0 = Inr (r', nd2)"
    and 3: "send_client (z\<lparr>z_node := nd2\<rparr>) cid r' = Inr z'"
    using assms by (auto simp: stop_reply_def rbind_eq_Inr split: option.splits)
  obtain n1 where n1: "nd1 = (z_node z)\<lparr>umac_nonce := n1\<rparr>" using reply_new_Inr(1) [OF 1] by blast
  obtain n2 where n2: "nd2 = nd1\<lparr>umac_nonce := n2\<rparr>" and r': "rp_should_switch r'" "rp_instance r' = protocol_number chain" "rp_rid r' = rp_rid r"
    using reply_authenticate_Inr [OF 2] by (auto simp: set_instance_id_def)
  show ?thesis
    using that [of n2 r'] send_client_Inr [OF 3] reply_new_Inr(2) [OF 1] r' by (simp add: n1 n2)
qed

lemma process_request_cases:
  assumes "process_request E z m = Inr z'"
  obtains (idle) "z' = z"
  | (again) b z2 where "execute_request E (count_retransmission z) m = Inr (b, z2)" "rp_rid (z_replies z ! nat (rq_cid m)) = rq_rid m"
      "z' = z2 \<or> (b \<and> (\<exists>o' nd. order_new (e_crypto E) (z_node z2) 0 (z_seqno z2) m = Inr (o', nd) \<and> z' = emit (z2\<lparr>z_node := nd\<rparr>) (To_replicas o')))"
  | (fresh) b z2 where "node_id (z_node z) = primary (z_node z)" "execute_request E (z\<lparr>z_seqno := z_seqno z + 1\<rparr>) m = Inr (b, z2)"
      "rp_rid (z_replies z ! nat (rq_cid m)) < rq_rid m"
      "z' = z2 \<or> (b \<and> (\<exists>o' nd. order_new (e_crypto E) (z_node z2) 0 (z_seqno z2) m = Inr (o', nd) \<and> z' = emit (z2\<lparr>z_node := nd\<rparr>) (To_replicas o')))"
proof -
  let ?l = "rp_rid (z_replies z ! nat (rq_cid m))"
  have l: "reps_req_id z (rq_cid m) = Inr ?l"
    using assms by (auto simp: process_request_def Let_def rbind_eq_Inr reps_req_id_def rep_at_Inr)
  consider "?l = rq_rid m" "node_id (z_node z) = primary (z_node z)" | "?l = rq_rid m" "node_id (z_node z) \<noteq> primary (z_node z)"
    | "?l < rq_rid m" "node_id (z_node z) = primary (z_node z)" | "\<not> ?l \<le> rq_rid m" | "?l \<noteq> rq_rid m" "node_id (z_node z) \<noteq> primary (z_node z)"
    by fastforce
  then show ?thesis
  proof cases
    case 1
    obtain b z2 where x: "execute_request E (count_retransmission z) m = Inr (b, z2)"
      using assms 1 l by (auto simp: process_request_def Let_def rbind_eq_Inr)
    show ?thesis using assms 1 l x by (intro again [OF x]) (auto simp: process_request_def Let_def rbind_eq_Inr split: if_splits)
  next
    case 2
    obtain b z2 where x: "execute_request E (count_retransmission z) m = Inr (b, z2)"
      using assms 2 l by (auto simp: process_request_def Let_def rbind_eq_Inr)
    show ?thesis using assms 2 l x by (intro again [OF x]) (auto simp: process_request_def Let_def)
  next
    case 3
    then have ne: "?l \<le> rq_rid m" "?l \<noteq> rq_rid m" by auto
    obtain b z2 where x: "execute_request E (z\<lparr>z_seqno := z_seqno z + 1\<rparr>) m = Inr (b, z2)"
      using assms 3(2) l ne by (auto simp: process_request_def Let_def rbind_eq_Inr)
    show ?thesis using assms 3 ne l x by (intro fresh [OF 3(2) x]) (auto simp: process_request_def Let_def rbind_eq_Inr split: if_splits)
  next
    case 4
    then show ?thesis using assms l by (intro idle) (auto simp: process_request_def Let_def split: if_splits)
  next
    case 5
    then show ?thesis using assms l by (intro idle) (simp add: process_request_def Let_def)
  qed
qed

lemma order_emitted:
  assumes "order_new c (z_node z) v s m = Inr (o', nd)" "replica_ok z"
  shows "replica_ok (emit (z\<lparr>z_node := nd\<rparr>) (To_replicas o'))" "quiet_frame z (emit (z\<lparr>z_node := nd\<rparr>) (To_replicas o'))"
proof -
  have "node_ok (z_node z)" using assms(2) by (simp add: replica_ok_def)
  from order_new_Inr(5) [OF assms(1) this] obtain n where "nd = (z_node z)\<lparr>umac_nonce := n\<rparr>" by blast
  then show "replica_ok (emit (z\<lparr>z_node := nd\<rparr>) (To_replicas o'))" "quiet_frame z (emit (z\<lparr>z_node := nd\<rparr>) (To_replicas o'))"
    using assms(2) by (simp_all add: replica_ok_def quiet_frame_def)
qed

lemma process_request_keeps:
  assumes p: "process_request E z m = Inr z'" and ok: "replica_ok z" and g: "mpn_ok (e_mpn E)"
  shows "replica_ok z'" "quiet_frame z z'"
proof -
  have oks: "replica_ok (count_retransmission z)" "replica_ok (z\<lparr>z_seqno := z_seqno z + 1\<rparr>)"
    and q: "quiet_frame z (count_retransmission z)" "quiet_frame z (z\<lparr>z_seqno := z_seqno z + 1\<rparr>)"
    using ok by (simp_all add: replica_ok_def quiet_frame_def count_retransmission_def)
  have run: "replica_ok z' \<and> quiet_frame z z'"
    if x: "execute_request E z1 m = Inr (b, z2)" and z1: "replica_ok z1" "quiet_frame z z1"
      and z': "z' = z2 \<or> (b \<and> (\<exists>o' nd. order_new (e_crypto E) (z_node z2) 0 (z_seqno z2) m = Inr (o', nd) \<and> z' = emit (z2\<lparr>z_node := nd\<rparr>) (To_replicas o')))"
    for z1 b z2
  proof -
    have k: "replica_ok z2" "quiet_frame z z2"
      using execute_keeps_ok [OF x z1(1) g] quiet_frame_trans [OF z1(2) execute_quiet [OF x z1(1)]] by blast+
    from z' show ?thesis
    proof (elim disjE conjE exE)
      fix o' nd assume "order_new (e_crypto E) (z_node z2) 0 (z_seqno z2) m = Inr (o', nd)" "z' = emit (z2\<lparr>z_node := nd\<rparr>) (To_replicas o')"
      then show ?thesis using order_emitted [OF _ k(1)] quiet_frame_trans [OF k(2)] by blast
    qed (simp add: k)
  qed
  have "replica_ok z' \<and> quiet_frame z z'"
    using p
  proof (cases rule: process_request_cases)
    case (again b z2)
    then show ?thesis using run [OF _ oks(1) q(1)] by blast
  next
    case (fresh b z2)
    then show ?thesis using run [OF _ oks(2) q(2)] by blast
  qed (simp add: ok)
  then show "replica_ok z'" "quiet_frame z z'" by blast+
qed

lemma started_quiet: "quiet_frame p (started p (timer_restart r (z_timers p) (z_ctimer p)) c k)"
  by (simp add: quiet_frame_def started_def timer_restart_other)

lemma handle_request_keeps:
  assumes h: "handle_request E z m = Inr z'" and f: "fine z" and g: "mpn_ok (e_mpn E)"
  shows "fine z'"
proof (cases "z_cur_state z = replica_state_STOP")
  case True
  then have "stop_reply E z (rq_cid m) (rq_rid m) = Inr z'" using h by (simp add: handle_request_def)
  then obtain n r where "z' = emit (z\<lparr>z_node := (z_node z)\<lparr>umac_nonce := n\<rparr>\<rparr>) (To_client (rq_cid m) r)" by (rule stop_reply_emits)
  then show ?thesis using f by (simp add: fine_def replica_ok_def)
next
  case False
  then have st: "replica_ok z" "z_cur_state z = replica_state_NORMAL" using f by (simp_all add: fine_def)
  from h st show ?thesis
  proof (cases rule: handle_request_started)
    case (dropped c k)
    then show ?thesis using fine_frame [OF f started_quiet] started_ok [OF st(1)] by simp
  next
    case (admitted c k)
    from process_request_keeps [OF this started_ok [OF st(1)] g] show ?thesis
      using fine_frame [OF f quiet_frame_trans [OF started_quiet]] by blast
  qed
qed

lemma handle_order_keeps:
  assumes h: "handle_order E z m = Inr z'" and ok: "replica_ok z" and g: "mpn_ok (e_mpn E)"
  shows "replica_ok z' \<and> quiet_frame z z'"
proof -
  have ok': "replica_ok (z\<lparr>z_seqno := z_last_seqno z + 1\<rparr>)" and q: "quiet_frame z (z\<lparr>z_seqno := z_last_seqno z + 1\<rparr>)"
    using ok by (simp_all add: replica_ok_def quiet_frame_def)
  consider "z' = z" | b where "execute_request E (z\<lparr>z_seqno := z_last_seqno z + 1\<rparr>) (or_request m) = Inr (b, z')"
    using h by (auto simp: handle_order_def rbind_eq_Inr split: if_splits)
  then show ?thesis
    using ok execute_keeps_ok [OF _ ok' g] execute_quiet [OF _ ok'] quiet_frame_trans [OF q] by cases auto
qed

lemma handle_checkpoint_keeps:
  assumes "handle_checkpoint E z m = Inr z'" "replica_ok z"
  shows "replica_ok z' \<and> quiet_frame z z'"
  using replica_ok_frame [OF assms(2)] ck_quiet handle_checkpoint_frame [OF assms(1)] by blast

lemma unlock_fine:
  assumes "fine z" "lock_sw z = Inr z1"
  shows "fine (unlock_sw z1)"
  using assms by (simp add: fine_def replica_ok_def lock_sw_Inr unlock_sw_def)

lemma for_loop_keeps:
  assumes "for_loop f is s = Inr s'" "P s" "\<And>s s' i. f s i = Inr s' \<Longrightarrow> P s \<Longrightarrow> P s'"
  shows "P s'"
  using assms(1,2) by (induction "is" arbitrary: s) (auto simp: rbind_eq_Inr dest: assms(3))

lemma grip_one_emits:
  assumes "grip_one E m z i = Inr z'"
  shows "z' = z \<or> (\<exists>g. z' = emit z (Monitor_send (W_message g) (mi_id m)))"
  using assms by (auto simp: grip_one_def rbind_eq_Inr Let_def split: option.splits)

lemma fine_emit: "fine z \<Longrightarrow> fine (emit z o')"
  by (simp add: fine_def)

lemma handle_missing_keeps: "handle_missing E z m = Inr z' \<Longrightarrow> fine z \<Longrightarrow> fine z'"
  unfolding handle_missing_def by (erule for_loop_keeps) (auto dest!: grip_one_emits intro: fine_emit)

lemma handle_notification_keeps:
  assumes "handle_notification z m = Inr z'" "fine z"
  shows "fine z'"
  using assms
  by (cases "cn_op_type m = 0"; cases "cn_op_type m = 1")
    (auto simp: handle_notification_def rbind_eq_Inr lock_ck_Inr unlock_ck_def fine_def replica_ok_def)

lemma abort_ignored:
  assumes "fine z"
  shows "handle_abort E z m = Inr (unlock_sw (z\<lparr>z_switching_mutex := True\<rparr>))"
    "handle_grip E z m = Inr (unlock_sw (z\<lparr>z_switching_mutex := True\<rparr>))"
    "fine (unlock_sw (z\<lparr>z_switching_mutex := True\<rparr>))"
proof -
  have "\<not> z_switching_mutex z" "z_cur_state z \<noteq> replica_state_PANICKING" "z_cur_state z \<noteq> replica_state_MISWAITING"
    using assms by (auto simp: fine_def replica_ok_def)
  then show "handle_abort E z m = Inr (unlock_sw (z\<lparr>z_switching_mutex := True\<rparr>))"
    "handle_grip E z m = Inr (unlock_sw (z\<lparr>z_switching_mutex := True\<rparr>))"
    by (simp_all add: handle_abort_def handle_grip_def lock_sw_def)
  show "fine (unlock_sw (z\<lparr>z_switching_mutex := True\<rparr>))" using assms by (simp add: fine_def replica_ok_def unlock_sw_def)
qed

lemma handle_keeps:
  assumes "handle E z m = Inr z'" "fine z" "mpn_ok (e_mpn E)"
  shows "fine z'"
proof (cases m)
  case (M_request r)
  then show ?thesis using assms handle_request_keeps by simp
next
  case (M_order o')
  then have "replica_ok z' \<and> quiet_frame z z'" using assms handle_order_keeps [of E z o' z'] by (simp add: fine_def)
  then show ?thesis using fine_frame [OF assms(2)] by blast
next
  case (M_checkpoint c)
  then have "replica_ok z' \<and> quiet_frame z z'" using assms handle_checkpoint_keeps [of E z c z'] by (simp add: fine_def)
  then show ?thesis using fine_frame [OF assms(2)] by blast
next
  case (M_panic x)
  then show ?thesis using assms by (auto simp: handle_panic_def split: option.splits)
next
  case (M_abort x)
  then show ?thesis using assms abort_ignored [OF assms(2)] by (auto split: option.splits)
next
  case (M_missing x)
  then show ?thesis using assms handle_missing_keeps by (auto split: option.splits)
next
  case (M_grip x)
  then show ?thesis using assms abort_ignored [OF assms(2)] by (auto split: option.splits)
next
  case (M_notification x)
  then show ?thesis using assms handle_notification_keeps by simp
qed (use assms in simp)

lemma enable_replica_keeps:
  assumes e: "enable_replica E z b = Inr z'" and f: "fine z" and M: "modulus_ok (e_modulus E)"
  shows "fine z'"
proof -
  obtain h :: "request req_history" where h: "rh_new (e_modulus E) = Inr h" "rh_ok h" using rh_new_ok [OF M] by blast
  have mx: "\<not> z_switching_mutex z" using f by (simp add: fine_def replica_ok_def)
  have "csets_ok nd Map.empty" for nd by (simp add: csets_ok_def)
  then show ?thesis
    using e f h mx
    by (auto simp: enable_replica_def lock_sw_def Let_def fine_def replica_ok_def unlock_sw_def timer_stop_other split: if_splits)
qed

lemma ctimer_keeps:
  assumes "no_checkpoint_timeout (expire z (z_ctimer z)) = Inr z'" "fine z"
  shows "fine z'"
  using assms by (auto simp: no_checkpoint_timeout_def handle_panic_def expire_def set_timer_def fine_def replica_ok_def timer_stop_other)

lemma zstep_fine:
  assumes "zstep E0 z e z'" "fine z" "mpn_ok (e_mpn E0)" "modulus_ok (e_modulus E0)"
  shows "fine z'"
  using assms(1)
proof cases
  case (step_message E m)
  then show ?thesis using handle_keeps [OF step_message(3) assms(2)] assms(3) by (simp add: same_world_def)
next
  case (step_switch E b)
  then show ?thesis using enable_replica_keeps [OF step_switch(3) assms(2)] assms(4) by (simp add: same_world_def)
next
  case step_ctimer
  then show ?thesis using ctimer_keeps assms by blast
next
  case (step_rtimer E)
  then show ?thesis using assms by (simp add: fine_def)
qed

lemma zreach_fine:
  assumes "zreach E0 z0 evs z" "fine z0" "mpn_ok (e_mpn E0)" "modulus_ok (e_modulus E0)"
  shows "fine z"
  using assms(1) by induction (use assms zstep_fine in blast)+

subsection \<open>No handler blocks\<close>

lemma send_reply_mutex: "send_reply c z d v i = Inr z' \<Longrightarrow> z_checkpointing_mutex z' = z_checkpointing_mutex z"
  by (auto simp: send_reply_def rbind_eq_Inr Let_def set_rep_def dest!: send_client_Inr split: option.splits)

lemma reply_to_mutex: "reply_to E z cid rid k = Inr z' \<Longrightarrow> z_checkpointing_mutex z' = z_checkpointing_mutex z"
  by (auto simp: reply_to_def rbind_eq_Inr Let_def dest!: send_client_Inr send_reply_mutex split: option.splits if_splits)

lemma nonblocking_handle_checkpoint [nodl]: "\<not> z_checkpointing_mutex z \<Longrightarrow> nonblocking (handle_checkpoint E z m)"
  unfolding handle_checkpoint_def lock_ck_def by (intro nodl) simp_all

lemma nonblocking_make_checkpoint: "\<not> z_checkpointing_mutex z \<Longrightarrow> nonblocking (make_checkpoint E z)"
  unfolding make_checkpoint_def by (intro nodl) simp

lemma nonblocking_execute:
  assumes "\<not> z_checkpointing_mutex z"
  shows "nonblocking (execute_request E z req)"
proof -
  have new: "z_checkpointing_mutex z1 = z_checkpointing_mutex z" if "new_reply z cid = Inr z1" for z1 cid
    using that by (auto simp: new_reply_def rbind_eq_Inr set_rep_def)
  have "\<not> z_checkpointing_mutex z4"
    if "new_reply z cid = Inr z1" "end_reply (z1\<lparr>z_service := st, z_last_seqno := sn, z_rh := h\<rparr>) cid rid outb d = Inr z3"
      "reply_to E z3 cid rid k = Inr z4" for z1 z3 z4 st sn h outb d k cid rid
    using new [OF that(1)] end_reply_Inr(3) [OF that(2)] reply_to_mutex [OF that(3)] assms by simp
  then show ?thesis
    unfolding execute_request_def by (intro nodl nonblocking_make_checkpoint) blast
qed

lemma nonblocking_process:
  assumes "\<not> z_checkpointing_mutex z"
  shows "nonblocking (process_request E z m)"
  unfolding process_request_def
  by (intro nodl nonblocking_execute) (use assms in \<open>simp_all add: count_retransmission_def\<close>)

lemma nonblocking_handle_request:
  assumes "fine z"
  shows "nonblocking (handle_request E z m)"
proof -
  have "\<not> z_checkpointing_mutex z" "\<not> z_switching_mutex z" using assms by (simp_all add: fine_def replica_ok_def)
  then show ?thesis
    unfolding handle_request_def lock_sw_def lock_ck_def
    by (intro nodl nonblocking_process) (auto simp: unlock_ck_def)
qed

lemma nonblocking_handle:
  assumes "fine z"
  shows "nonblocking (handle E z m)"
proof -
  have mx: "\<not> z_checkpointing_mutex z" "\<not> z_switching_mutex z" using assms by (simp_all add: fine_def replica_ok_def)
  have ord: "nonblocking (handle_order E z o')" for o'
    unfolding handle_order_def by (intro nodl nonblocking_execute) (use mx in simp)
  have nt: "nonblocking (handle_notification z n)" for n
    unfolding handle_notification_def lock_ck_def by (intro nodl) (use mx in simp_all)
  show ?thesis
    using mx ord nt nonblocking_handle_request [OF assms] nonblocking_handle_checkpoint [OF mx(1)]
    by (cases m) (auto simp: handle_panic_def abort_ignored [OF assms] split: option.split intro: nodl)
qed

subsection \<open>A finished switch never returns\<close>

text \<open>
  The abort handler holds the switching mutex when the last abort arrives; disabling the replica through the switcher and
  notifying the clients both take that mutex again.
\<close>

lemma notify_blocks: "z_switching_mutex z \<Longrightarrow> notify_outstanding E z = Inl Deadlock"
  by (simp add: notify_outstanding_def lock_sw_def)

lemma call_switcher_holds: "call_switcher E z p b = Inr z' \<Longrightarrow> z_switching_mutex z \<Longrightarrow> z_switching_mutex z'"
  by (auto simp: call_switcher_def enable_replica_def lock_sw_def split: option.splits if_splits)

lemma finish_switch_never_returns:
  assumes "z_switching_mutex z"
  shows "finish_switch E z h \<noteq> Inr z'"
proof
  assume "finish_switch E z h = Inr z'"
  then obtain top z2 z3 where 2: "call_switcher E (z\<lparr>z_missing_store := [], z_missing_store_seq := [], z_missing_mask := [],
      z_num_missing := 0, z_ah_2 := None, z_missing := None, z_rh := h, z_seqno := top + 1, z_cur_state := replica_state_STOP\<rparr>) zlight False = Inr z2"
    and 3: "call_switcher E z2 chain True = Inr z3" and n: "notify_outstanding E z3 = Inr z'"
    by (auto simp: finish_switch_def rbind_eq_Inr Let_def)
  have "z_switching_mutex z3" using call_switcher_holds [OF 3 call_switcher_holds [OF 2]] assms by simp
  then show False using n notify_blocks [of z3 E] by simp
qed

text \<open>So a replica that waits for aborts is never stopped by them: it ends in \<open>MISWAITING\<close> or blocks.\<close>

definition unstopped :: "'st replica \<Rightarrow> bool" where
  "unstopped z \<longleftrightarrow> z_cur_state z \<noteq> replica_state_STOP"

lemma unstopped_finish [post]: "z_switching_mutex z \<Longrightarrow> yields unstopped (finish_switch E z h)"
  using finish_switch_never_returns by (auto simp: yields_def)

lemma abort_complete_unstopped: "z_switching_mutex z \<Longrightarrow> yields unstopped (abort_complete E z)"
  unfolding abort_complete_def Let_def by (intro post) (simp_all add: yields_def unstopped_def)

lemma abort_never_stops:
  assumes "unstopped z"
  shows "yields unstopped (handle_abort E z m)"
proof -
  have "unstopped z3" if "abort_complete E (z1\<lparr>z_aborts := ct\<rparr>) = Inr z3" "z_switching_mutex z1" for z1 z3 ct
    using abort_complete_unstopped [of "z1\<lparr>z_aborts := ct\<rparr>" E] that by (simp add: yields_def)
  moreover have "z_switching_mutex z1 \<and> z_cur_state z1 = z_cur_state z" if "lock_sw z = Inr z1" for z1 using that by (auto simp: lock_sw_Inr)
  ultimately show ?thesis
    unfolding handle_abort_def Let_def
    by (intro post) (use assms in \<open>auto simp: yields_def unstopped_def unlock_sw_def\<close>)
qed

subsection \<open>Properties\<close>

lemma replica_new_fine:
  assumes "node_ok nd" "0 \<le> max_faulty nd" "is_replica nd (node_id nd)" "modulus_ok (e_modulus E)"
    and "replica_new E nd mhz j1 j2 ls 0 old st tms = Inr z"
  shows "fine z"
  using replica_new_facts [OF assms(1-4), of mhz j1 j2 ls old st tms] assms(5) by (auto simp: fine_def)

lemma demo_run:
  "\<exists>evs z. zreach demo_env (demo_replica 0) evs z \<and> orders_of (z_out z) \<noteq> []"
proof -
  obtain r where r: "rq_cid r = 4" "rq_rid r = 7" "request_command r = [5, 6]" "\<not> is_read_only r" "rq_size r \<le> 1100"
    "\<forall>i < 4. request_verify demo_crypto (demo_node i) r = Inr True" using demo_request_56 by blast
  obtain p' o' where p': "handle_request demo_env (demo_replica 0) r = Inr p'" "orders_of (z_out p') = [o']"
    using demo_ordered [of r] r by auto
  have "zstep demo_env (demo_replica 0) (Received (M_request r)) p'"
    by (rule step_message [where E = demo_env and m = "M_request r"]) (simp_all add: same_world_def p')
  then show ?thesis using p'(2) reach_step [OF reach_start] by (intro exI [of _ "[] @ [Received (M_request r)]"] exI [of _ p']) auto
qed

lemma demo_modulus: "modulus_ok (e_modulus demo_env)"
  by (simp only: demo_env_def env.simps modulus_ok_128)

lemma demo_is_replica: "i < 4 \<Longrightarrow> is_replica (demo_node i) (node_id (demo_node i))"
  using demo_node_facts [of i] by (simp add: is_replica_def)

text \<open>
  C9: a replica never panics by itself. Whatever messages a freshly built replica receives, in any order, forged ones
  included, and whenever it is switched or its timers fire, it stays in normal operation or stopped: \<open>PANICKING\<close> and
  \<open>MISWAITING\<close> are unreachable, the retransmission timer is never started, both mutexes are free between steps and
  the replica stays well formed.
\<close>

theorem replica_never_panics:
  assumes "node_ok nd" "0 \<le> max_faulty nd" "is_replica nd (node_id nd)" "modulus_ok (e_modulus E0)" "mpn_ok (e_mpn E0)"
    and "replica_new E0 nd mhz j1 j2 ls 0 old st tms = Inr z0" "zreach E0 z0 evs z"
  shows "(z_cur_state z = replica_state_NORMAL \<or> z_cur_state z = replica_state_STOP) \<and>
     t_state (tm_list (z_timers z) ! z_rtimer z) = stopped \<and> \<not> z_switching_mutex z \<and> \<not> z_checkpointing_mutex z \<and> replica_ok z"
proof -
  have "fine z" using zreach_fine [OF assms(7) replica_new_fine [OF assms(1-4,6)] assms(5,4)] .
  then show ?thesis by (simp add: fine_def replica_ok_def)
qed

theorem replica_never_panics_witness:
  "\<exists>evs z. zreach demo_env (demo_replica 0) evs z \<and> orders_of (z_out z) \<noteq> [] \<and>
     (z_cur_state z = replica_state_NORMAL \<or> z_cur_state z = replica_state_STOP) \<and> replica_ok z"
proof -
  obtain evs z where z: "zreach demo_env (demo_replica 0) evs z" "orders_of (z_out z) \<noteq> []" using demo_run by blast
  note nd = demo_node_facts [of 0, simplified]
  have "0 \<le> max_faulty (demo_node 0)" "mpn_ok (e_mpn demo_env)" by (simp_all add: nd school_mpn_ok)
  from replica_never_panics [OF nd(1) this(1) demo_is_replica demo_modulus this(2) demo_replica_facts(13) [of 0] z(1)]
  show ?thesis using z by auto
qed

text \<open>
  C15: no message blocks a replica. In every state a freshly built replica reaches, handling any further message does not
  end in a mutex the replica itself holds.
\<close>

theorem replica_never_blocks:
  assumes "node_ok nd" "0 \<le> max_faulty nd" "is_replica nd (node_id nd)" "modulus_ok (e_modulus E0)" "mpn_ok (e_mpn E0)"
    and "replica_new E0 nd mhz j1 j2 ls 0 old st tms = Inr z0" "zreach E0 z0 evs z"
  shows "handle E z m \<noteq> Inl Deadlock"
  using nonblocking_handle [OF zreach_fine [OF assms(7) replica_new_fine [OF assms(1-4,6)] assms(5,4)], of E m]
  by (simp add: nonblocking_def)

theorem replica_never_blocks_witness:
  "\<exists>evs z. zreach demo_env (demo_replica 0) evs z \<and> orders_of (z_out z) \<noteq> [] \<and> (\<forall>m. handle demo_env z m \<noteq> Inl Deadlock)"
proof -
  obtain evs z where z: "zreach demo_env (demo_replica 0) evs z" "orders_of (z_out z) \<noteq> []" using demo_run by blast
  note nd = demo_node_facts [of 0, simplified]
  have "0 \<le> max_faulty (demo_node 0)" "mpn_ok (e_mpn demo_env)" by (simp_all add: nd school_mpn_ok)
  from replica_never_blocks [OF nd(1) this(1) demo_is_replica demo_modulus this(2) demo_replica_facts(13) [of 0] z(1)]
  show ?thesis using z by auto
qed

end
