(* ===== verification/ZLog.thy ===== *)
theory ZLog
  imports ZSwitching
begin

section \<open>The log of a ZLight replica\<close>

text \<open>
  In every reachable state the log lists the requests of each client with growing identifiers, none of them newer than the
  last request answered, under consecutive sequence numbers: no request is executed twice or out of order.
\<close>

definition newer :: "request rh_entry \<Rightarrow> request rh_entry \<Rightarrow> bool" where
  "newer a b \<longleftrightarrow> (\<forall>x y. rhe_req a = Some x \<longrightarrow> rhe_req b = Some y \<longrightarrow> rq_cid x = rq_cid y \<longrightarrow> rq_rid x < rq_rid y)"

definition answered :: "reply list \<Rightarrow> request rh_entry \<Rightarrow> bool" where
  "answered rs e \<longleftrightarrow> (\<exists>r. rhe_req e = Some r \<and> 0 \<le> rq_cid r \<and> nat (rq_cid r) < length rs \<and> rq_rid r \<le> rp_rid (rs ! nat (rq_cid r)))"

fun consecutive :: "request rh_entry list \<Rightarrow> bool" where
  "consecutive (a # b # es) \<longleftrightarrow> rhe_seq b = rhe_seq a + 1 \<and> consecutive (b # es)"
| "consecutive es \<longleftrightarrow> True"

definition log_shape :: "reply list \<Rightarrow> request rh_entry list \<Rightarrow> bool" where
  "log_shape rs es \<longleftrightarrow> (\<forall>e \<in> set es. answered rs e) \<and> sorted_wrt newer es \<and> consecutive es"

definition log_ok :: "'st replica \<Rightarrow> bool" where
  "log_ok z \<longleftrightarrow> log_shape (z_replies z) (rh_entries (z_rh z)) \<and>
     (rh_entries (z_rh z) \<noteq> [] \<longrightarrow> rhe_seq (last (rh_entries (z_rh z))) = z_last_seqno z \<and>
        (node_id (z_node z) = primary (z_node z) \<longrightarrow> z_seqno z = z_last_seqno z))"

lemma consecutive_tl: "consecutive es \<Longrightarrow> consecutive (tl es)"
  by (cases es rule: consecutive.cases) auto

lemma consecutive_drop: "consecutive es \<Longrightarrow> consecutive (drop k es)"
  by (induction k) (auto simp: drop_Suc drop_tl consecutive_tl)

lemma consecutive_snoc: "consecutive es \<Longrightarrow> (es \<noteq> [] \<longrightarrow> rhe_seq e = rhe_seq (last es) + 1) \<Longrightarrow> consecutive (es @ [e])"
  by (induction es rule: consecutive.induct) auto

lemma log_shape_drop: "log_shape rs es \<Longrightarrow> log_shape rs (drop k es)"
  by (auto simp: log_shape_def consecutive_drop sorted_wrt_drop dest: in_set_dropD)

text \<open>Executing a request appends it: the client is known, the identifier is newer, the number is the next one.\<close>

lemma log_shape_snoc:
  assumes sh: "log_shape rs es" and c: "0 \<le> rq_cid r" "nat (rq_cid r) < length rs" and new: "rp_rid (rs ! nat (rq_cid r)) < rq_rid r"
    and s: "es \<noteq> [] \<longrightarrow> s = rhe_seq (last es) + 1" and rid: "rp_rid x = rq_rid r"
  shows "log_shape (rs[nat (rq_cid r) := x]) (es @ [\<lparr>rhe_req = Some r, rhe_seq = s, rhe_d = d\<rparr>])"
proof -
  let ?e = "\<lparr>rhe_req = Some r, rhe_seq = s, rhe_d = d\<rparr>"
  have "answered (rs[nat (rq_cid r) := x]) e" if e: "e \<in> set es" for e
  proof -
    obtain q where q: "rhe_req e = Some q" "0 \<le> rq_cid q" "nat (rq_cid q) < length rs" "rq_rid q \<le> rp_rid (rs ! nat (rq_cid q))"
      using sh e by (auto simp: log_shape_def answered_def)
    then show ?thesis using new rid by (cases "nat (rq_cid q) = nat (rq_cid r)") (auto simp: answered_def)
  qed
  moreover have "answered (rs[nat (rq_cid r) := x]) ?e" using c rid by (simp add: answered_def)
  moreover have "newer e ?e" if "e \<in> set es" for e
    using sh that new by (auto simp: log_shape_def answered_def newer_def)
  ultimately show ?thesis
    using sh consecutive_snoc [of es ?e] s by (auto simp: log_shape_def sorted_wrt_append)
qed

lemma executed_log:
  assumes ex: "executed E z req z'" and ok: "rh_ok (z_rh z)" "mpn_ok (e_mpn E)" and sh: "log_shape (z_replies z) (rh_entries (z_rh z))"
    and s: "rh_entries (z_rh z) \<noteq> [] \<longrightarrow> z_seqno z = rhe_seq (last (rh_entries (z_rh z))) + 1"
  shows "log_ok z'"
proof -
  obtain st outb h d n where x: "add_request (e_mpn E) (z_rh z) req (rq_od req) (z_seqno z) = Inr (h, d)"
    "0 \<le> rq_cid req" "nat (rq_cid req) < length (z_replies z)" "rp_rid (z_replies z ! nat (rq_cid req)) < rq_rid req"
    "z_last_seqno z' = z_seqno z" "z_seqno z' = z_seqno z"
    "z_replies z' = (z_replies z)[nat (rq_cid req) := stored_reply (z_replies z ! nat (rq_cid req)) (rq_rid req) outb d]"
    "rh_ok h \<longrightarrow> truncated h (z_rh z')"
    by (rule executedE [OF ex]) (rule that; assumption)
  have h: "rh_ok h" "rh_entries h = rh_entries (z_rh z) @ [\<lparr>rhe_req = Some req, rhe_seq = z_seqno z, rhe_d = d\<rparr>]"
    using add_request_facts [OF ok(2,1), of req "rq_od req" "z_seqno z"] x(1) by auto
  obtain k where k: "rh_entries (z_rh z') = drop k (rh_entries h)" using x(8) h(1) by (auto simp: truncated_def)
  have "log_shape (z_replies z') (rh_entries h)"
    unfolding x(7) h(2) by (rule log_shape_snoc [OF sh x(2-4) s]) simp
  moreover have "rhe_seq (last (rh_entries (z_rh z'))) = z_seqno z" if "rh_entries (z_rh z') \<noteq> []"
  proof -
    have "k < length (rh_entries h)" using that by (simp add: k)
    then show ?thesis by (simp add: k last_drop) (simp add: h(2))
  qed
  ultimately show ?thesis using log_shape_drop by (simp add: log_ok_def k x(5,6))
qed

subsection \<open>Every step keeps the log in order\<close>

text \<open>\<open>log_same\<close>: nothing that the invariant reads has changed, except that a prefix of the log may be gone.\<close>

definition log_same :: "'st replica \<Rightarrow> 'st replica \<Rightarrow> bool" where
  "log_same z z' \<longleftrightarrow> (\<exists>k. rh_entries (z_rh z') = drop k (rh_entries (z_rh z))) \<and> z_replies z' = z_replies z \<and> z_seqno z' = z_seqno z \<and>
     z_last_seqno z' = z_last_seqno z \<and> (z_node z')\<lparr>umac_nonce := 0\<rparr> = (z_node z)\<lparr>umac_nonce := 0\<rparr>"

lemma drop_all_same: "\<exists>k. xs = drop k xs"
  by (rule exI [of _ 0]) simp

lemma node_nonce_eq:
  assumes "n'\<lparr>umac_nonce := 0\<rparr> = n\<lparr>umac_nonce := 0\<rparr>"
  shows "node_id n' = node_id n" "primary n' = primary n"
  using arg_cong [OF assms, of node_id] arg_cong [OF assms, of cur_primary] by (simp_all add: primary_def)

lemma log_same_ok: "log_ok z \<Longrightarrow> log_same z z' \<Longrightarrow> log_ok z'"
  using node_nonce_eq [of "z_node z'" "z_node z"] by (auto simp: log_same_def log_ok_def log_shape_drop)

lemma log_same_emit [simp]: "log_same z (emit z o')"
  by (simp add: log_same_def drop_all_same)

lemma log_same_refl [simp]: "log_same z z"
  by (simp add: log_same_def drop_all_same)

lemma log_same_trans: "log_same a b \<Longrightarrow> log_same b c \<Longrightarrow> log_same a c"
  by (auto simp: log_same_def)

lemma ck_log_same: "ck_frame z z' \<Longrightarrow> rh_ok (z_rh z) \<Longrightarrow> log_same z z'"
  by (auto simp: log_same_def ck_frame_def truncated_def)

text \<open>\<open>next_number z\<close>: the number to be given to the request at hand follows that of the last log entry.\<close>

definition next_number :: "'st replica \<Rightarrow> bool" where
  "next_number z \<longleftrightarrow> (rh_entries (z_rh z) \<noteq> [] \<longrightarrow> z_seqno z = rhe_seq (last (rh_entries (z_rh z))) + 1)"

lemma execute_log:
  assumes x: "execute_request E z m = Inr (b, z')" and ok: "replica_ok z" "mpn_ok (e_mpn E)"
    and sh: "log_shape (z_replies z) (rh_entries (z_rh z))" and nx: "next_number z"
  shows "log_ok z' \<or> (log_same z z' \<and> \<not> b)"
  using x replica_ok_clean [OF ok(1)]
proof (cases rule: execute_request_cases)
  case new
  have "rh_ok (z_rh z)" using ok(1) by (simp add: replica_ok_def)
  then show ?thesis using executed_log [OF new(2) _ ok(2) sh] nx by (simp add: next_number_def)
qed (simp_all add: log_same_def drop_all_same)

lemma order_emitted_log:
  assumes "order_new c (z_node z) v s m = Inr (o', nd)" "replica_ok z"
  shows "log_same z (emit (z\<lparr>z_node := nd\<rparr>) (To_replicas o'))"
proof -
  have "node_ok (z_node z)" using assms(2) by (simp add: replica_ok_def)
  from order_new_Inr(5) [OF assms(1) this] obtain n where "nd = (z_node z)\<lparr>umac_nonce := n\<rparr>" by blast
  then show ?thesis by (simp add: log_same_def drop_all_same)
qed

lemma retransmitted_log:
  assumes x: "execute_request E z m = Inr (b, z')" and ok: "replica_ok z" and l: "rp_rid (z_replies z ! nat (rq_cid m)) = rq_rid m"
  shows "log_same z z' \<and> \<not> b"
  using x replica_ok_clean [OF ok]
proof (cases rule: execute_request_cases)
  case new
  then show ?thesis using executed_newer l by fastforce
qed (simp_all add: log_same_def drop_all_same)

lemma process_request_log:
  assumes p: "process_request E z m = Inr z'" and ok: "replica_ok z" "mpn_ok (e_mpn E)" and lg: "log_ok z"
  shows "log_ok z'"
  using p
proof (cases rule: process_request_cases)
  case idle
  then show ?thesis using lg by simp
next
  case (again b z2)
  have c: "replica_ok (count_retransmission z)" "log_same z (count_retransmission z)" "z_replies (count_retransmission z) = z_replies z"
    using ok(1) by (simp_all add: replica_ok_def count_retransmission_def log_same_def drop_all_same)
  have "log_same z z2" "\<not> b"
    using retransmitted_log [OF again(1) c(1)] again(2) c(3) log_same_trans [OF c(2)] by auto
  then show ?thesis using again(3) log_same_ok [OF lg] by auto
next
  case (fresh b z2)
  let ?z1 = "z\<lparr>z_seqno := z_seqno z + 1\<rparr>"
  have z1: "replica_ok ?z1" "log_shape (z_replies ?z1) (rh_entries (z_rh ?z1))" "next_number ?z1"
    using ok(1) lg fresh(1) by (auto simp: replica_ok_def log_ok_def next_number_def)
  have "log_ok z2"
    using fresh(2) replica_ok_clean [OF z1(1)]
  proof (cases rule: execute_request_cases)
    case new
    then show ?thesis using executed_log [OF new(2) _ ok(2) z1(2)] z1(1,3) by (simp add: next_number_def replica_ok_def)
  qed (use fresh(3) in \<open>auto simp: rep_at_Inr\<close>)
  then show ?thesis
    using fresh(4) order_emitted_log [OF _ execute_keeps_ok [OF fresh(2) z1(1) ok(2)]] log_same_ok by blast
qed

text \<open>The primary accepts no order message: principal 0 has no authenticator for itself.\<close>

lemma own_order_refused: "primary nd = 0 \<Longrightarrow> node_id nd = primary nd \<Longrightarrow> order_verify c nd o' \<noteq> Inr True"
  by (auto simp: order_verify_def verify_auth_def rbind_eq_Inr split: option.splits)

lemma handle_order_log:
  assumes h: "handle_order E z o' = Inr z'" and ok: "replica_ok z" "mpn_ok (e_mpn E)" and lg: "log_ok z" and pr: "primary (z_node z) = 0"
  shows "log_ok z'"
proof -
  let ?z1 = "z\<lparr>z_seqno := z_last_seqno z + 1\<rparr>"
  consider "z' = z" | b where "execute_request E ?z1 (or_request o') = Inr (b, z')" "order_verify (e_crypto E) (z_node z) o' = Inr True"
    using h by (auto simp: handle_order_def rbind_eq_Inr split: if_splits)
  then show ?thesis
  proof cases
    case 2
    have np: "node_id (z_node z) \<noteq> primary (z_node z)" using own_order_refused [OF pr] 2(2) by blast
    have z1: "replica_ok ?z1" "log_shape (z_replies ?z1) (rh_entries (z_rh ?z1))" "next_number ?z1" "log_ok ?z1"
      using ok(1) lg np by (auto simp: replica_ok_def log_ok_def next_number_def)
    show ?thesis using execute_log [OF 2(1) z1(1) ok(2) z1(2,3)] log_same_ok [OF z1(4)] by blast
  qed (simp add: lg)
qed

lemma handle_request_log:
  assumes h: "handle_request E z m = Inr z'" and f: "fine z" and g: "mpn_ok (e_mpn E)" and lg: "log_ok z"
  shows "log_ok z'"
proof (cases "z_cur_state z = replica_state_STOP")
  case True
  then have "stop_reply E z (rq_cid m) (rq_rid m) = Inr z'" using h by (simp add: handle_request_def)
  then obtain n r where "z' = emit (z\<lparr>z_node := (z_node z)\<lparr>umac_nonce := n\<rparr>\<rparr>) (To_client (rq_cid m) r)" by (rule stop_reply_emits)
  then have "log_same z z'" by (simp add: log_same_def drop_all_same)
  then show ?thesis by (rule log_same_ok [OF lg])
next
  case False
  then have st: "replica_ok z" "z_cur_state z = replica_state_NORMAL" using f by (simp_all add: fine_def)
  have sl: "log_ok (started z t c k)" for t c k
    by (rule log_same_ok [OF lg]) (simp add: log_same_def started_def drop_all_same)
  from h st show ?thesis
  proof (cases rule: handle_request_started)
    case (admitted c k)
    from process_request_log [OF this started_ok [OF st(1)] g sl] show ?thesis .
  qed (simp add: sl)
qed

lemma handle_missing_log: "handle_missing E z m = Inr z' \<Longrightarrow> log_same z z'"
  unfolding handle_missing_def
  by (erule for_loop_keeps [where P = "log_same z"]) (auto dest!: grip_one_emits intro: log_same_trans)

lemma handle_notification_log: "handle_notification z m = Inr z' \<Longrightarrow> log_same z z'"
  by (cases "cn_op_type m = 0"; cases "cn_op_type m = 1")
    (auto simp: handle_notification_def rbind_eq_Inr lock_ck_Inr unlock_ck_def log_same_def drop_all_same)

lemma handle_log:
  assumes h: "handle E z m = Inr z'" and f: "fine z" and g: "mpn_ok (e_mpn E)" and lg: "log_ok z" and pr: "primary (z_node z) = 0"
  shows "log_ok z'"
proof -
  have ok: "replica_ok z" "rh_ok (z_rh z)" using f by (simp_all add: fine_def replica_ok_def)
  have mx: "log_same z (unlock_sw (z\<lparr>z_switching_mutex := True\<rparr>))" by (simp add: unlock_sw_def log_same_def drop_all_same)
  show ?thesis
  proof (cases m)
    case (M_request r)
    then show ?thesis using h handle_request_log [OF _ f g lg] by simp
  next
    case (M_order o')
    then show ?thesis using h handle_order_log [OF _ ok(1) g lg pr] by simp
  next
    case (M_checkpoint c)
    then have "ck_frame z z'" using h handle_checkpoint_frame by simp
    then show ?thesis by (intro log_same_ok [OF lg] ck_log_same ok)
  next
    case (M_panic x)
    then show ?thesis using h lg by (auto simp: handle_panic_def split: option.splits)
  next
    case (M_abort x)
    then show ?thesis using h lg abort_ignored [OF f] log_same_ok [OF lg mx] by (auto split: option.splits)
  next
    case (M_missing x)
    then show ?thesis using h lg log_same_ok [OF lg handle_missing_log] by (auto split: option.splits)
  next
    case (M_grip x)
    then show ?thesis using h lg abort_ignored [OF f] log_same_ok [OF lg mx] by (auto split: option.splits)
  next
    case (M_notification x)
    then show ?thesis using h log_same_ok [OF lg handle_notification_log] by simp
  qed (use h lg in simp)
qed

lemma enable_replica_log:
  assumes e: "enable_replica E z b = Inr z'" and lg: "log_ok z" and M: "modulus_ok (e_modulus E)"
  shows "log_ok z'"
proof -
  obtain h :: "request req_history" where h: "rh_new (e_modulus E) = Inr h" "rh_entries h = []" using rh_new_ok [OF M] by blast
  show ?thesis
    using e lg h by (auto simp: enable_replica_def lock_sw_def Let_def unlock_sw_def log_ok_def log_shape_def split: if_splits)
qed

text \<open>No step changes who the primary is.\<close>

lemma quiet_primary: "quiet_frame z z' \<Longrightarrow> primary (z_node z') = primary (z_node z)"
  unfolding quiet_frame_def by (blast intro: node_nonce_eq(2))

lemma log_same_primary: "log_same z z' \<Longrightarrow> primary (z_node z') = primary (z_node z)"
  unfolding log_same_def by (blast intro: node_nonce_eq(2))

lemma handle_request_primary:
  assumes h: "handle_request E z m = Inr z'" and f: "fine z" and g: "mpn_ok (e_mpn E)"
  shows "primary (z_node z') = primary (z_node z)"
proof (cases "z_cur_state z = replica_state_STOP")
  case True
  then have "stop_reply E z (rq_cid m) (rq_rid m) = Inr z'" using h by (simp add: handle_request_def)
  then obtain n r where "z' = emit (z\<lparr>z_node := (z_node z)\<lparr>umac_nonce := n\<rparr>\<rparr>) (To_client (rq_cid m) r)" by (rule stop_reply_emits)
  then show ?thesis by (simp add: primary_def)
next
  case False
  then have st: "replica_ok z" "z_cur_state z = replica_state_NORMAL" using f by (simp_all add: fine_def)
  from h st show ?thesis
  proof (cases rule: handle_request_started)
    case (dropped c k)
    then show ?thesis by (simp add: started_def)
  next
    case (admitted c k)
    from process_request_keeps(2) [OF this started_ok [OF st(1)] g] show ?thesis
      by (rule quiet_primary [OF quiet_frame_trans [OF started_quiet]])
  qed
qed

lemma handle_primary:
  assumes h: "handle E z m = Inr z'" and f: "fine z" and g: "mpn_ok (e_mpn E)"
  shows "primary (z_node z') = primary (z_node z)"
proof -
  have ok: "replica_ok z" using f by (simp add: fine_def)
  have mx: "primary (z_node (unlock_sw (z\<lparr>z_switching_mutex := True\<rparr>))) = primary (z_node z)" by (simp add: unlock_sw_def)
  show ?thesis
  proof (cases m)
    case (M_request r)
    then show ?thesis using h handle_request_primary [OF _ f g] by simp
  next
    case (M_order o')
    then have "handle_order E z o' = Inr z'" using h by simp
    then show ?thesis using handle_order_keeps [OF _ ok g] by (blast intro: quiet_primary)
  next
    case (M_checkpoint c)
    then have "handle_checkpoint E z c = Inr z'" using h by simp
    then show ?thesis using handle_checkpoint_keeps [OF _ ok] by (blast intro: quiet_primary)
  next
    case (M_panic x)
    then show ?thesis using h by (auto simp: handle_panic_def split: option.splits)
  next
    case (M_abort x)
    then show ?thesis using h mx abort_ignored [OF f] by (auto split: option.splits)
  next
    case (M_missing x)
    then show ?thesis using h log_same_primary [OF handle_missing_log] by (auto split: option.splits)
  next
    case (M_grip x)
    then show ?thesis using h mx abort_ignored [OF f] by (auto split: option.splits)
  next
    case (M_notification x)
    then show ?thesis using h log_same_primary [OF handle_notification_log] by simp
  qed (use h in simp)
qed

lemma enable_replica_node:
  assumes "enable_replica E z b = Inr z'"
  shows "z_node z' = z_node z"
proof -
  obtain z1 where l: "lock_sw z = Inr z1" using assms by (auto simp: enable_replica_def rbind_eq_Inr)
  then have "z_node z1 = z_node z" by (simp add: lock_sw_Inr)
  then show ?thesis
    using assms l by (cases b; cases "z_cur_state z1") (auto simp: enable_replica_def rbind_eq_Inr Let_def unlock_sw_def)
qed

lemma zstep_log:
  assumes s: "zstep E0 z e z'" and f: "fine z" and g: "mpn_ok (e_mpn E0)" "modulus_ok (e_modulus E0)"
    and lg: "log_ok z" "primary (z_node z) = 0"
  shows "log_ok z' \<and> primary (z_node z') = 0"
  using s
proof cases
  case (step_message E m)
  have "mpn_ok (e_mpn E)" using step_message(2) g by (simp add: same_world_def)
  then show ?thesis using handle_log [OF step_message(3) f _ lg] handle_primary [OF step_message(3) f] lg(2) by simp
next
  case (step_switch E b)
  then have "modulus_ok (e_modulus E)" using g by (simp add: same_world_def)
  moreover have "primary (z_node z') = primary (z_node z)"
    using enable_replica_node [OF step_switch(3)] by simp
  ultimately show ?thesis using enable_replica_log [OF step_switch(3) lg(1)] lg(2) by simp
next
  case step_ctimer
  then have "log_same z z'"
    by (auto simp: no_checkpoint_timeout_def handle_panic_def expire_def log_same_def drop_all_same)
  then show ?thesis using log_same_ok [OF lg(1)] log_same_primary lg(2) by fastforce
next
  case (step_rtimer E)
  then show ?thesis using f by (simp add: fine_def)
qed

lemma zreach_log:
  assumes "zreach E0 z0 evs z" "fine z0" "mpn_ok (e_mpn E0)" "modulus_ok (e_modulus E0)" "log_ok z0" "primary (z_node z0) = 0"
  shows "log_ok z \<and> primary (z_node z) = 0"
  using assms(1)
proof induction
  case (reach_step evs z e z')
  then show ?case using zstep_log [OF reach_step.hyps(2) zreach_fine [OF reach_step.hyps(1) assms(2-4)] assms(3,4)] by blast
qed (use assms in blast)

subsection \<open>Property\<close>

lemma consecutive_nth: "consecutive es \<Longrightarrow> i < length es \<Longrightarrow> rhe_seq (es ! i) = rhe_seq (es ! 0) + of_nat i"
proof (induction es arbitrary: i rule: consecutive.induct)
  case (1 a b es)
  then show ?case by (cases i) (auto simp: algebra_simps)
qed auto

lemma replica_new_log:
  assumes "node_ok nd" "0 \<le> max_faulty nd" "is_replica nd (node_id nd)" "modulus_ok (e_modulus E)"
    and "replica_new E nd mhz j1 j2 ls 0 old st tms = Inr z"
  shows "log_ok z" "z_node z = nd"
  using replica_new_facts [OF assms(1-4), of mhz j1 j2 ls old st tms] assms(5) by (auto simp: log_ok_def log_shape_def)

text \<open>
  C4: every replica executes each request at most once and in order. In every state a freshly built replica reaches,
  whatever messages it is sent, the requests of one client appear in its log with strictly growing request identifiers,
  none beyond the identifier of the last reply stored for that client; the sequence numbers of the log are
  consecutive and the last one is \<open>last_seqno\<close>, which at the primary is the number given out last.
\<close>

theorem executed_at_most_once:
  assumes "node_ok nd" "0 \<le> max_faulty nd" "is_replica nd (node_id nd)" "modulus_ok (e_modulus E0)" "mpn_ok (e_mpn E0)" "primary nd = 0"
    and "replica_new E0 nd mhz j1 j2 ls 0 old st tms = Inr z0" "zreach E0 z0 evs z" and es: "es = rh_entries (z_rh z)"
  shows "(\<forall>i j x y. i < j \<longrightarrow> j < length es \<longrightarrow> rhe_req (es ! i) = Some x \<longrightarrow> rhe_req (es ! j) = Some y \<longrightarrow>
            rq_cid x = rq_cid y \<longrightarrow> rq_rid x < rq_rid y) \<and>
     (\<forall>e \<in> set es. \<exists>x. rhe_req e = Some x \<and> rq_rid x \<le> rp_rid (client_reply z (rq_cid x))) \<and>
     (\<forall>i < length es. rhe_seq (es ! i) = rhe_seq (es ! 0) + of_nat i) \<and>
     (es \<noteq> [] \<longrightarrow> rhe_seq (last es) = z_last_seqno z \<and> (node_id (z_node z) = primary (z_node z) \<longrightarrow> z_seqno z = z_last_seqno z))"
proof -
  note new = replica_new_log [OF assms(1-4,7)]
  have "log_ok z" using zreach_log [OF assms(8) replica_new_fine [OF assms(1-4,7)] assms(5,4) new(1)] assms(6) new(2) by simp
  then have sh: "log_shape (z_replies z) es" and l: "es \<noteq> [] \<longrightarrow> rhe_seq (last es) = z_last_seqno z \<and>
      (node_id (z_node z) = primary (z_node z) \<longrightarrow> z_seqno z = z_last_seqno z)" by (simp_all add: log_ok_def es)
  have "\<forall>i j x y. i < j \<longrightarrow> j < length es \<longrightarrow> rhe_req (es ! i) = Some x \<longrightarrow> rhe_req (es ! j) = Some y \<longrightarrow> rq_cid x = rq_cid y \<longrightarrow> rq_rid x < rq_rid y"
    using sh unfolding log_shape_def sorted_wrt_iff_nth_less newer_def by blast
  moreover have "\<forall>e \<in> set es. \<exists>x. rhe_req e = Some x \<and> rq_rid x \<le> rp_rid (client_reply z (rq_cid x))"
    using sh by (fastforce simp: log_shape_def answered_def client_reply_def)
  moreover have "\<forall>i < length es. rhe_seq (es ! i) = rhe_seq (es ! 0) + of_nat i"
    using sh consecutive_nth by (auto simp: log_shape_def)
  ultimately show ?thesis using l by blast
qed

theorem executed_at_most_once_witness:
  "\<exists>evs z. zreach demo_env (demo_replica 0) evs z \<and> orders_of (z_out z) \<noteq> [] \<and>
     (\<forall>i < length (rh_entries (z_rh z)). rhe_seq (rh_entries (z_rh z) ! i) = rhe_seq (rh_entries (z_rh z) ! 0) + of_nat i)"
proof -
  obtain evs z where z: "zreach demo_env (demo_replica 0) evs z" "orders_of (z_out z) \<noteq> []" using demo_run by blast
  note nd = demo_node_facts [of 0, simplified]
  have "0 \<le> max_faulty (demo_node 0)" "mpn_ok (e_mpn demo_env)" "primary (demo_node 0) = 0" by (simp_all add: nd school_mpn_ok primary_def)
  from executed_at_most_once [OF nd(1) this(1) demo_is_replica demo_modulus this(2,3) demo_replica_facts(13) [of 0] z(1) refl]
  show ?thesis using z by auto
qed

end
