(* ===== verification/ZCheckpoint.thy ===== *)
theory ZCheckpoint
  imports ZLog
begin

section \<open>Checkpoint quorums\<close>

text \<open>
  A set of checkpoints keeps the contract of a vote certificate. In every reachable state the last checkpoint of a replica
  is vouched for by checkpoint messages of \<open>2f+1\<close> different replicas, this one included, whose signatures verify.
\<close>

subsection \<open>\<open>CheckpointSet\<close> as a certificate\<close>

definition cset_votes :: "cset \<Rightarrow> int \<rightharpoonup> checkpoint" where
  "cset_votes cs i = (if 0 \<le> i \<and> nat i < length (cs_elems cs) then cs_elems cs ! nat i else None)"

definition cset_members :: "cset \<Rightarrow> int set" where
  "cset_members cs = {0..<int (length (cs_elems cs))}"

definition cset_ok :: "cset \<Rightarrow> bool" where
  "cset_ok cs \<longleftrightarrow> cs_n cs = int (length (filter (\<lambda>e. e \<noteq> None) (cs_elems cs))) \<and> cs_n cs \<le> cs_complete cs"

definition cset_accepts :: "cset \<Rightarrow> checkpoint \<Rightarrow> bool" where
  "cset_accepts cs m \<longleftrightarrow> ck_seqid m = cs_s cs \<and> \<not> cset_is_complete cs"

lemma card_cset_votes: "card (dom (cset_votes cs)) = length (filter (\<lambda>e. e \<noteq> None) (cs_elems cs))"
  using card_slot_votes [of "cs_elems cs"] by (simp add: cset_votes_def [abs_def])

interpretation ck: vote_certificate cset_ok cset_members cset_votes ck_id "\<lambda>cs m. cset_add cs (ck_id m) m" cset_is_complete
  "\<lambda>cs. nat (cs_complete cs)" cset_accepts
proof unfold_locales
  fix cs and m :: checkpoint
  show "finite (cset_members cs)" by (simp add: cset_members_def)
  assume ok: "cset_ok cs"
  show "dom (cset_votes cs) \<subseteq> cset_members cs"
    by (auto simp: cset_votes_def cset_members_def nat_less_iff split: if_splits)
  show "cset_is_complete cs \<longleftrightarrow> nat (cs_complete cs) \<le> card (dom (cset_votes cs))"
    using ok unfolding cset_is_complete_def cset_ok_def card_cset_votes by linarith
  assume mem: "ck_id m \<in> cset_members cs"
  define i where "i = nat (ck_id m)"
  have i: "ck_id m = int i" "i < length (cs_elems cs)" "cset_votes cs (ck_id m) = cs_elems cs ! i"
    using mem by (auto simp: i_def cset_members_def cset_votes_def)
  show "cset_add cs (ck_id m) m = Inr (False, cs)" if "cset_votes cs (ck_id m) \<noteq> None"
    using that i by (simp add: cset_add_def)
  show "\<exists>cs'. cset_add cs (ck_id m) m = Inr (True, cs') \<and> cset_ok cs' \<and> cset_votes cs' = (cset_votes cs)(ck_id m \<mapsto> m) \<and>
      cset_members cs' = cset_members cs \<and> nat (cs_complete cs') = nat (cs_complete cs)"
    if none: "cset_votes cs (ck_id m) = None" and acc: "cset_accepts cs m"
  proof -
    let ?c = "cs\<lparr>cs_elems := (cs_elems cs)[i := Some m], cs_n := cs_n cs + 1\<rparr>"
    have "cset_add cs (ck_id m) m = Inr (True, ?c)" using i none acc by (simp add: cset_add_def cset_accepts_def)
    moreover have "cset_ok ?c"
      using ok acc i none by (auto simp: cset_ok_def cset_accepts_def cset_is_complete_def length_filter_list_update)
    moreover have "cset_votes ?c = (cset_votes cs)(ck_id m \<mapsto> m)"
      using i by (auto simp: cset_votes_def fun_eq_iff nth_list_update)
    ultimately show ?thesis by (auto simp: cset_members_def)
  qed
qed

lemma cset_add_Inr:
  assumes "cset_add cs i m = Inr (b, cs')"
  shows "0 \<le> i" "nat i < length (cs_elems cs)" "b \<Longrightarrow> ck_seqid m = cs_s cs" "\<not> b \<Longrightarrow> cs' = cs"
    "cs_s cs' = cs_s cs" "cs_complete cs' = cs_complete cs" "length (cs_elems cs') = length (cs_elems cs)"
  using assms by (auto simp: cset_add_def rbind_eq_Inr split: if_splits)

subsection \<open>The invariant\<close>

definition vouched :: "crypto \<Rightarrow> event list \<Rightarrow> node \<Rightarrow> seqno \<Rightarrow> checkpoint \<Rightarrow> bool" where
  "vouched c evs nd s ck \<longleftrightarrow> ck_seqid ck = s \<and>
     (ck_id ck \<noteq> node_id nd \<longrightarrow> Received (M_checkpoint ck) \<in> set evs \<and> checkpoint_verify c nd ck = Inr True)"

definition cset_inv :: "crypto \<Rightarrow> event list \<Rightarrow> node \<Rightarrow> seqno \<Rightarrow> cset \<Rightarrow> bool" where
  "cset_inv c evs nd s cs \<longleftrightarrow> cset_ok cs \<and> cs_s cs = s \<and> cs_complete cs = 2 * max_faulty nd + 1 \<and>
     length (cs_elems cs) = nat (num_replicas nd) \<and> (\<forall>i ck. cset_votes cs i = Some ck \<longrightarrow> ck_id ck = i \<and> vouched c evs nd s ck)"

definition certified :: "crypto \<Rightarrow> event list \<Rightarrow> node \<Rightarrow> seqno \<Rightarrow> bool" where
  "certified c evs nd s \<longleftrightarrow> (\<exists>Q. Q \<subseteq> {0..<num_replicas nd} \<and> 2 * max_faulty nd + 1 \<le> int (card Q) \<and>
     (\<forall>i \<in> Q. i = node_id nd \<or> (\<exists>ck. ck_id ck = i \<and> ck_seqid ck = s \<and> Received (M_checkpoint ck) \<in> set evs \<and> checkpoint_verify c nd ck = Inr True)))"

definition ck_part :: "'st replica \<Rightarrow> (seqno \<rightharpoonup> cset) \<times> seqno \<times> node" where
  "ck_part z = (z_current_checkpoints z, z_last_chkp_seqno z, (z_node z)\<lparr>umac_nonce := 0\<rparr>)"

definition ck_inv :: "crypto \<Rightarrow> node \<Rightarrow> event list \<Rightarrow> (seqno \<rightharpoonup> cset) \<times> seqno \<times> node \<Rightarrow> bool" where
  "ck_inv c nd0 evs = (\<lambda>(m, l, nd). nd = nd0 \<and> 0 \<le> max_faulty nd \<and>
     (\<forall>s cs. m s = Some cs \<longrightarrow> cset_inv c evs nd s cs \<and> \<not> cset_is_complete cs) \<and> (l \<noteq> 0 \<longrightarrow> certified c evs nd l))"

lemma ck_inv_mono: "ck_inv c nd0 evs t \<Longrightarrow> set evs \<subseteq> set evs' \<Longrightarrow> ck_inv c nd0 evs' t"
  unfolding ck_inv_def cset_inv_def vouched_def certified_def by (fastforce split: prod.splits)

lemma verify_ck_nonce [simp]: "checkpoint_verify c (nd\<lparr>umac_nonce := n\<rparr>) m = checkpoint_verify c nd m"
  by (simp add: checkpoint_verify_def cong: option.case_cong if_cong)

text \<open>A complete set certifies its sequence number.\<close>

lemma complete_certifies:
  assumes "cset_inv c evs nd s cs" "cset_is_complete cs" "0 \<le> max_faulty nd"
  shows "certified c evs nd s"
proof -
  have ok: "cset_ok cs" "cs_complete cs = 2 * max_faulty nd + 1" "length (cs_elems cs) = nat (num_replicas nd)"
    and v: "\<And>i ck. cset_votes cs i = Some ck \<Longrightarrow> ck_id ck = i \<and> vouched c evs nd s ck"
    using assms(1) by (auto simp: cset_inv_def)
  have "dom (cset_votes cs) \<subseteq> {0..<num_replicas nd}"
  proof -
    have "cset_members cs \<subseteq> {0..<num_replicas nd}" using ok(3) by (simp add: cset_members_def)
    then show ?thesis using ck.votes_members [OF ok(1)] by blast
  qed
  moreover have "2 * max_faulty nd + 1 \<le> int (card (dom (cset_votes cs)))"
    using ck.finished_iff [OF ok(1)] assms(2,3) ok(2) by linarith
  ultimately show ?thesis
    unfolding certified_def using v by (intro exI [of _ "dom (cset_votes cs)"]) (fastforce simp: vouched_def)
qed

lemma cset_for_inv:
  assumes "ck_inv c nd0 evs (ck_part z)"
  shows "cset_inv c evs ((z_node z)\<lparr>umac_nonce := 0\<rparr>) s (cset_for z s)" "\<not> cset_is_complete (cset_for z s)"
proof -
  have "cset_inv c evs ((z_node z)\<lparr>umac_nonce := 0\<rparr>) s (cset_for z s) \<and> \<not> cset_is_complete (cset_for z s)"
  proof (cases "z_current_checkpoints z s")
    case None
    then show ?thesis
      using assms by (auto simp: ck_inv_def ck_part_def cset_for_def cset_inv_def cset_new_def cset_ok_def cset_is_complete_def cset_votes_def split: if_splits)
  next
    case (Some x)
    then show ?thesis using assms by (auto simp: ck_inv_def ck_part_def cset_for_def)
  qed
  then show "cset_inv c evs ((z_node z)\<lparr>umac_nonce := 0\<rparr>) s (cset_for z s)" "\<not> cset_is_complete (cset_for z s)" by blast+
qed

lemma cset_add_inv:
  assumes inv: "cset_inv c evs nd s cs" "\<not> cset_is_complete cs" and add: "cset_add cs (ck_id m) m = Inr (b, cs')" and v: "vouched c evs nd s m"
  shows "cset_inv c evs nd s cs'"
proof (cases b)
  case True
  have ok: "cset_ok cs" "cs_s cs = s" using inv(1) by (simp_all add: cset_inv_def)
  have mem: "ck_id m \<in> cset_members cs" and none: "cset_votes cs (ck_id m) = None"
    using add True cset_add_Inr(1,2) [OF add] by (auto simp: cset_members_def cset_votes_def cset_add_def nat_less_iff split: if_splits)
  have "cset_accepts cs m" using v inv(2) ok by (simp add: cset_accepts_def vouched_def)
  from ck.insert_fresh [OF ok(1) mem none this] add
  have "cset_ok cs'" "cset_votes cs' = (cset_votes cs)(ck_id m \<mapsto> m)" by auto
  then show ?thesis using inv(1) v cset_add_Inr(5-7) [OF add] by (auto simp: cset_inv_def split: if_splits)
next
  case False
  then show ?thesis using inv cset_add_Inr(4) [OF add] by simp
qed

lemma handle_checkpoint_inv:
  assumes h: "handle_checkpoint E z m = Inr z'" and inv: "ck_inv c nd0 evs (ck_part z)" and c: "e_crypto E = c"
    and src: "ck_id m = node_id (z_node z) \<or> Received (M_checkpoint m) \<in> set evs"
  shows "ck_inv c nd0 evs (ck_part z')"
proof -
  let ?nd = "(z_node z)\<lparr>umac_nonce := 0\<rparr>" and ?s = "ck_seqid m"
  have same: ?thesis if "ck_part z' = ck_part z" using inv that by simp
  have node: "(z_node z')\<lparr>umac_nonce := 0\<rparr> = ?nd" using handle_checkpoint_frame [OF h] by (simp add: ck_frame_def)
  note mf = arg_cong [OF node, of max_faulty, simplified]
  obtain ok where ok: "checkpoint_verify c (z_node z) m = Inr ok" using h c by (auto simp: handle_checkpoint_def rbind_eq_Inr)
  show ?thesis
  proof (cases "ok \<and> \<not> ?s \<le> z_last_chkp_seqno z")
    case False
    then have "ck_part z' = ck_part z"
      using h ok c by (auto simp: handle_checkpoint_def rbind_eq_Inr lock_ck_Inr unlock_ck_def ck_part_def split: if_splits)
    then show ?thesis by (rule same)
  next
    case True
    then have v: "vouched c evs ?nd ?s m" using ok src by (auto simp: vouched_def)
    let ?z1 = "z\<lparr>z_checkpointing_mutex := True\<rparr>"
    obtain b cs' where add: "cset_add (cset_for z ?s) (ck_id m) m = Inr (b, cs')"
      and z': "(if \<not> b then Inr (unlock_ck (?z1\<lparr>z_current_checkpoints := (z_current_checkpoints z)(?s \<mapsto> cs')\<rparr>))
         else if cset_is_complete cs' then rbind (checkpoint_done E (?z1\<lparr>z_current_checkpoints := (z_current_checkpoints z)(?s \<mapsto> cs')\<rparr>) cs') (\<lambda>z3. Inr (unlock_ck z3))
         else Inr (unlock_ck (?z1\<lparr>z_current_checkpoints := (z_current_checkpoints z)(?s \<mapsto> cs')\<rparr>))) = Inr z'"
      using h True ok c by (auto simp: handle_checkpoint_def rbind_eq_Inr lock_ck_Inr Let_def)
    have inv': "ck_inv c nd0 evs (z_current_checkpoints z, z_last_chkp_seqno z, ?nd)" using inv by (simp add: ck_part_def)
    have old: "cset_inv c evs ?nd ?s (cset_for z ?s)" "\<not> cset_is_complete (cset_for z ?s)"
      by (rule cset_for_inv [OF inv])+
    note new = cset_add_inv [OF old add v]
    show ?thesis
    proof (cases "b \<and> cset_is_complete cs'")
      case False
      then have "z_current_checkpoints z' = (z_current_checkpoints z)(?s \<mapsto> cs')" "z_last_chkp_seqno z' = z_last_chkp_seqno z"
        using z' by (auto simp: unlock_ck_def split: if_splits)
      moreover have "\<not> cset_is_complete cs'" using False old(2) cset_add_Inr(4) [OF add] by auto
      ultimately show ?thesis using inv' new node mf by (auto simp: ck_inv_def ck_part_def)
    next
      case True
      then obtain z3 where z3: "checkpoint_done E (?z1\<lparr>z_current_checkpoints := (z_current_checkpoints z)(?s \<mapsto> cs')\<rparr>) cs' = Inr z3" "z' = unlock_ck z3"
        using z' by (auto simp: rbind_eq_Inr)
      have s: "cs_s cs' = ?s" using new by (simp add: cset_inv_def)
      have "z_last_chkp_seqno z3 = ?s" using z3(1) s by (auto simp: checkpoint_done_def rbind_eq_Inr Let_def handle_panic_def split: if_splits)
      moreover have "z_current_checkpoints z3 = (z_current_checkpoints z)(?s := None)" using checkpoint_done_csets [OF z3(1)] s by simp
      moreover have "certified c evs ?nd ?s" using complete_certifies [OF new] True inv' by (simp add: ck_inv_def)
      ultimately show ?thesis using inv' node mf z3(2) by (auto simp: ck_inv_def ck_part_def unlock_ck_def)
    qed
  qed
qed

subsection \<open>Every step keeps it\<close>

lemma ck_part_emit [simp]: "ck_part (emit z o') = ck_part z"
  by (simp add: ck_part_def)

lemma send_reply_part: "send_reply c z d v i = Inr z' \<Longrightarrow> ck_part z' = ck_part z"
  by (auto simp: send_reply_def rbind_eq_Inr Let_def set_rep_def ck_part_def dest!: send_client_Inr split: option.splits)

lemma reply_to_part: "reply_to E z cid rid k = Inr z' \<Longrightarrow> ck_part z' = ck_part z"
  unfolding reply_to_def Let_def
  by (auto simp: rbind_eq_Inr ck_part_def dest!: send_client_Inr send_reply_part reply_new_Inr(1) split: option.splits if_splits)

lemma execute_part:
  assumes "execute_request E z req = Inr (b, z')"
  shows "ck_part z' = ck_part z \<or> (\<exists>z1. ck_part z1 = ck_part z \<and> make_checkpoint E z1 = Inr z')"
proof -
  have new: "new_reply z c = Inr z1 \<Longrightarrow> ck_part z1 = ck_part z" for z1 c
    by (auto simp: new_reply_def rbind_eq_Inr set_rep_def ck_part_def)
  have rest: "ck_part z4 = ck_part z"
    if "new_reply z cid = Inr z1" "end_reply (z1\<lparr>z_service := st, z_last_seqno := sn, z_rh := h\<rparr>) cid rid outb d = Inr z3" "reply_to E z3 cid rid k = Inr z4"
    for z1 z3 z4 cid st sn h rid outb d k
    using new [OF that(1)] end_reply_Inr(3) [OF that(2)] reply_to_part [OF that(3)] by (simp add: ck_part_def)
  let ?P = "\<lambda>(b :: bool, z'). ck_part z' = ck_part z \<or> (\<exists>z1. ck_part z1 = ck_part z \<and> make_checkpoint E z1 = Inr z')"
  have "yields ?P (execute_request E z req)"
    unfolding execute_request_def Let_def
    by (intro post) (auto simp: yields_def split: if_splits dest: rest send_reply_part)
  from yieldsD [OF this assms] show ?thesis by simp
qed

lemma make_checkpoint_inv:
  assumes "make_checkpoint E z = Inr z'" "ck_inv c nd0 evs (ck_part z)" "e_crypto E = c"
  shows "ck_inv c nd0 evs (ck_part z')"
proof -
  obtain m1 s m2 where m: "checkpoint_new (z_node z) = Inr m1"
    "checkpoint_sign (e_crypto E) (z_node z) (m1\<lparr>ck_seqid := s, ck_digest := rh_digest (z_rh z)\<rparr>) = Inr m2"
    "handle_checkpoint E (emit (z\<lparr>z_checkpoint_in_progress := True\<rparr>) (Monitor_send (W_checkpoint m2) (-1))) m2 = Inr z'"
    using assms(1) by (auto simp: make_checkpoint_def rbind_eq_Inr Let_def)
  have "ck_id m2 = node_id (z_node z)" using m(1,2) by (auto simp: checkpoint_new_def checkpoint_sign_def rbind_eq_Inr)
  moreover have "ck_part (emit (z\<lparr>z_checkpoint_in_progress := True\<rparr>) (Monitor_send (W_checkpoint m2) (-1))) = ck_part z"
    by (simp add: ck_part_def)
  ultimately show ?thesis using handle_checkpoint_inv [OF m(3)] assms(2,3) by simp
qed

lemma execute_inv:
  assumes "execute_request E z req = Inr (b, z')" "ck_inv c nd0 evs (ck_part z)" "e_crypto E = c"
  shows "ck_inv c nd0 evs (ck_part z')"
  using execute_part [OF assms(1)] make_checkpoint_inv assms(2,3) by metis

lemma process_request_inv:
  assumes p: "process_request E z m = Inr z'" and inv: "ck_inv c nd0 evs (ck_part z)" and c: "e_crypto E = c" and ok: "replica_ok z" "mpn_ok (e_mpn E)"
  shows "ck_inv c nd0 evs (ck_part z')"
proof -
  have emitted: "ck_inv c nd0 evs (ck_part z')"
    if x: "execute_request E z1 m = Inr (b, z2)" and z1: "replica_ok z1" "ck_part z1 = ck_part z"
      and z': "z' = z2 \<or> (b \<and> (\<exists>o' nd. order_new (e_crypto E) (z_node z2) 0 (z_seqno z2) m = Inr (o', nd) \<and> z' = emit (z2\<lparr>z_node := nd\<rparr>) (To_replicas o')))"
    for z1 b z2
  proof -
    have i2: "ck_inv c nd0 evs (ck_part z2)" using execute_inv [OF x _ c] inv z1(2) by simp
    have "ck_part (z2\<lparr>z_node := nd\<rparr>) = ck_part z2" if "order_new (e_crypto E) (z_node z2) 0 (z_seqno z2) m = Inr (o', nd)" for o' nd
    proof -
      have "node_ok (z_node z2)" using execute_keeps_ok [OF x z1(1) ok(2)] by (simp add: replica_ok_def)
      from order_new_Inr(5) [OF that this] show ?thesis by (auto simp: ck_part_def)
    qed
    then show ?thesis using z' i2 by auto
  qed
  have parts: "replica_ok (count_retransmission z)" "ck_part (count_retransmission z) = ck_part z"
    "replica_ok (z\<lparr>z_seqno := z_seqno z + 1\<rparr>)" "ck_part (z\<lparr>z_seqno := z_seqno z + 1\<rparr>) = ck_part z"
    using ok(1) by (simp_all add: replica_ok_def count_retransmission_def ck_part_def)
  show ?thesis
    using p
  proof (cases rule: process_request_cases)
    case (again b z2)
    then show ?thesis using emitted [OF again(1) parts(1,2)] by blast
  next
    case (fresh b z2)
    then show ?thesis using emitted [OF fresh(2) parts(3,4)] by blast
  qed (simp add: inv)
qed

lemma handle_request_inv:
  assumes h: "handle_request E z m = Inr z'" and inv: "ck_inv c nd0 evs (ck_part z)" and c: "e_crypto E = c" and f: "fine z" "mpn_ok (e_mpn E)"
  shows "ck_inv c nd0 evs (ck_part z')"
proof (cases "z_cur_state z = replica_state_STOP")
  case True
  then have "stop_reply E z (rq_cid m) (rq_rid m) = Inr z'" using h by (simp add: handle_request_def)
  then obtain n r where "z' = emit (z\<lparr>z_node := (z_node z)\<lparr>umac_nonce := n\<rparr>\<rparr>) (To_client (rq_cid m) r)" by (rule stop_reply_emits)
  then show ?thesis using inv by (simp add: ck_part_def)
next
  case False
  then have st: "replica_ok z" "z_cur_state z = replica_state_NORMAL" using f by (simp_all add: fine_def)
  have part: "ck_part (started z t k n) = ck_part z" for t k n by (simp add: ck_part_def started_def)
  from h st show ?thesis
  proof (cases rule: handle_request_started)
    case (admitted k n)
    from process_request_inv [OF this _ c started_ok [OF st(1)] f(2)] show ?thesis using inv part by simp
  qed (simp add: part inv)
qed

lemma handle_order_inv:
  assumes h: "handle_order E z o' = Inr z'" and inv: "ck_inv c nd0 evs (ck_part z)" and c: "e_crypto E = c"
  shows "ck_inv c nd0 evs (ck_part z')"
proof -
  have "ck_part (z\<lparr>z_seqno := z_last_seqno z + 1\<rparr>) = ck_part z" by (simp add: ck_part_def)
  then have inv': "ck_inv c nd0 evs (ck_part (z\<lparr>z_seqno := z_last_seqno z + 1\<rparr>))" using inv by simp
  consider "z' = z" | b where "execute_request E (z\<lparr>z_seqno := z_last_seqno z + 1\<rparr>) (or_request o') = Inr (b, z')"
    using h by (auto simp: handle_order_def rbind_eq_Inr split: if_splits)
  then show ?thesis using inv execute_inv [OF _ inv' c] by cases simp_all
qed

lemma handle_missing_part: "handle_missing E z m = Inr z' \<Longrightarrow> ck_part z' = ck_part z"
  unfolding handle_missing_def
  by (erule for_loop_keeps [where P = "\<lambda>z'. ck_part z' = ck_part z"]) (auto dest!: grip_one_emits)

lemma handle_notification_part: "handle_notification z m = Inr z' \<Longrightarrow> ck_part z' = ck_part z"
  by (cases "cn_op_type m = 0"; cases "cn_op_type m = 1")
    (auto simp: handle_notification_def rbind_eq_Inr lock_ck_Inr unlock_ck_def ck_part_def)

lemma handle_inv:
  assumes h: "handle E z m = Inr z'" and inv: "ck_inv c nd0 evs (ck_part z)" and c: "e_crypto E = c" and f: "fine z" "mpn_ok (e_mpn E)"
    and m: "Received m \<in> set evs"
  shows "ck_inv c nd0 evs (ck_part z')"
proof -
  have mx: "ck_part (unlock_sw (z\<lparr>z_switching_mutex := True\<rparr>)) = ck_part z" by (simp add: unlock_sw_def ck_part_def)
  show ?thesis
  proof (cases m)
    case (M_request r)
    then show ?thesis using h handle_request_inv [OF _ inv c f] by simp
  next
    case (M_order o')
    then show ?thesis using h handle_order_inv [OF _ inv c] by simp
  next
    case (M_checkpoint x)
    then show ?thesis using h handle_checkpoint_inv [OF _ inv c] m by simp
  next
    case (M_panic x)
    then show ?thesis using h inv by (auto simp: handle_panic_def split: option.splits)
  next
    case (M_abort x)
    then show ?thesis using h inv mx abort_ignored [OF f(1)] by (auto split: option.splits)
  next
    case (M_missing x)
    then show ?thesis using h inv by (auto dest!: handle_missing_part split: option.splits)
  next
    case (M_grip x)
    then show ?thesis using h inv mx abort_ignored [OF f(1)] by (auto split: option.splits)
  next
    case (M_notification x)
    then have "ck_part z' = ck_part z" using h handle_notification_part by simp
    then show ?thesis using inv by simp
  qed (use h inv in simp)
qed

lemma enable_replica_inv:
  assumes "enable_replica E z b = Inr z'" "ck_inv c nd0 evs (ck_part z)"
  shows "ck_inv c nd0 evs (ck_part z')"
proof -
  let ?P = "\<lambda>z'. z_node z' = z_node z \<and> z_last_chkp_seqno z' = z_last_chkp_seqno z \<and>
     (z_current_checkpoints z' = z_current_checkpoints z \<or> z_current_checkpoints z' = Map.empty)"
  have "yields ?P (enable_replica E z b)"
    unfolding enable_replica_def Let_def by (intro post) (auto simp: yields_def lock_sw_Inr unlock_sw_def rbind_eq_Inr split: if_splits)
  from yieldsD [OF this assms(1)] show ?thesis using assms(2) by (auto simp: ck_inv_def ck_part_def)
qed

lemma zreach_inv:
  assumes "zreach E0 z0 evs z" "fine z0" "mpn_ok (e_mpn E0)" "modulus_ok (e_modulus E0)" "ck_inv (e_crypto E0) nd0 [] (ck_part z0)"
  shows "ck_inv (e_crypto E0) nd0 evs (ck_part z)"
  using assms(1)
proof induction
  case reach_start
  then show ?case by (rule assms(5))
next
  case (reach_step evs z e z')
  have f: "fine z" by (rule zreach_fine [OF reach_step.hyps(1) assms(2-4)])
  have inv: "ck_inv (e_crypto E0) nd0 (evs @ [e]) (ck_part z)" by (rule ck_inv_mono [OF reach_step.IH]) auto
  from reach_step.hyps(2) show ?case
  proof cases
    case (step_message E m)
    then have "e_crypto E = e_crypto E0" "mpn_ok (e_mpn E)" using assms(3) by (simp_all add: same_world_def)
    then show ?thesis using handle_inv [OF step_message(3) inv _ f] step_message(1) by simp
  next
    case (step_switch E b)
    then show ?thesis using enable_replica_inv [OF _ inv] by blast
  next
    case step_ctimer
    then have "ck_part z' = ck_part z" by (auto simp: no_checkpoint_timeout_def handle_panic_def expire_def ck_part_def)
    then show ?thesis using inv by simp
  next
    case (step_rtimer E)
    then show ?thesis using f by (simp add: fine_def)
  qed
qed

subsection \<open>What the checkpoint code does not do\<close>

text \<open>A message that claims to come from the receiving replica itself is taken without looking at its signature.\<close>

lemma own_checkpoint_unverified:
  assumes "is_replica nd (node_id nd)" "ck_id m = node_id nd"
  shows "checkpoint_verify c nd m = Inr True"
  using assms by (simp add: checkpoint_verify_def)

text \<open>
  A replica that is stopped and enabled again counts its requests from 0 but keeps \<open>last_chkp_seqno\<close>: it ignores every
  checkpoint up to the old number.
\<close>

lemma reenabled_ignores_checkpoints:
  assumes f: "fine z" and off: "enable_replica E z False = Inr z1" and on: "enable_replica E z1 True = Inr z2"
    and m: "ck_seqid m \<le> z_last_chkp_seqno z" "handle_checkpoint E z2 m = Inr z3"
  shows "z_seqno z2 = 0" "z_last_chkp_seqno z2 = z_last_chkp_seqno z" "ck_part z3 = ck_part z2" "z_rh z3 = z_rh z2"
    "z_checkpoint_in_progress z3 = z_checkpoint_in_progress z2"
proof -
  have z1: "z_cur_state z1 = replica_state_STOP" "z_last_chkp_seqno z1 = z_last_chkp_seqno z"
    using off f by (auto simp: enable_replica_def rbind_eq_Inr lock_sw_Inr unlock_sw_def fine_def)
  show z2: "z_seqno z2 = 0" "z_last_chkp_seqno z2 = z_last_chkp_seqno z"
    using on z1 by (auto simp: enable_replica_def rbind_eq_Inr lock_sw_Inr unlock_sw_def Let_def)
  have "ck_seqid m \<le> z_last_chkp_seqno z2" using m(1) z2(2) by simp
  then show "ck_part z3 = ck_part z2" "z_rh z3 = z_rh z2" "z_checkpoint_in_progress z3 = z_checkpoint_in_progress z2"
    using m(2) by (auto simp: handle_checkpoint_def rbind_eq_Inr lock_ck_Inr unlock_ck_def ck_part_def split: if_splits)
qed

subsection \<open>Property\<close>

lemma handle_checkpoint_adds:
  assumes "checkpoint_verify (e_crypto E) (z_node z) m = Inr True" "\<not> z_checkpointing_mutex z" "z_last_chkp_seqno z < ck_seqid m"
    and "cset_add (cset_for z (ck_seqid m)) (ck_id m) m = Inr (True, cs)"
  shows "\<not> cset_is_complete cs \<Longrightarrow> handle_checkpoint E z m = Inr (z\<lparr>z_current_checkpoints := (z_current_checkpoints z)(ck_seqid m \<mapsto> cs)\<rparr>)"
    and "cset_is_complete cs \<Longrightarrow> rh_ok (z_rh z) \<Longrightarrow> \<exists>z'. handle_checkpoint E z m = Inr z' \<and> z_last_chkp_seqno z' = ck_seqid m"
proof -
  let ?z2 = "z\<lparr>z_checkpointing_mutex := True, z_current_checkpoints := (z_current_checkpoints z)(ck_seqid m \<mapsto> cs)\<rparr>"
  have "unlock_ck ?z2 = z\<lparr>z_current_checkpoints := (z_current_checkpoints z)(ck_seqid m \<mapsto> cs)\<rparr>"
    using assms(2) by (cases z) (simp add: unlock_ck_def)
  then show "handle_checkpoint E z m = Inr (z\<lparr>z_current_checkpoints := (z_current_checkpoints z)(ck_seqid m \<mapsto> cs)\<rparr>)" if "\<not> cset_is_complete cs"
    using assms that by (simp add: handle_checkpoint_def lock_ck_def Let_def)
  assume c: "cset_is_complete cs" "rh_ok (z_rh z)"
  have s: "cs_s cs = ck_seqid m" using cset_add_Inr(3,5) [OF assms(4)] by simp
  obtain z3 where z3: "checkpoint_done E ?z2 cs = Inr z3" using checkpoint_done_ok [of ?z2 E cs] c(2) by auto
  then have "z_last_chkp_seqno z3 = ck_seqid m"
    using s by (auto simp: checkpoint_done_def rbind_eq_Inr Let_def handle_panic_def split: if_splits)
  then show "\<exists>z'. handle_checkpoint E z m = Inr z' \<and> z_last_chkp_seqno z' = ck_seqid m"
    using assms c z3 by (simp add: handle_checkpoint_def lock_ck_def unlock_ck_def Let_def)
qed

definition demo_ck :: "int \<Rightarrow> checkpoint" where
  "demo_ck i = \<lparr>ck_extra = 0, ck_size = int Checkpoint_rep_size + 20, ck_id = i, ck_seqid = 128, ck_digest = digest_zero,
     ck_tail = u32_bytes 15 @ replicate 15 0\<rparr>"

lemma demo_ck_verified:
  assumes "0 < i" "i < 4"
  shows "checkpoint_verify demo_crypto (demo_node 0) (demo_ck i) = Inr True"
proof -
  note nd = demo_node_facts [of 0, simplified]
  have r: "is_replica (demo_node 0) i" using assms nd by (simp add: is_replica_def)
  have b: "0 \<le> i" "i < num_principals (demo_node 0)" using assms nd by simp_all
  obtain p where p: "i_to_p (demo_node 0) i = Some p" "p_ssize p = 20" "p_pkey p = Some 15"
    using node_new_principal(1) [OF demo_node_new(1) [of 0] demo_config_lines b(1)] assms nd
    by (auto simp: demo_config_def demo_crypto_def)
  have id: "p_id p = i" using i_to_p_ok [OF nd(1) b] p(1) assms by (auto simp: principal_ok_def)
  have "verify_signature demo_crypto 0 p (checkpoint_rep_bytes (demo_ck i)) (u32_bytes 15 @ replicate 15 0) False = Inr True"
    using assms by (simp add: verify_signature_def id p read_bytes_append_left read_bytes_append_right [where xs = "u32_bytes 15"] Let_def demo_crypto_def read_bytes_def)
  moreover have "sig_size (demo_node 0) i = Inr 20" using b assms p by (simp add: sig_size_def)
  ultimately show ?thesis
    using assms nd r p by (simp add: checkpoint_verify_def demo_ck_def wrap32_def)
qed

lemma demo_checkpoints:
  "\<exists>z. zreach demo_env (demo_replica 0) [Received (M_checkpoint (demo_ck 1)), Received (M_checkpoint (demo_ck 2)), Received (M_checkpoint (demo_ck 3))] z \<and>
     z_last_chkp_seqno z = 128"
proof -
  define z0 where "z0 = demo_replica 0"
  note f = demo_replica_facts [of 0, simplified, folded z0_def] and nd = demo_node_facts [of 0, simplified]
  have z0: "z_current_checkpoints z0 = Map.empty" "z_last_chkp_seqno z0 = 0" "\<not> z_checkpointing_mutex z0" "rh_ok (z_rh z0)"
    using f(1,13) by (auto simp: replica_ok_def replica_new_def rbind_eq_Inr split: if_splits)
  have id: "ck_id (demo_ck i) = i" "ck_seqid (demo_ck i) = 128" for i by (simp_all add: demo_ck_def)
  define cs where "cs xs = \<lparr>cs_elems = xs, cs_n = int (length (filter (\<lambda>e. e \<noteq> None) xs)), cs_s = 128, cs_complete = 3\<rparr>" for xs
  define z1 where "z1 = z0\<lparr>z_current_checkpoints := (z_current_checkpoints z0)(128 \<mapsto> cs [None, Some (demo_ck 1), None, None])\<rparr>"
  define z2 where "z2 = z1\<lparr>z_current_checkpoints := (z_current_checkpoints z1)(128 \<mapsto> cs [None, Some (demo_ck 1), Some (demo_ck 2), None])\<rparr>"
  note v = demo_ck_verified [of 1] demo_ck_verified [of 2] demo_ck_verified [of 3]
  have "handle_checkpoint demo_env z0 (demo_ck 1) = Inr z1"
    unfolding z1_def id(2) [symmetric, of 1]
    by (rule handle_checkpoint_adds(1)) (simp_all add: v f z0 id cset_for_def cset_new_def nd cset_add_def cs_def cset_is_complete_def eval_nat_numeral)
  moreover have "handle_checkpoint demo_env z1 (demo_ck 2) = Inr z2"
    unfolding z2_def id(2) [symmetric, of 2]
    by (rule handle_checkpoint_adds(1)) (simp_all add: v f z0 z1_def id cset_for_def cset_add_def cs_def cset_is_complete_def)
  moreover have "\<exists>z3. handle_checkpoint demo_env z2 (demo_ck 3) = Inr z3 \<and> z_last_chkp_seqno z3 = ck_seqid (demo_ck 3)"
    by (rule handle_checkpoint_adds(2) [where cs = "cs [None, Some (demo_ck 1), Some (demo_ck 2), Some (demo_ck 3)]"])
      (simp_all add: v f z0 z1_def z2_def id cset_for_def cset_add_def cs_def cset_is_complete_def eval_nat_numeral)
  ultimately obtain z3 where "handle_checkpoint demo_env z2 (demo_ck 3) = Inr z3" "z_last_chkp_seqno z3 = 128"
    and steps: "zstep demo_env z0 (Received (M_checkpoint (demo_ck 1))) z1" "zstep demo_env z1 (Received (M_checkpoint (demo_ck 2))) z2"
      "zstep demo_env z2 (Received (M_checkpoint (demo_ck 3))) z3"
    using step_message [of demo_env demo_env] by (auto simp: same_world_def id)
  then show ?thesis
    using reach_step [OF reach_step [OF reach_step [OF reach_start steps(1)] steps(2)] steps(3)] by (auto simp: z0_def)
qed

text \<open>
  C7: checkpoints need a quorum. Whatever messages a freshly built replica receives, its last checkpoint, up to which
  its log has been truncated, is vouched for by a set of at least \<open>2f+1\<close> replicas: this replica itself or replicas
  from which it received a checkpoint message for that sequence number whose signature verifies.
\<close>

theorem checkpoint_needs_quorum:
  assumes "node_ok nd" "0 \<le> max_faulty nd" "is_replica nd (node_id nd)" "modulus_ok (e_modulus E0)" "mpn_ok (e_mpn E0)"
    and "replica_new E0 nd mhz j1 j2 ls 0 old st tms = Inr z0" "zreach E0 z0 evs z" "z_last_chkp_seqno z \<noteq> 0"
  shows "\<exists>Q. Q \<subseteq> {0..<num_replicas nd} \<and> 2 * max_faulty nd + 1 \<le> int (card Q) \<and>
     (\<forall>i \<in> Q. i = node_id nd \<or> (\<exists>ck. ck_id ck = i \<and> ck_seqid ck = z_last_chkp_seqno z \<and>
        Received (M_checkpoint ck) \<in> set evs \<and> checkpoint_verify (e_crypto E0) nd ck = Inr True))"
proof -
  let ?nd0 = "nd\<lparr>umac_nonce := 0\<rparr>"
  have z0: "ck_inv (e_crypto E0) ?nd0 [] (ck_part z0)"
    using replica_new_facts [OF assms(1-4), of mhz j1 j2 ls old st tms] assms(2,6) by (auto simp: ck_inv_def ck_part_def)
  have "ck_inv (e_crypto E0) ?nd0 evs (ck_part z)"
    by (rule zreach_inv [OF assms(7) replica_new_fine [OF assms(1-4,6)] assms(5,4) z0])
  then have "certified (e_crypto E0) evs ?nd0 (z_last_chkp_seqno z)" using assms(8) by (auto simp: ck_inv_def ck_part_def)
  then show ?thesis by (simp add: certified_def)
qed

theorem checkpoint_needs_quorum_witness:
  "\<exists>evs z Q. zreach demo_env (demo_replica 0) evs z \<and> z_last_chkp_seqno z = 128 \<and> 3 \<le> card Q \<and>
     (\<forall>i \<in> Q. i = 0 \<or> (\<exists>ck. ck_id ck = i \<and> ck_seqid ck = 128 \<and> Received (M_checkpoint ck) \<in> set evs \<and> checkpoint_verify demo_crypto (demo_node 0) ck = Inr True))"
proof -
  obtain evs z where z: "zreach demo_env (demo_replica 0) evs z" "z_last_chkp_seqno z = 128" using demo_checkpoints by blast
  note nd = demo_node_facts [of 0, simplified]
  have h: "0 \<le> max_faulty (demo_node 0)" "mpn_ok (e_mpn demo_env)" "z_last_chkp_seqno z \<noteq> 0" by (simp_all add: nd school_mpn_ok z)
  from checkpoint_needs_quorum [OF nd(1) h(1) demo_is_replica demo_modulus h(2) demo_replica_facts(13) [of 0] z(1) h(3)] nd z(2)
  obtain Q where "3 \<le> card Q" "\<forall>i \<in> Q. i = 0 \<or> (\<exists>ck. ck_id ck = i \<and> ck_seqid ck = 128 \<and> Received (M_checkpoint ck) \<in> set evs \<and> checkpoint_verify demo_crypto (demo_node 0) ck = Inr True)" by auto
  then show ?thesis using z by blast
qed

end
