(* ===== verification/ZService.thy ===== *)
theory ZService
  imports ZClient ZAgreement "HOL-Library.Multiset"
begin

section \<open>A request from the client and back\<close>

text \<open>
  The composition of the client with the replicas: replicas in the same state that execute the client's request all send
  it a reply which verifies and matches the others, so the client returns the answer of the service.
\<close>

subsection \<open>The reply a replica sends\<close>

lemma checkpoint_done_out: "checkpoint_done E z cs = Inr z' \<Longrightarrow> z_out z' = z_out z"
  by (auto simp: checkpoint_done_def rbind_eq_Inr Let_def handle_panic_def split: if_splits)

lemma handle_checkpoint_out:
  assumes "handle_checkpoint E z m = Inr z'"
  shows "z_out z' = z_out z"
proof -
  have "yields (\<lambda>z'. z_out z' = z_out z) (handle_checkpoint E z m)"
    unfolding handle_checkpoint_def Let_def
    by (intro post) (auto simp: yields_def unlock_ck_def lock_ck_Inr dest!: checkpoint_done_out)
  then show ?thesis using assms by (rule yieldsD)
qed

lemma make_checkpoint_out:
  assumes "make_checkpoint E z = Inr z'"
  shows "set (z_out z) \<subseteq> set (z_out z')"
proof -
  have "yields (\<lambda>z'. set (z_out z) \<subseteq> set (z_out z')) (make_checkpoint E z)"
    unfolding make_checkpoint_def Let_def by (intro post) (auto simp: yields_def dest!: handle_checkpoint_out)
  then show ?thesis using assms by (rule yieldsD)
qed

definition sent_reply :: "'st replica \<Rightarrow> request \<Rightarrow> byte list \<Rightarrow> digest \<Rightarrow> reply" where
  "sent_reply z req outb d =
     (stored_reply (client_reply z (rq_cid req)) (rq_rid req) outb d)\<lparr>rp_v := 0, rp_replica := node_id (z_node z), rp_cid := -1\<rparr>"

lemma send_reply_sends:
  assumes "send_reply c z cid 0 (node_id (z_node z)) = Inr z'"
  obtains me mac n where "i_to_p (z_node z) (node_id (z_node z)) = Some me" "0 \<le> cid" "nat cid < length (z_replies z)"
    "gen_mac_nonce c (umac_nonce (z_node z)) me (reply_rep_bytes ((z_replies z ! nat cid)\<lparr>rp_v := 0, rp_replica := node_id (z_node z), rp_cid := -1\<rparr>)) cid = Inr (mac, n)"
    "To_client cid (put_mac ((z_replies z ! nat cid)\<lparr>rp_v := 0, rp_replica := node_id (z_node z), rp_cid := -1\<rparr>) mac) \<in> set (z_out z')"
  using assms by (auto simp: send_reply_def rbind_eq_Inr Let_def rep_at_Inr set_rep_def dest!: send_client_Inr split: option.splits)

lemma execute_sends:
  assumes x: "execute_request E z req = Inr (True, z')" and ex: "e_exec E (z_service z) (request_command req) (rq_cid req) = (st, outb)"
    and short: "length outb < 50"
  obtains h d me mac n where "add_request (e_mpn E) (z_rh z) req (rq_od req) (z_seqno z) = Inr (h, d)"
    "i_to_p (z_node z) (node_id (z_node z)) = Some me"
    "gen_mac_nonce (e_crypto E) (umac_nonce (z_node z)) me (reply_rep_bytes (sent_reply z req outb d)) (rq_cid req) = Inr (mac, n)"
    "To_client (rq_cid req) (put_mac (sent_reply z req outb d) mac) \<in> set (z_out z')"
proof -
  let ?c = "rq_cid req" and ?r = "rq_rid req"
  obtain z1 h d z3 z4 where 1: "new_reply z ?c = Inr z1" and 2: "add_request (e_mpn E) (z_rh z1) req (rq_od req) (z_seqno z1) = Inr (h, d)"
    and 3: "end_reply (z1\<lparr>z_service := st, z_last_seqno := z_seqno z1, z_rh := h\<rparr>) ?c ?r outb d = Inr z3"
    and 4: "reply_to E z3 ?c ?r (length outb) = Inr z4" and 5: "(if should_checkpoint (z_rh z4) then make_checkpoint E z4 else Inr z4) = Inr z'"
  proof -
    have s: "z_service z1 = z_service z" if "new_reply z ?c = Inr z1" for z1 using that by (auto simp: new_reply_def rbind_eq_Inr set_rep_def)
    have "yields (\<lambda>(b, z'). b \<longrightarrow> (\<exists>z1 h d z3 z4. new_reply z ?c = Inr z1 \<and> add_request (e_mpn E) (z_rh z1) req (rq_od req) (z_seqno z1) = Inr (h, d) \<and>
        end_reply (z1\<lparr>z_service := st, z_last_seqno := z_seqno z1, z_rh := h\<rparr>) ?c ?r outb d = Inr z3 \<and>
        reply_to E z3 ?c ?r (length outb) = Inr z4 \<and> (if should_checkpoint (z_rh z4) then make_checkpoint E z4 else Inr z4) = Inr z')) (execute_request E z req)"
      unfolding execute_request_def Let_def by (intro post) (use ex s in \<open>fastforce simp: yields_def\<close>)+
    from yieldsD [OF this x] show ?thesis using that by blast
  qed
  have z1: "z1 = z\<lparr>z_replies := (z_replies z)[nat ?c := (z_replies z ! nat ?c)\<lparr>rp_reply_size := -1\<rparr>]\<rparr>" "0 \<le> ?c" "nat ?c < length (z_replies z)"
    using 1 by (auto simp: new_reply_def rbind_eq_Inr set_rep_def rep_at_Inr)
  have z3: "z_node z3 = z_node z" "z_replies z3 ! nat ?c = stored_reply (z_replies z ! nat ?c) ?r outb d" "nat ?c < length (z_replies z3)"
    using end_reply_Inr(3) [OF 3] z1 stored_reply_reset by simp_all
  obtain z0 where z0: "send_reply (e_crypto E) z3 ?c 0 (node_id (z_node z3)) = Inr z0" "z_out z4 = z_out z0"
    using 4 short by (auto simp: reply_to_def Let_def rbind_eq_Inr)
  have cl: "client_reply z ?c = z_replies z ! nat ?c" using z1 by (simp add: client_reply_def)
  have sub: "set (z_out z4) \<subseteq> set (z_out z')" using 5 make_checkpoint_out by (auto split: if_splits)
  have a: "add_request (e_mpn E) (z_rh z) req (rq_od req) (z_seqno z) = Inr (h, d)" using 2 z1 by simp
  show ?thesis
    by (rule send_reply_sends [OF z0(1)], rule that [OF a]) (use z3 sub z0(2) in \<open>auto simp: sent_reply_def cl\<close>)
qed

text \<open>The client accepts it.\<close>

lemma put_mac_sent:
  "rp_tail (put_mac (sent_reply z req outb d) mac) =
     outb @ mac @ drop (length outb + length mac) (rp_tail (sent_reply z req outb d))"
  "put_mac (sent_reply z req outb d) mac = (sent_reply z req outb d)\<lparr>rp_tail := rp_tail (put_mac (sent_reply z req outb d) mac)\<rparr>"
  by (simp_all add: put_mac_def Let_def sent_reply_def stored_reply_def)

lemma sent_reply_fields:
  "rp_replica (put_mac (sent_reply z req outb d) mac) = node_id (z_node z)" "rp_rid (put_mac (sent_reply z req outb d) mac) = rq_rid req"
  "full (put_mac (sent_reply z req outb d) mac)" "reply_body (put_mac (sent_reply z req outb d) mac) = outb"
  "rp_should_switch (put_mac (sent_reply z req outb d) mac) = rp_should_switch (client_reply z (rq_cid req))"
  by (simp_all add: put_mac_def Let_def sent_reply_def stored_reply_def full_def reply_body_def)

lemma sent_replies_match:
  "reply_match (put_mac (sent_reply z req outb d) mac) (put_mac (sent_reply z' req outb d) mac')"
  by (simp add: reply_match_def put_mac_def Let_def sent_reply_def stored_reply_def)

lemma sent_reply_verified:
  assumes c: "crypto_ok c" and A: "node_ok A" "node_id A = rq_cid req" "\<not> is_replica A (node_id A)" and z: "replica_ok z"
    and same: "num_principals A = num_principals (z_node z)" "num_replicas A = num_replicas (z_node z)" and len: "length outb < 60000"
    and me: "i_to_p (z_node z) (node_id (z_node z)) = Some me"
    and mac: "gen_mac_nonce c (umac_nonce (z_node z)) me (reply_rep_bytes (sent_reply z req outb d)) (rq_cid req) = Inr (mac, n)"
  shows "reply_verify c A (put_mac (sent_reply z req outb d) mac) = Inr True"
proof -
  have B: "node_ok (z_node z)" "is_replica (z_node z) (node_id (z_node z))" using z by (simp_all add: replica_ok_def)
  then have "node_id A \<noteq> node_id (z_node z)" "node_id (z_node z) < num_replicas (z_node z)"
    using A(3) same(2) by (auto simp: is_replica_def)
  from reply_tail_verified [OF c A(1) B(1) same this _ _ _ _ len me mac [folded A(2)] put_mac_sent]
  show ?thesis
    by (simp add: sent_reply_def stored_reply_def Let_def Reply_rep_size_def zl_MAC_size_def zl_UMAC_size_def zl_UNonce_size_def)
qed

subsection \<open>Collecting the replies\<close>

lemma cert_record_fresh:
  assumes ok: "bm_ok (ce_bmap ct)" "bm_num (ce_bmap ct) = 32" and i: "0 \<le> idf m" "nat (idf m) < 32" "\<not> bm_bits (ce_bmap ct) ! nat (idf m)"
    and v: "case ce_value ct of None \<Rightarrow> True | Some v \<Rightarrow> fullf v"
  obtains b where "cert_record idf fullf ct m = Inr (ct\<lparr>ce_bmap := b, ce_count := ce_count ct + 1,
       ce_value := Some (case ce_value ct of None \<Rightarrow> m | Some v \<Rightarrow> v)\<rparr>)"
    "bm_ok b" "bm_num b = 32" "bm_bits b = (bm_bits (ce_bmap ct))[nat (idf m) := True]"
proof -
  obtain b where b: "bm_set (ce_bmap ct) (nat (idf m)) = Inr b" "bm_ok b" "bm_num b = 32" "bm_bits b = (bm_bits (ce_bmap ct))[nat (idf m) := True]"
    using bm_set_eq [OF ok(1), of "nat (idf m)"] ok(2) i by auto
  have "bm_test (ce_bmap ct) (nat (idf m)) = Inr False" using bm_test_eq [OF ok(1)] ok(2) i by simp
  then have "cert_record idf fullf ct m = Inr (ct\<lparr>ce_bmap := b, ce_count := ce_count ct + 1,
       ce_value := Some (case ce_value ct of None \<Rightarrow> m | Some v \<Rightarrow> v)\<rparr>)"
    using b(1) v by (cases "ce_value ct") (simp_all add: cert_record_def)
  with b show ?thesis using that by blast
qed

text \<open>
  \<open>collecting S v ct\<close>: the certificate has heard of the replicas of \<open>S\<close>, and the first reply was \<open>v\<close>.
\<close>

definition collecting :: "int set \<Rightarrow> reply option \<Rightarrow> reply cert \<Rightarrow> bool" where
  "collecting S v ct \<longleftrightarrow> bm_ok (ce_bmap ct) \<and> bm_num (ce_bmap ct) = 32 \<and> finite S \<and> ce_count ct = int (card S) \<and>
     (\<forall>i < 32. bm_bits (ce_bmap ct) ! i \<longleftrightarrow> int i \<in> S) \<and> ce_value ct = v \<and> (case v of None \<Rightarrow> True | Some r \<Rightarrow> full r)"

definition good_reply :: "crypto \<Rightarrow> node \<Rightarrow> request_id \<Rightarrow> reply \<Rightarrow> bool" where
  "good_reply c nd rid q \<longleftrightarrow> reply_verify c nd q = Inr True \<and> is_replica nd (rp_replica q) \<and> rp_replica q \<noteq> node_id nd \<and>
     full q \<and> rp_rid q = rid \<and> \<not> rp_should_switch q"

lemma reply_add_good:
  assumes ct: "collecting S v ct" and q: "good_reply c nd rid q" "rp_replica q \<notin> S" "num_replicas nd \<le> 32"
    and m: "case v of None \<Rightarrow> True | Some r \<Rightarrow> reply_match r q"
  obtains ct' where "reply_add c nd ct q = Inr (True, ct')" "collecting (insert (rp_replica q) S) (Some (case v of None \<Rightarrow> q | Some r \<Rightarrow> r)) ct'"
    "ce_complete ct' = ce_complete ct"
proof -
  have i: "0 \<le> rp_replica q" "nat (rp_replica q) < 32" using q by (auto simp: good_reply_def is_replica_def)
  have nb: "\<not> bm_bits (ce_bmap ct) ! nat (rp_replica q)" using ct i q(2) by (simp add: collecting_def)
  obtain b where b: "cert_record rp_replica full ct q = Inr (ct\<lparr>ce_bmap := b, ce_count := ce_count ct + 1,
       ce_value := Some (case ce_value ct of None \<Rightarrow> q | Some v \<Rightarrow> v)\<rparr>)"
    "bm_ok b" "bm_num b = 32" "bm_bits b = (bm_bits (ce_bmap ct))[nat (rp_replica q) := True]"
    by (rule cert_record_fresh [where idf = rp_replica and m = q and ct = ct and fullf = full, OF _ _ i nb]) (use ct in \<open>auto simp: collecting_def\<close>)
  have "bm_bits b ! j \<longleftrightarrow> int j \<in> insert (rp_replica q) S" if "j < 32" for j
    using ct that i by (auto simp: b(4) collecting_def nth_list_update)
  then have "collecting (insert (rp_replica q) S) (Some (case v of None \<Rightarrow> q | Some r \<Rightarrow> r))
      (ct\<lparr>ce_bmap := b, ce_count := ce_count ct + 1, ce_value := Some (case ce_value ct of None \<Rightarrow> q | Some v \<Rightarrow> v)\<rparr>)"
    using ct b(2,3) q(1,2) by (auto simp: collecting_def good_reply_def split: option.splits)
  moreover have "reply_add c nd ct q = Inr (True, ct\<lparr>ce_bmap := b, ce_count := ce_count ct + 1,
       ce_value := Some (case ce_value ct of None \<Rightarrow> q | Some v \<Rightarrow> v)\<rparr>)"
    using q(1) m b(1) ct by (auto simp: reply_add_def cert_add_def good_reply_def collecting_def split: option.splits)
  ultimately show ?thesis using that by simp
qed

lemma recv_step_good:
  assumes "good_reply c (cl_node cl) (cl_out_rid cl) q" "reply_add c (cl_node cl) (cl_reps cl) q = Inr (True, ct)"
    and "ce_value ct = Some v" "full v"
  shows "cert_is_complete ct \<Longrightarrow> \<exists>cl'. recv_step c tv cl (Some q) = Inr (Some v, cl') \<and> cl_out_req cl' = None"
    and "\<not> cert_is_complete ct \<Longrightarrow> recv_step c tv cl (Some q) = Inr (None, cl\<lparr>cl_reps := ct\<rparr>)"
  using assms by (auto simp: recv_step_def good_reply_def Let_def split: prod.splits)

lemma recv_collects:
  assumes "qs \<noteq> []" "\<forall>q \<in> set qs. good_reply c (cl_node cl) (cl_out_rid cl) q \<and> rp_replica q \<notin> S" "distinct (map rp_replica qs)"
    and "\<forall>p \<in> set qs. \<forall>q \<in> set qs. reply_match p q" "case v of None \<Rightarrow> True | Some r \<Rightarrow> \<forall>q \<in> set qs. reply_match r q"
    and "collecting S v (cl_reps cl)" "num_replicas (cl_node cl) \<le> 32" "ce_complete (cl_reps cl) = int (card S + length qs)"
  shows "\<exists>cl'. recv_loop c tv cl (map Some qs) = Inr (Some (case v of None \<Rightarrow> hd qs | Some r \<Rightarrow> r, cl', [])) \<and> cl_out_req cl' = None"
  using assms
proof (induction qs arbitrary: cl S v)
  case (Cons q qs)
  let ?v = "case v of None \<Rightarrow> q | Some r \<Rightarrow> r"
  have q: "good_reply c (cl_node cl) (cl_out_rid cl) q" "rp_replica q \<notin> S" "case v of None \<Rightarrow> True | Some r \<Rightarrow> reply_match r q"
    using Cons.prems(2,5) by (auto split: option.splits)
  obtain ct where ct: "reply_add c (cl_node cl) (cl_reps cl) q = Inr (True, ct)" "collecting (insert (rp_replica q) S) (Some ?v) ct"
    "ce_complete ct = ce_complete (cl_reps cl)"
    by (rule reply_add_good [OF Cons.prems(6) q(1,2) Cons.prems(7) q(3)])
  have v: "ce_value ct = Some ?v" "full ?v" and n: "ce_count ct = int (card S) + 1"
    using ct(2) q(2) Cons.prems(6) by (auto simp: collecting_def)
  show ?case
  proof (cases "qs = []")
    case True
    then have "cert_is_complete ct" using n ct(3) Cons.prems(8) by (simp add: cert_is_complete_def)
    from recv_step_good(1) [OF q(1) ct(1) v this, of tv] obtain cl' where "recv_step c tv cl (Some q) = Inr (Some ?v, cl')" "cl_out_req cl' = None"
      by blast
    then show ?thesis using True by (intro exI [of _ cl']) (auto split: option.splits)
  next
    case False
    let ?cl = "cl\<lparr>cl_reps := ct\<rparr>"
    have nc: "\<not> cert_is_complete ct" using False n ct(3) Cons.prems(8) by (simp add: cert_is_complete_def)
    have "card (insert (rp_replica q) S) = Suc (card S)" using q(2) Cons.prems(6) by (simp add: collecting_def)
    then have c8: "ce_complete (cl_reps ?cl) = int (card (insert (rp_replica q) S) + length qs)" using ct(3) Cons.prems(8) by simp
    have "\<forall>x \<in> set qs. good_reply c (cl_node ?cl) (cl_out_rid ?cl) x \<and> rp_replica x \<notin> insert (rp_replica q) S"
      using Cons.prems(2,3) by (auto simp: image_iff)
    moreover have "case Some ?v of None \<Rightarrow> True | Some r \<Rightarrow> \<forall>x \<in> set qs. reply_match r x"
      using Cons.prems(4,5) by (auto split: option.splits)
    ultimately obtain cl' where "recv_loop c tv ?cl (map Some qs) = Inr (Some (case Some ?v of None \<Rightarrow> hd qs | Some r \<Rightarrow> r, cl', []))" "cl_out_req cl' = None"
      using Cons.IH [OF False, of ?cl "insert (rp_replica q) S" "Some ?v"] Cons.prems(3,4,7) ct(2) c8 by auto
    then show ?thesis using recv_step_good(2) [OF q(1) ct(1) v nc] by (auto split: option.splits)
  qed
qed simp

lemma cleared_collecting:
  assumes "cert_inv idf verifyf nd M ct"
  shows "collecting {} None (cert_clear ct)"
  using assms bm_clear_bits [of "ce_bmap ct"] by (simp add: collecting_def cert_inv_def cert_clear_def)

subsection \<open>Replicas that answer\<close>

lemma replica_reply:
  assumes x: "execute_request E z m = Inr (True, z')" and z: "replica_ok z" and c: "crypto_ok (e_crypto E)"
    and ex: "e_exec E (z_service z) (request_command m) (rq_cid m) = (st, outb)" "length outb < 50"
    and A: "node_ok A" "node_id A = rq_cid m" "\<not> is_replica A (node_id A)"
    and same: "num_principals A = num_principals (z_node z)" "num_replicas A = num_replicas (z_node z)"
  obtains h d mac where "add_request (e_mpn E) (z_rh z) m (rq_od m) (z_seqno z) = Inr (h, d)"
    "To_client (rq_cid m) (put_mac (sent_reply z m outb d) mac) \<in> set (z_out z')"
    "good_reply (e_crypto E) A (rq_rid m) (put_mac (sent_reply z m outb d) mac)"
proof -
  obtain h d me mac n where r: "add_request (e_mpn E) (z_rh z) m (rq_od m) (z_seqno z) = Inr (h, d)"
    "i_to_p (z_node z) (node_id (z_node z)) = Some me"
    "gen_mac_nonce (e_crypto E) (umac_nonce (z_node z)) me (reply_rep_bytes (sent_reply z m outb d)) (rq_cid m) = Inr (mac, n)"
    "To_client (rq_cid m) (put_mac (sent_reply z m outb d) mac) \<in> set (z_out z')"
    by (rule execute_sends [OF x ex]) (rule that; assumption)
  have cid: "0 \<le> rq_cid m" "rq_cid m < num_principals (z_node z)" using A same by (auto simp: node_ok_def)
  have "\<not> rp_should_switch (client_reply z (rq_cid m))"
    using replica_ok_replies(2) [OF z cid] replica_ok_replies(1) [OF z cid] cid by (simp add: client_reply_def reply_ok_def)
  moreover have "is_replica A (node_id (z_node z))" "node_id (z_node z) \<noteq> node_id A"
    using z same A(3) by (auto simp: replica_ok_def is_replica_def)
  moreover have "reply_verify (e_crypto E) A (put_mac (sent_reply z m outb d) mac) = Inr True"
    by (rule sent_reply_verified [OF c A z same _ r(2,3)]) (use ex(2) in simp)
  ultimately have "good_reply (e_crypto E) A (rq_rid m) (put_mac (sent_reply z m outb d) mac)"
    by (simp add: good_reply_def sent_reply_fields)
  then show ?thesis using that r(1,4) by blast
qed

text \<open>A backup that follows the primary has executed the request.\<close>

lemma backup_executed:
  assumes h: "handle_order E b o' = Inr b'" and ok: "replica_ok b" and m: "or_request o' = m"
    and new: "0 \<le> rq_cid m" "rp_rid (z_replies b ! nat (rq_cid m)) < rq_rid m" "rp_rid (z_replies b' ! nat (rq_cid m)) = rq_rid m"
  shows "execute_request E (b\<lparr>z_seqno := z_last_seqno b + 1\<rparr>) m = Inr (True, b')"
proof -
  let ?b = "b\<lparr>z_seqno := z_last_seqno b + 1\<rparr>"
  have ok': "replica_ok ?b" using ok by (simp add: replica_ok_def)
  consider "b' = b" | x where "execute_request E ?b m = Inr (x, b')"
    using h m by (auto simp: handle_order_def rbind_eq_Inr split: if_splits)
  then show ?thesis
  proof cases
    case (2 x)
    then have "x"
      using replica_ok_clean [OF ok'] new by (cases rule: execute_request_cases) (auto simp: rep_at_Inr)
    then show ?thesis using 2 by simp
  qed (use new in simp)
qed

text \<open>One backup next to the primary: it executes the request, and its reply matches that of the primary.\<close>

lemma backup_replies:
  assumes pb: "paired c p b" and E: "e_exec Eb = e_exec Ep" "e_mpn Eb = e_mpn Ep" "e_crypto Eb = c" "e_crypto Ep = c"
    and g: "mpn_ok (e_mpn Ep)" "crypto_ok c" and v: "request_verify c (z_node b) m = Inr True"
    and p: "handle_request Ep p m = Inr p'" "orders_of (z_out p') = orders_of (z_out p) @ [o']" "or_request o' = m"
    and cid: "0 \<le> rq_cid m" "rp_rid (z_replies p ! nat (rq_cid m)) < rq_rid m" "rp_rid (z_replies p' ! nat (rq_cid m)) = rq_rid m"
    and ex: "e_exec Ep (z_service p) (request_command m) (rq_cid m) = (st, outb)" "length outb < 50"
    and d: "add_request (e_mpn Ep) (z_rh p) m (rq_od m) (z_seqno p + 1) = Inr (h, d)"
    and A: "node_ok A" "node_id A = rq_cid m" "\<not> is_replica A (node_id A)"
      "num_principals A = num_principals (z_node b)" "num_replicas A = num_replicas (z_node b)"
  obtains b' mac where "handle_order Eb b o' = Inr b'" "To_client (rq_cid m) (put_mac (sent_reply b m outb d) mac) \<in> set (z_out b')"
    "good_reply c A (rq_rid m) (put_mac (sent_reply b m outb d) mac)"
proof -
  have b: "replica_ok b" and ag: "agree p b" using pb by (simp_all add: paired_def)
  obtain b' where b': "handle_order Eb b o' = Inr b'" "agree p' b'"
    using paired_step [of Ep p b m p' Eb] pb p E g v by (auto simp: rbind_eq_Inr paired_def)
  let ?b = "b\<lparr>z_seqno := z_last_seqno b + 1\<rparr>"
  have x: "execute_request Eb ?b m = Inr (True, b')"
    by (rule backup_executed [OF b'(1) b p(3) cid(1)]) (use cid ag b'(2) in \<open>simp_all add: agree_def\<close>)
  have okb: "replica_ok ?b" using b by (simp add: replica_ok_def)
  have exb: "e_exec Eb (z_service ?b) (request_command m) (rq_cid m) = (st, outb)" using ex(1) E(1) ag by (simp add: agree_def)
  have cb: "crypto_ok (e_crypto Eb)" and sz: "num_principals A = num_principals (z_node ?b)" "num_replicas A = num_replicas (z_node ?b)"
    using g(2) E(3) A(4,5) by simp_all
  obtain h' d' mac where r: "add_request (e_mpn Eb) (z_rh ?b) m (rq_od m) (z_seqno ?b) = Inr (h', d')"
    "To_client (rq_cid m) (put_mac (sent_reply ?b m outb d') mac) \<in> set (z_out b')"
    "good_reply (e_crypto Eb) A (rq_rid m) (put_mac (sent_reply ?b m outb d') mac)"
    by (rule replica_reply [OF x okb cb exb ex(2) A(1-3) sz]) (rule that; assumption)
  have "d' = d" using add_request_same(1) [OF d r(1) [unfolded E(2)]] ag by (simp add: agree_def)
  moreover have "sent_reply ?b m outb d = sent_reply b m outb d" by (simp add: sent_reply_def client_reply_def)
  ultimately show ?thesis using that b'(1) r(2,3) E(3) by simp
qed

lemma replies_accepted:
  assumes "collecting {} None (cl_reps cl)" "cl_out_req cl \<noteq> None" "num_replicas (cl_node cl) \<le> 32" "ce_complete (cl_reps cl) = int (length rs)" "rs \<noteq> []"
    and "\<forall>r \<in> set rs. good_reply c (cl_node cl) (cl_out_rid cl) r" "distinct (map rp_replica rs)" "\<forall>p \<in> set rs. \<forall>q \<in> set rs. reply_match p q"
    and qs: "mset qs = mset rs"
  shows "\<exists>r cl'. recv_reply c tv cl (map Some qs) = Inr (Some (Some r, cl', [])) \<and> r \<in> set rs"
proof -
  have same: "set qs = set rs" "length qs = length rs" "distinct (map rp_replica qs)"
    using mset_eq_setD [OF qs] mset_eq_length [OF qs] mset_eq_imp_distinct_iff [of "map rp_replica qs" "map rp_replica rs"] qs assms(7) by simp_all
  have ne: "qs \<noteq> []" using same(2) assms(5) by auto
  obtain cl' where "recv_loop c tv cl (map Some qs) = Inr (Some (hd qs, cl', []))"
    using recv_collects [of qs c cl "{}" None tv] assms same ne by auto
  moreover have "hd qs \<in> set rs" using same assms(5) by (metis hd_in_set length_0_conv)
  ultimately show ?thesis using assms(2) by (auto simp: recv_reply_def)
qed

lemma send_request_ready:
  assumes "client_inv c M cl" "send_request c rdtsc rnd cl req ro = Inr (True, [(dest, m)], cl1)"
  shows "collecting {} None (cl_reps cl1)" "cl_out_req cl1 \<noteq> None" "ce_complete (cl_reps cl1) = num_replicas (cl_node cl1)" "num_replicas (cl_node cl1) \<le> 32"
    "cl_out_rid cl1 = rq_rid m" "rq_cid m = rq_cid req" "\<exists>n. cl_node cl1 = (cl_node cl)\<lparr>umac_nonce := n\<rparr>"
proof -
  obtain nd' where s: "request_authenticate c (cl_node cl) (req\<lparr>rq_rid := cl_out_rid cl\<rparr>) ro rnd = Inr (m, nd')"
    "cl1 = cl\<lparr>cl_node := nd', cl_out_req := Some m, cl_reps := cert_clear (cl_reps cl), cl_n_retrans := 0,
                  cl_timers := timer_start rdtsc (cl_timers cl) (cl_rtimer cl)\<rparr>"
    using assms(2) by (auto simp: send_request_def rbind_eq_Inr split: option.splits)
  note nd' = request_authenticate_node [OF s(1)]
  show "collecting {} None (cl_reps cl1)" using assms(1) s(2) cleared_collecting by (auto simp: client_inv_def)
  show "cl_out_req cl1 \<noteq> None" "ce_complete (cl_reps cl1) = num_replicas (cl_node cl1)" "num_replicas (cl_node cl1) \<le> 32"
    "\<exists>n. cl_node cl1 = (cl_node cl)\<lparr>umac_nonce := n\<rparr>"
    using assms(1) s(2) nd' by (auto simp: client_inv_def cert_clear_def)
  show "cl_out_rid cl1 = rq_rid m" "rq_cid m = rq_cid req"
    using s by (auto simp: request_authenticate_def rbind_eq_Inr Let_def)
qed

text \<open>The primary handles the request: it sends one order and a good reply.\<close>

lemma primary_replies:
  assumes ok: "replica_ok p" and st: "z_cur_state p = replica_state_NORMAL" "\<not> z_checkpoint_in_progress p"
    and pr: "node_id (z_node p) = primary (z_node p)" and g: "mpn_ok (e_mpn E)" "signs (e_crypto E) (z_node p)"
    and v: "request_verify (e_crypto E) (z_node p) m = Inr True" "\<not> is_read_only m" "fits E p m"
    and new: "rp_rid (client_reply p (rq_cid m)) < rq_rid m"
    and size: "int Order_request_rep_size + rq_size m + auth_size (z_node p) (-1) \<le> zl_Max_message_size"
    and c: "crypto_ok (e_crypto E)" and ex: "e_exec E (z_service p) (request_command m) (rq_cid m) = (st', outb)" "length outb < 50"
    and A: "node_ok A" "node_id A = rq_cid m" "\<not> is_replica A (node_id A)"
      "num_principals A = num_principals (z_node p)" "num_replicas A = num_replicas (z_node p)"
  obtains p' o' h d mac where "handle_request E p m = Inr p'" "orders_of (z_out p') = orders_of (z_out p) @ [o']" "or_request o' = m"
    "rp_rid (z_replies p' ! nat (rq_cid m)) = rq_rid m" "add_request (e_mpn E) (z_rh p) m (rq_od m) (z_seqno p + 1) = Inr (h, d)"
    "To_client (rq_cid m) (put_mac (sent_reply p m outb d) mac) \<in> set (z_out p')"
    "good_reply (e_crypto E) A (rq_rid m) (put_mac (sent_reply p m outb d) mac)"
  using ok st pr g v new size
proof (rule handle_request_new)
  fix t k p0 p1 o' nd
  assume p0: "p0 = (started p (timer_restart (e_rdtsc E) (z_timers p) (z_ctimer p)) t k)\<lparr>z_seqno := z_seqno p + 1\<rparr>"
    and x: "execute_request E p0 m = Inr (True, p1)" "replica_ok p1" "order_new (e_crypto E) (z_node p1) 0 (z_seqno p1) m = Inr (o', nd)"
    "handle_request E p m = Inr (emit (p1\<lparr>z_node := nd\<rparr>) (To_replicas o'))"
  have ok0: "replica_ok p0" using ok by (simp add: p0 replica_ok_def started_def)
  have ex0: "e_exec E (z_service p0) (request_command m) (rq_cid m) = (st', outb)"
    and sz: "num_principals A = num_principals (z_node p0)" "num_replicas A = num_replicas (z_node p0)"
    using ex(1) A(4,5) by (simp_all add: p0)
  obtain h d mac where r: "add_request (e_mpn E) (z_rh p0) m (rq_od m) (z_seqno p0) = Inr (h, d)"
    "To_client (rq_cid m) (put_mac (sent_reply p0 m outb d) mac) \<in> set (z_out p1)"
    "good_reply (e_crypto E) A (rq_rid m) (put_mac (sent_reply p0 m outb d) mac)"
    by (rule replica_reply [OF x(1) ok0 c ex0 ex(2) A(1-3) sz]) (rule that; assumption)
  have s0: "sent_reply p0 m outb d = sent_reply p m outb d" by (simp add: sent_reply_def client_reply_def p0)
  have exd: "executed E p0 m p1" using x(1) replica_ok_clean [OF ok0] by (cases rule: execute_request_cases) auto
  obtain d' where e: "orders_of (z_out p1) = orders_of (z_out p0)" "nat (rq_cid m) < length (z_replies p0)"
    "z_replies p1 = (z_replies p0)[nat (rq_cid m) := stored_reply (z_replies p0 ! nat (rq_cid m)) (rq_rid m) outb d']"
    by (rule executedE [OF exd]) (use ex0 in \<open>auto intro: that\<close>)
  have nok: "node_ok (z_node p1)" using x(2) by (simp add: replica_ok_def)
  show thesis
    by (rule that [OF x(4), of o' h d mac]) (use r e p0 order_new_Inr [OF x(3) nok] s0 in auto)
qed

subsection \<open>Property\<close>

text \<open>
  C1: a client gets its answer. A client sends a request; the primary handles it and each of the \<open>3f\<close> backups, in the
  same state as the primary, handles the order the primary sends. Then all replicas send the client a reply, and in
  whatever order the replies arrive, the client returns one of them, which carries what the service computes for
  the request. The answer is shorter than 50 bytes, so that every replica sends a full reply.
\<close>

theorem request_answered:
  assumes c: "crypto_ok c" "mpn_ok (e_mpn Ep)" "e_crypto Ep = c"
    and cl: "client_inv c M cl" "node_ok (cl_node cl)" "\<not> is_replica (cl_node cl) (node_id (cl_node cl))" "rq_cid req = node_id (cl_node cl)"
      "send_request c rdtsc rnd cl req False = Inr (True, [(dest, m)], cl1)"
    and p: "replica_ok p" "z_cur_state p = replica_state_NORMAL" "\<not> z_checkpoint_in_progress p" "node_id (z_node p) = 0" "primary (z_node p) = 0"
      "signs c (z_node p)" "num_principals (cl_node cl) = num_principals (z_node p)" "num_replicas (cl_node cl) = num_replicas (z_node p)"
    and m: "request_verify c (z_node p) m = Inr True" "\<not> is_read_only m" "fits Ep p m" "rp_rid (client_reply p (rq_cid m)) < rq_rid m"
      "int Order_request_rep_size + rq_size m + auth_size (z_node p) (-1) \<le> zl_Max_message_size"
    and ex: "e_exec Ep (z_service p) (request_command m) (rq_cid m) = (st, outb)" "length outb < 50"
    and bs: "int (length bs) + 1 = num_replicas (z_node p)"
      "\<forall>i < length bs. paired c p (bs ! i) \<and> node_id (z_node (bs ! i)) = int (Suc i) \<and> request_verify c (z_node (bs ! i)) m = Inr True \<and>
         e_exec (Eb i) = e_exec Ep \<and> e_mpn (Eb i) = e_mpn Ep \<and> e_crypto (Eb i) = c"
  shows "\<exists>p' o' bs' rs. handle_request Ep p m = Inr p' \<and> orders_of (z_out p') = orders_of (z_out p) @ [o'] \<and>
     length rs = Suc (length bs) \<and> To_client (rq_cid m) (rs ! 0) \<in> set (z_out p') \<and>
     (\<forall>i < length bs. handle_order (Eb i) (bs ! i) o' = Inr (bs' i) \<and> To_client (rq_cid m) (rs ! Suc i) \<in> set (z_out (bs' i))) \<and>
     (\<forall>qs. mset qs = mset rs \<longrightarrow> (\<exists>r cl2. recv_reply c tv cl1 (map Some qs) = Inr (Some (Some r, cl2, [])) \<and> reply_body r = outb))"
proof -
  note rdy = send_request_ready [OF cl(1,5)]
  let ?A = "cl_node cl1"
  have A: "node_ok ?A" "node_id ?A = rq_cid m" "\<not> is_replica ?A (node_id ?A)"
      "num_principals ?A = num_principals (z_node p)" "num_replicas ?A = num_replicas (z_node p)"
    using rdy(6,7) cl(2-4) p(7,8) by auto
  obtain p' o' h d mac where h: "handle_request Ep p m = Inr p'" "orders_of (z_out p') = orders_of (z_out p) @ [o']" "or_request o' = m"
    "rp_rid (z_replies p' ! nat (rq_cid m)) = rq_rid m" "add_request (e_mpn Ep) (z_rh p) m (rq_od m) (z_seqno p + 1) = Inr (h, d)"
    "To_client (rq_cid m) (put_mac (sent_reply p m outb d) mac) \<in> set (z_out p')"
    "good_reply c ?A (rq_rid m) (put_mac (sent_reply p m outb d) mac)"
    by (rule primary_replies [of p Ep m st outb ?A]) (use p c m ex A in simp_all)
  have cid: "0 \<le> rq_cid m" "rp_rid (z_replies p ! nat (rq_cid m)) < rq_rid m"
    using m(3,4) replica_ok_replies(1) [OF p(1), of "rq_cid m"] by (simp_all add: fits_def client_reply_def)
  have "\<exists>b' mc. handle_order (Eb i) (bs ! i) o' = Inr b' \<and> To_client (rq_cid m) (put_mac (sent_reply (bs ! i) m outb d) mc) \<in> set (z_out b') \<and>
      good_reply c ?A (rq_rid m) (put_mac (sent_reply (bs ! i) m outb d) mc)" if i: "i < length bs" for i
  proof -
    have b: "paired c p (bs ! i)" "e_exec (Eb i) = e_exec Ep" "e_mpn (Eb i) = e_mpn Ep" "e_crypto (Eb i) = c" "request_verify c (z_node (bs ! i)) m = Inr True"
      using bs(2) i by simp_all
    then have "num_principals ?A = num_principals (z_node (bs ! i))" "num_replicas ?A = num_replicas (z_node (bs ! i))"
      using A by (simp_all add: paired_def)
    from backup_replies [OF b(1-4) c(3,2,1) b(5) h(1-3) cid h(4) ex h(5) A(1-3) this] show ?thesis by blast
  qed
  then obtain B K where B: "\<And>i. i < length bs \<Longrightarrow> handle_order (Eb i) (bs ! i) o' = Inr (B i)"
    "\<And>i. i < length bs \<Longrightarrow> To_client (rq_cid m) (put_mac (sent_reply (bs ! i) m outb d) (K i)) \<in> set (z_out (B i))"
    "\<And>i. i < length bs \<Longrightarrow> good_reply c ?A (rq_rid m) (put_mac (sent_reply (bs ! i) m outb d) (K i))"
    by metis
  define rs where "rs = put_mac (sent_reply p m outb d) mac # map (\<lambda>i. put_mac (sent_reply (bs ! i) m outb d) (K i)) [0..<length bs]"
  have len: "length rs = Suc (length bs)" by (simp add: rs_def)
  have good: "\<forall>r \<in> set rs. good_reply c ?A (cl_out_rid cl1) r" using h(7) B(3) rdy(5) by (auto simp: rs_def)
  have body: "\<forall>r \<in> set rs. reply_body r = outb" by (auto simp: rs_def sent_reply_fields)
  have match: "\<forall>x \<in> set rs. \<forall>y \<in> set rs. reply_match x y" by (auto simp: rs_def sent_replies_match)
  have "map rp_replica rs = 0 # map (\<lambda>i. int (Suc i)) [0..<length bs]"
    using p(4) bs(2) by (simp add: rs_def sent_reply_fields)
  then have dist: "distinct (map rp_replica rs)" by (simp add: distinct_map inj_on_def image_iff)
  have n: "ce_complete (cl_reps cl1) = int (length rs)" "rs \<noteq> []" using rdy(3) A(5) bs(1) len by (simp_all add: rs_def)
  have "\<exists>r cl2. recv_reply c tv cl1 (map Some qs) = Inr (Some (Some r, cl2, [])) \<and> reply_body r = outb" if "mset qs = mset rs" for qs
    using replies_accepted [OF rdy(1,2,4) n good dist match that, of tv] body by blast
  then show ?thesis
    using h(1,2,6) B(1,2) len by (intro exI [of _ p'] exI [of _ o'] exI [of _ B] exI [of _ rs]) (simp add: rs_def)
qed

definition demo_asker :: zclient where
  "demo_asker = \<lparr>cl_node = demo_node 4, cl_out_rid = 7, cl_out_req = None, cl_n_retrans = 0,
     cl_timers = timer_new 1 0 timers_new 500 0, cl_rtimer = 0, cl_reps = cert_new 4\<rparr>"

lemma demo_asker_sends:
  obtains m cl1 where "send_request demo_crypto 0 0 demo_asker (request_new (demo_node 4) 0 0 [5, 6]) False = Inr (True, [(0, m)], cl1)"
    "rq_cid m = 4" "rq_rid m = 7" "request_command m = [5, 6]" "\<not> is_read_only m" "rq_size m \<le> 1100"
    "\<forall>i < 4. request_verify demo_crypto (demo_node i) m = Inr True"
proof -
  note A = demo_node_facts [of 4, simplified]
  have new: "(request_new (demo_node 4) 0 0 [5, 6])\<lparr>rq_rid := 7\<rparr> = request_new (demo_node 4) 7 0 [5, 6]" by (simp add: request_new_def)
  obtain m A' where m: "request_authenticate demo_crypto (demo_node 4) (request_new (demo_node 4) 7 0 [5, 6]) False 0 = Inr (m, A')"
    "request_command m = [5, 6]" "\<not> is_read_only m" "rq_rid m = 7" "rq_cid m = 4"
    "rq_size m = ALIGNED_SIZE (40 + int (length [5 :: byte, 6]) + (num_replicas (demo_node 4) * 8 + 8))"
    and v: "\<forall>B. node_ok B \<longrightarrow> num_replicas B = num_replicas (demo_node 4) \<longrightarrow> num_principals B = num_principals (demo_node 4) \<longrightarrow>
          node_id B < num_replicas B \<longrightarrow> request_verify demo_crypto B m = Inr True"
    using request_accepted_by_all [OF demo_crypto_ok, of "demo_node 4" "[5, 6]" 7 0 False 0] A by auto
  have "\<forall>i < 4. request_verify demo_crypto (demo_node i) m = Inr True"
    using v demo_node_facts A by simp
  moreover have "rq_size m \<le> 1100" using ALIGNED_SIZE_props [of "40 + 2 + 40"] by (simp add: m(6) A)
  moreover have "primary A' = 0" using request_authenticate_node [OF m(1)] A by (simp add: primary_def)
  ultimately show ?thesis
    using that m new by (simp add: send_request_def demo_asker_def)
qed

theorem request_answered_witness:
  "\<exists>m cl1 p' o' rs r cl2. send_request demo_crypto 0 0 demo_asker (request_new (demo_node 4) 0 0 [5, 6]) False = Inr (True, [(0, m)], cl1) \<and>
     handle_request demo_env (demo_replica 0) m = Inr p' \<and> orders_of (z_out p') = [o'] \<and> length rs = 4 \<and>
     recv_reply demo_crypto 1000 cl1 (map Some (rev rs)) = Inr (Some (Some r, cl2, [])) \<and> reply_body r = [5, 6]"
proof -
  obtain m cl1 where m: "send_request demo_crypto 0 0 demo_asker (request_new (demo_node 4) 0 0 [5, 6]) False = Inr (True, [(0, m)], cl1)"
    "rq_cid m = 4" "rq_rid m = 7" "request_command m = [5, 6]" "\<not> is_read_only m" "rq_size m \<le> 1100"
    "\<forall>i < 4. request_verify demo_crypto (demo_node i) m = Inr True"
    by (rule demo_asker_sends)
  note A = demo_node_facts [of 4, simplified] and f = demo_replica_facts [of 0, simplified] and nd = demo_node_facts [of 0, simplified]
  let ?bs = "map demo_replica [1..<4]"
  have cl: "client_inv demo_crypto {} demo_asker" "node_ok (cl_node demo_asker)" "\<not> is_replica (cl_node demo_asker) (node_id (cl_node demo_asker))"
    "rq_cid (request_new (demo_node 4) 0 0 [5, 6]) = node_id (cl_node demo_asker)"
    using A cert_new_inv by (simp_all add: demo_asker_def client_inv_def is_replica_def request_new_def cert_new_def)
  have p: "node_id (z_node (demo_replica 0)) = 0" "primary (z_node (demo_replica 0)) = 0" "signs demo_crypto (z_node (demo_replica 0))"
    "num_principals (cl_node demo_asker) = num_principals (z_node (demo_replica 0))"
    "num_replicas (cl_node demo_asker) = num_replicas (z_node (demo_replica 0))"
    using f nd A demo_node_signs [of 0] by (simp_all add: primary_def demo_asker_def)
  have ms: "request_verify demo_crypto (z_node (demo_replica 0)) m = Inr True" "fits demo_env (demo_replica 0) m"
    "rp_rid (client_reply (demo_replica 0) (rq_cid m)) < rq_rid m"
    "int Order_request_rep_size + rq_size m + auth_size (z_node (demo_replica 0)) (-1) \<le> zl_Max_message_size"
    "e_exec demo_env (z_service (demo_replica 0)) (request_command m) (rq_cid m) = (1, [5, 6])"
    using m f nd demo_fits [of 0 m]
    by (simp_all add: client_reply_def blank_reply_def auth_size_def Order_request_rep_size_def zl_Max_message_size_def zl_UMAC_size_def zl_UNonce_size_def)
  have bs: "\<forall>i < length ?bs. paired demo_crypto (demo_replica 0) (?bs ! i) \<and> node_id (z_node (?bs ! i)) = int (Suc i) \<and>
      request_verify demo_crypto (z_node (?bs ! i)) m = Inr True \<and> e_exec demo_env = e_exec demo_env \<and> e_mpn demo_env = e_mpn demo_env \<and> e_crypto demo_env = demo_crypto"
    using f nd m(7) demo_replica_facts [of "Suc i" for i] demo_node_facts [of "Suc i" for i] demo_node_signs [of "Suc i" for i]
    by (simp add: paired_def agree_def primary_def nth_upt)
  have "int (length ?bs) + 1 = num_replicas (z_node (demo_replica 0))" using f nd by simp
  from request_answered [OF demo_crypto_ok _ _ cl m(1) f(1,7,8) p ms(1) m(5) ms(2-5) _ this bs, of 1000] school_mpn_ok f(9)
  obtain p' o' rs where "handle_request demo_env (demo_replica 0) m = Inr p'" "orders_of (z_out p') = [o']" "length rs = 4"
    "\<forall>qs. mset qs = mset rs \<longrightarrow> (\<exists>r cl2. recv_reply demo_crypto 1000 cl1 (map Some qs) = Inr (Some (Some r, cl2, [])) \<and> reply_body r = [5, 6])"
    by auto
  then show ?thesis using m(1) mset_rev [of rs] by blast
qed

end
