(* ===== verification/CNode.thy ===== *)
theory CNode
  imports ZNode
begin

section \<open>Authenticators of the chain: \<^verbatim>\<open>chain/C_Node.cc\<close>, \<^verbatim>\<open>chain/C_Cryptography.h\<close>\<close>

text \<open>
  In the chain protocol a request travels from replica 0 to the last replica, and every replica
  authenticates it for the \<open>f + 1\<close> nodes behind it. A message carries the authenticators of the last
  \<open>f + 1\<close> senders, one behind the other: a nonce followed by the tags the sender made for nodes that
  have not seen the message yet. A receiver checks the first tag behind each nonce, removes it by moving
  the rest of the authenticators over it, and puts its own authenticator behind the last one.

  The authenticator is modelled in place: \<open>buf\<close> is the memory from the first authenticator on, as
  far as it may be accessed, and a copy or a move outside is \<open>Out_of_bounds\<close>. Nodes and
  principals are those of the theory \<open>ZNode\<close>: \<^verbatim>\<open>C_Principal.cc\<close> makes and checks the tags of one pair
  of nodes as \<^verbatim>\<open>zl_Principal.cc\<close> does.
\<close>

definition C_UMAC_size :: nat where
  "C_UMAC_size = 8"

definition C_UNonce_size :: nat where
  "C_UNonce_size = 8"

text \<open>\<open>memmove\<close> inside one block of memory. The size is an \<open>int\<close> of the source; a negative one is a huge \<open>size_t\<close>.\<close>

definition memmove_in :: "byte list \<Rightarrow> nat \<Rightarrow> nat \<Rightarrow> int \<Rightarrow> byte list result" where
  "memmove_in buf dst src n =
     (if 0 \<le> n \<and> src + nat n \<le> length buf \<and> dst + nat n \<le> length buf
      then Inr (take dst buf @ take (nat n) (drop src buf) @ drop (dst + nat n) buf)
      else Inl Out_of_bounds)"

definition c_auth_size :: "node \<Rightarrow> int" where
  "c_auth_size nd =
     int C_UMAC_size * ((max_faulty nd + 1) * (max_faulty nd + 2)) div 2 + int C_UNonce_size * (max_faulty nd + 1)"

text \<open>\<open>principals[i]\<close>, a plain array access.\<close>

definition principal_at :: "node \<Rightarrow> int \<Rightarrow> principal result" where
  "principal_at nd i =
     (if 0 \<le> i \<and> i < int (length (principals nd)) then Inr (principals nd ! nat i) else Inl Out_of_bounds)"

text \<open>
  The authenticator of \<open>C_node\<close> over \<open>s\<close>, written at the offset \<open>off\<close>. \<open>rr\<close> is the header of the
  reply, which is authenticated for the client when fewer than \<open>f + 1\<close> replicas follow.
\<close>

definition c_gen_mac_to ::
  "crypto \<Rightarrow> principal \<Rightarrow> byte list \<Rightarrow> int \<Rightarrow> byte list \<Rightarrow> nat \<Rightarrow> int \<Rightarrow> byte list \<Rightarrow> byte list result" where
  "c_gen_mac_to c me s pid ub off j buf =
     rbind (gen_mac c me s (pid + j + 1) ub) (\<lambda>mac. put_bytes buf (off + C_UNonce_size + nat j * C_UMAC_size) mac)"

definition c_gen_auth ::
  "crypto \<Rightarrow> node \<Rightarrow> byte list \<Rightarrow> byte list \<Rightarrow> nat \<Rightarrow> byte list option \<Rightarrow> int \<Rightarrow> int \<Rightarrow> (byte list \<times> node) result" where
  "c_gen_auth c nd s buf off rr pid cid =
     (let u = umac_nonce nd + 1; ub = u64_bytes u; nb = min (max_faulty nd + 1) (num_replicas nd - (pid + 1)) in
      rbind (principal_at nd (node_id nd)) (\<lambda>me.
      rbind (put_bytes buf off ub) (\<lambda>b1.
      rbind (for_loop (\<lambda>b j. c_gen_mac_to c me s pid ub off j b) [0..nb - 1] b1) (\<lambda>b2.
      rbind (if nb < max_faulty nd + 1
             then (case rr of
                     None \<Rightarrow> Inl Null_deref
                   | Some r \<Rightarrow> rbind (gen_mac c me r cid ub) (\<lambda>mac.
                                put_bytes b2 (off + C_UNonce_size + nat nb * C_UMAC_size) mac))
             else Inr b2) (\<lambda>b3.
      Inr (b3, nd\<lparr>umac_nonce := u\<rparr>))))))"

text \<open>The tag behind the nonce at the offset \<open>dest\<close>, checked as one of the principal \<open>i\<close>.\<close>

definition c_check_mac :: "crypto \<Rightarrow> node \<Rightarrow> int \<Rightarrow> byte list \<Rightarrow> byte list \<Rightarrow> nat \<Rightarrow> bool result" where
  "c_check_mac c nd i s buf dest =
     rbind (read_bytes buf dest C_UNonce_size) (\<lambda>unonce.
     rbind (principal_at nd i) (\<lambda>p.
     rbind (read_bytes buf (dest + C_UNonce_size) C_UMAC_size) (\<lambda>mac.
     verify_mac c (node_id nd) p s mac unonce)))"

text \<open>
  The result is the returned boolean, the memory and the new value of \<open>*authentication_offset\<close>.
\<close>

definition c_verify_auth_from_client ::
  "crypto \<Rightarrow> node \<Rightarrow> int \<Rightarrow> byte list \<Rightarrow> byte list \<Rightarrow> nat \<Rightarrow> (bool \<times> byte list \<times> nat) result" where
  "c_verify_auth_from_client c nd cid s buf aoff =
     (if node_id nd > num_replicas nd then Inr (True, buf, aoff)
      else if node_id nd > max_faulty nd then Inr (True, buf, aoff)
      else
        let i = node_id nd + 1; remaining = c_auth_size nd in
        rbind (c_check_mac c nd cid s buf 0) (\<lambda>ok.
        if \<not> ok then Inr (False, buf, aoff)
        else
          let nb = min (max_faulty nd + 2 - i) (num_replicas nd - node_id nd + 1) in
          if nb = 1
          then rbind (memmove_in buf 0 (C_UNonce_size + C_UMAC_size) (remaining - int (C_UNonce_size + C_UMAC_size)))
                 (\<lambda>b. Inr (True, b, 0))
          else rbind (memmove_in buf C_UNonce_size (C_UNonce_size + C_UMAC_size)
                        (remaining - int (C_UNonce_size + C_UMAC_size)))
                 (\<lambda>b. Inr (True, b, C_UNonce_size + nat (nb - 1) * C_UMAC_size))))"

text \<open>
  The loop over the senders \<open>n_id - i\<close>, for \<open>i\<close> down to 1. The sender before replica 0 is the client,
  whose tag has been checked by \<open>verify_auth_from_client\<close>.
\<close>

fun c_verify_loop ::
  "crypto \<Rightarrow> node \<Rightarrow> int \<Rightarrow> int \<Rightarrow> byte list \<Rightarrow> nat \<Rightarrow> byte list \<Rightarrow> nat \<Rightarrow> int \<Rightarrow> (bool \<times> byte list \<times> nat) result" where
  "c_verify_loop c nd n_id cid s 0 buf dest remaining = Inr (True, buf, dest)"
| "c_verify_loop c nd n_id cid s (Suc k) buf dest remaining =
     (let i = int (Suc k); p_id = (if n_id - i < 0 then cid else n_id - i) in
      rbind (if p_id \<noteq> cid then c_check_mac c nd p_id s buf dest else Inr True) (\<lambda>ok.
      if \<not> ok then Inr (False, buf, dest)
      else
        let nb = min (max_faulty nd + 2 - i) (num_replicas nd - n_id + 1) in
        if nb = 1
        then let remaining' = remaining - int (C_UNonce_size + C_UMAC_size) in
             rbind (if p_id \<noteq> cid then memmove_in buf dest (dest + C_UNonce_size + C_UMAC_size) remaining' else Inr buf) (\<lambda>b.
             c_verify_loop c nd n_id cid s k b dest remaining')
        else
          rbind (memmove_in buf (dest + C_UNonce_size) (dest + C_UNonce_size + C_UMAC_size)
                   (remaining - int (C_UNonce_size + C_UMAC_size))) (\<lambda>b.
          if p_id \<noteq> cid
          then c_verify_loop c nd n_id cid s k b (dest + C_UNonce_size + nat (nb - 1) * C_UMAC_size)
                 (remaining - (int C_UNonce_size + (nb - 1) * int C_UMAC_size))
          else c_verify_loop c nd n_id cid s k b dest remaining)))"

definition c_verify_auth ::
  "crypto \<Rightarrow> node \<Rightarrow> int \<Rightarrow> int \<Rightarrow> byte list \<Rightarrow> byte list \<Rightarrow> nat \<Rightarrow> (bool \<times> byte list \<times> nat) result" where
  "c_verify_auth c nd n_id cid s buf aoff =
     (let i = min (max_faulty nd + 1) (n_id + 1);
          remaining = (if n_id < num_replicas nd then c_auth_size nd
                       else (max_faulty nd + 1) * int (C_UNonce_size + C_UMAC_size)) in
      rbind (c_verify_loop c nd n_id cid s (nat i) buf aoff remaining) (\<lambda>(ok, b, dest).
      Inr (ok, b, if ok then dest else aoff)))"

subsection \<open>Tags\<close>

lemma principal_at_ok:
  assumes "node_ok nd" "0 \<le> i" "i < num_principals nd"
  obtains p where "principal_at nd i = Inr p" "principal_ok (node_id nd) (num_principals nd) (nat i) p"
proof -
  have "i < int (length (principals nd))" using assms by (simp add: node_ok_def)
  then have "nat i < length (principals nd)" using assms(2) by simp
  then have "principal_ok (node_id nd) (num_principals nd) (nat i) (principals nd ! nat i)"
    using assms(1) unfolding node_ok_def by blast
  then show ?thesis using that assms(2) \<open>i < int (length (principals nd))\<close> by (simp add: principal_at_def)
qed

text \<open>The first tag of an authenticator is accepted iff it is the one that the principal \<open>i\<close> makes for this node.\<close>

lemma c_check_mac_eq:
  assumes "crypto_ok c" "node_ok nd" "0 \<le> i" "i < num_principals nd" "i \<noteq> node_id nd" "length N = 8" "length M = 8"
  shows "c_check_mac c nd i s (P @ N @ M @ R) (length P) = Inr (M = cr_umac c (chan_key i (node_id nd)) s N)"
proof -
  obtain p where "principal_at nd i = Inr p" "principal_ok (node_id nd) (num_principals nd) (nat i) p"
    using principal_at_ok assms(2-4) by blast
  moreover have "take 8 (cr_umac c k s N) = cr_umac c k s N" for k
    using assms(1) by (simp add: crypto_ok_def zl_UMAC_size_def)
  ultimately show ?thesis
    using assms by (auto simp: c_check_mac_def read_bytes_def C_UNonce_size_def C_UMAC_size_def verify_mac_other zl_UMAC_size_def)
qed

lemmas c_check_mac_first = c_check_mac_eq [where P = "[]", simplified]

subsection \<open>Four replicas\<close>

text \<open>
  With \<open>f = 1\<close> the authenticators are five blocks of eight bytes. The following lemmas are the moves of
  \<open>verify_auth\<close> on them, at the head of the chain, at the other replicas and at the client, and the authenticator
  that a node adds.
\<close>

definition block :: "byte list \<Rightarrow> bool" where
  "block b \<longleftrightarrow> length b = 8"

lemma blockD: "block b \<Longrightarrow> length b = 8"
  by (simp add: block_def)

lemma c_auth_size_f1: "max_faulty nd = 1 \<Longrightarrow> c_auth_size nd = 40"
  by (simp add: c_auth_size_def C_UMAC_size_def C_UNonce_size_def)

lemma head_checks_client:
  assumes "crypto_ok c" "node_ok nd" "max_faulty nd = 1" "node_id nd = 0" "0 < cid" "cid < num_principals nd"
    and b: "block N" "block M" "block X" "block Y" "block Z"
    and M: "M = cr_umac c (chan_key cid 0) s N"
  shows "c_verify_auth_from_client c nd cid s (N @ M @ X @ Y @ Z @ R) a = Inr (True, N @ X @ Y @ Z @ Z @ R, 16)"
proof -
  have "c_check_mac c nd cid s (N @ M @ X @ Y @ Z @ R) 0 = Inr True"
    using c_check_mac_first [of c nd cid N M s] assms by (auto dest: blockD)
  then show ?thesis
    using assms(2-4) b [THEN blockD]
    by (simp add: c_verify_auth_from_client_def c_auth_size_f1 memmove_in_def C_UNonce_size_def C_UMAC_size_def node_ok_def Let_def)
qed

lemma head_moves:
  assumes "node_ok nd" "max_faulty nd = 1" "node_id nd = 0" "0 < cid"
    and b: "block N" "block X" "block Y" "block Z" "block Z'" "block U" "block V"
  shows "c_verify_auth c nd 0 cid s (N @ X @ Y @ Z @ Z' @ U @ V @ R) 16 = Inr (True, N @ X @ Y @ Z' @ U @ V @ V @ R, 16)"
  using assms(1-4) b [THEN blockD]
  by (simp add: c_verify_auth_def c_auth_size_f1 memmove_in_def C_UNonce_size_def C_UMAC_size_def node_ok_def Let_def)

lemma second_checks_client:
  assumes "crypto_ok c" "node_ok nd" "max_faulty nd = 1" "node_id nd = 1" "1 < cid" "cid < num_principals nd"
    and b: "block N" "block M" "block X" "block Y" "block Z"
    and M: "M = cr_umac c (chan_key cid 1) s N"
  shows "c_verify_auth_from_client c nd cid s (N @ M @ X @ Y @ Z @ R) a = Inr (True, X @ Y @ Z @ Y @ Z @ R, 0)"
proof -
  have "c_check_mac c nd cid s (N @ M @ X @ Y @ Z @ R) 0 = Inr True"
    using c_check_mac_first [of c nd cid N M s] assms by (auto dest: blockD)
  then show ?thesis
    using assms(2-4) b [THEN blockD]
    by (simp add: c_verify_auth_from_client_def c_auth_size_f1 memmove_in_def C_UNonce_size_def C_UMAC_size_def node_ok_def Let_def)
qed

lemma rest_skip_client:
  "node_id nd > max_faulty nd \<Longrightarrow> c_verify_auth_from_client c nd cid s buf a = Inr (True, buf, a)"
  by (simp add: c_verify_auth_from_client_def)

text \<open>The step for the direct predecessor, which replicas 1, 2 and 3 share.\<close>

lemma loop_predecessor:
  assumes "crypto_ok c" "node_ok nd" "max_faulty nd = 1" "1 \<le> node_id nd" "node_id nd \<le> 3" "3 < cid"
    and b: "block X" "block Y" "block Z"
    and Y: "Y = cr_umac c (chan_key (node_id nd - 1) (node_id nd)) s X"
  shows "c_verify_loop c nd (node_id nd) cid s 1 (X @ Y @ Z @ R) 0 24 = Inr (True, X @ Z @ Z @ R, 16)"
proof -
  have "c_check_mac c nd (node_id nd - 1) s (X @ Y @ Z @ R) 0 = Inr True"
    using c_check_mac_first [of c nd "node_id nd - 1" X Y s] assms by (auto simp: node_ok_def dest: blockD)
  moreover have "num_replicas nd = 4" using assms(2,3) by (simp add: node_ok_def)
  ultimately show ?thesis
    using assms(3-6) b [THEN blockD] by (simp add: memmove_in_def C_UNonce_size_def C_UMAC_size_def Let_def)
qed

lemma loop_one_unfold:
  "c_verify_loop c nd n_id cid s 2 buf dest r = c_verify_loop c nd n_id cid s (Suc 1) buf dest r"
  by (simp only: Suc_1)

lemma second_moves:
  assumes "crypto_ok c" "node_ok nd" "max_faulty nd = 1" "node_id nd = 1" "3 < cid"
    and b: "block X" "block Y" "block Z"
    and Y: "Y = cr_umac c (chan_key 0 1) s X"
  shows "c_verify_auth c nd 1 cid s (X @ Y @ Z @ R) 0 = Inr (True, X @ Z @ Z @ R, 16)"
proof -
  have "c_verify_loop c nd 1 cid s 2 (X @ Y @ Z @ R) 0 40 = c_verify_loop c nd 1 cid s 1 (X @ Y @ Z @ R) 0 24"
    using assms(2-5) unfolding loop_one_unfold c_verify_loop.simps(2)
    by (simp add: node_ok_def C_UNonce_size_def C_UMAC_size_def Let_def)
  then show ?thesis
    using loop_predecessor [of c nd cid X Y Z s R] assms
    by (simp add: c_verify_auth_def c_auth_size_f1 node_ok_def)
qed

lemma rest_moves:
  assumes "crypto_ok c" "node_ok nd" "max_faulty nd = 1" "2 \<le> node_id nd" "node_id nd \<le> 3" "3 < cid"
    and b: "block N" "block M" "block X" "block Y" "block Z"
    and M: "M = cr_umac c (chan_key (node_id nd - 2) (node_id nd)) s N"
    and Y: "Y = cr_umac c (chan_key (node_id nd - 1) (node_id nd)) s X"
  shows "c_verify_auth c nd (node_id nd) cid s (N @ M @ X @ Y @ Z @ R) 0 = Inr (True, X @ Z @ Z @ Y @ Z @ R, 16)"
proof -
  let ?k = "node_id nd"
  have "c_check_mac c nd (?k - 2) s (N @ M @ X @ Y @ Z @ R) 0 = Inr True"
    using c_check_mac_first [of c nd "?k - 2" N M s] assms by (auto simp: node_ok_def dest: blockD)
  then have "c_verify_loop c nd ?k cid s 2 (N @ M @ X @ Y @ Z @ R) 0 40 =
      c_verify_loop c nd ?k cid s 1 (X @ Y @ Z @ Y @ Z @ R) 0 24"
    using assms(2-6) b [THEN blockD] unfolding loop_one_unfold c_verify_loop.simps(2)
    by (simp add: node_ok_def C_UNonce_size_def C_UMAC_size_def memmove_in_def Let_def)
  then show ?thesis
    using loop_predecessor [of c nd cid X Y Z s "Y @ Z @ R"] assms
    by (simp add: c_verify_auth_def c_auth_size_f1 node_ok_def)
qed

text \<open>The authenticator of a reply, made by the last two replicas, at the client.\<close>

lemma client_checks_reply:
  assumes "crypto_ok c" "node_ok nd" "max_faulty nd = 1" "4 \<le> node_id nd"
    and b: "block N" "block M" "block X" "block Y"
    and M: "M = cr_umac c (chan_key 2 (node_id nd)) s N"
    and Y: "Y = cr_umac c (chan_key 3 (node_id nd)) s X"
  shows "\<exists>b'. c_verify_auth c nd 4 0 s (N @ M @ X @ Y @ R) 0 = Inr (True, b', 0)"
proof -
  have n: "num_replicas nd = 4" "4 \<le> num_principals nd" using assms(2,3) by (simp_all add: node_ok_def)
  have 2: "c_check_mac c nd 2 s (N @ M @ X @ Y @ R) 0 = Inr True"
    using c_check_mac_first [of c nd 2 N M s] assms n by (auto dest: blockD)
  have 1: "c_check_mac c nd 3 s (X @ Y @ X @ Y @ R) 0 = Inr True"
    using c_check_mac_first [of c nd 3 X Y s] assms n by (auto dest: blockD)
  have "c_verify_loop c nd 4 0 s 2 (N @ M @ X @ Y @ R) 0 32 = c_verify_loop c nd 4 0 s 1 (X @ Y @ X @ Y @ R) 0 16"
    using 2 n assms(3) b [THEN blockD] unfolding loop_one_unfold c_verify_loop.simps(2)
    by (simp add: C_UNonce_size_def C_UMAC_size_def memmove_in_def Let_def)
  moreover have "\<exists>b'. c_verify_loop c nd 4 0 s 1 (X @ Y @ X @ Y @ R) 0 16 = Inr (True, b', 0)"
    using 1 n assms(3) b [THEN blockD] by (simp add: C_UNonce_size_def C_UMAC_size_def memmove_in_def Let_def)
  ultimately show ?thesis using n assms(3) by (auto simp: c_verify_auth_def C_UNonce_size_def C_UMAC_size_def)
qed

subsection \<open>The authenticator a node adds\<close>

definition c_nonce :: "node \<Rightarrow> byte list" where
  "c_nonce nd = u64_bytes (umac_nonce nd + 1)"

definition c_tag :: "crypto \<Rightarrow> node \<Rightarrow> byte list \<Rightarrow> int \<Rightarrow> byte list" where
  "c_tag c nd s j = cr_umac c (chan_key (node_id nd) j) s (c_nonce nd)"

lemma block_nonce [simp]: "block (c_nonce nd)"
  by (simp add: block_def c_nonce_def)

lemma block_tag [simp]: "crypto_ok c \<Longrightarrow> block (c_tag c nd s j)"
  by (simp add: block_def c_tag_def crypto_ok_def zl_UMAC_size_def)

lemma put_bytes_at:
  "length A = length B \<Longrightarrow> off = length P \<Longrightarrow> put_bytes (P @ A @ R) off B = Inr (P @ B @ R)"
  by (simp add: put_bytes_def)

lemma put_block:
  assumes "block A" "block B" "off = length P"
  shows "put_bytes (P @ A @ R) off B = Inr (P @ B @ R)"
  using assms by (simp add: put_bytes_at block_def)

lemma own_principal:
  assumes "node_ok nd"
  obtains p where "principal_at nd (node_id nd) = Inr p"
    "\<And>c s j. 0 \<le> j \<Longrightarrow> j < num_principals nd \<Longrightarrow> gen_mac c p s j (c_nonce nd) = Inr (c_tag c nd s j)"
proof -
  obtain p where p: "principal_at nd (node_id nd) = Inr p"
      "principal_ok (node_id nd) (num_principals nd) (nat (node_id nd)) p"
    using principal_at_ok [of nd "node_id nd"] assms by (auto simp: node_ok_def)
  have "gen_mac c p s j (c_nonce nd) = Inr (c_tag c nd s j)" if "0 \<le> j" "j < num_principals nd" for c s j
    using that p(2) assms by (simp add: gen_mac_own c_tag_def node_ok_def)
  then show ?thesis using that p(1) by blast
qed

lemma put_block2:
  assumes "block A" "block B" "block C" "off = length P + 8"
  shows "put_bytes (P @ A @ B @ R) off C = Inr (P @ A @ C @ R)"
  using put_block [of B C off "P @ A" R] assms by (simp add: block_def)

lemma put_block3:
  assumes "block A" "block B" "block C" "block D" "off = length P + 16"
  shows "put_bytes (P @ A @ B @ C @ R) off D = Inr (P @ A @ B @ D @ R)"
  using put_block [of C D off "P @ A @ B" R] assms by (simp add: block_def)

lemmas c_gen_auth_simps = c_gen_auth_def c_gen_mac_to_def C_UNonce_size_def C_UMAC_size_def c_nonce_def [symmetric] Let_def

lemma gen_auth_two:
  assumes "crypto_ok c" "node_ok nd" "max_faulty nd = 1" "-1 \<le> pid" "pid \<le> 1"
    and b: "block A" "block B" "block C"
  shows "c_gen_auth c nd s (P @ A @ B @ C @ R) (length P) rr pid cid =
     Inr (P @ c_nonce nd @ c_tag c nd s (pid + 1) @ c_tag c nd s (pid + 2) @ R, nd\<lparr>umac_nonce := umac_nonce nd + 1\<rparr>)"
proof -
  have n: "num_replicas nd = 4" "4 \<le> num_principals nd" using assms(2,3) by (simp_all add: node_ok_def)
  obtain p where p: "principal_at nd (node_id nd) = Inr p"
    "\<And>c s j. 0 \<le> j \<Longrightarrow> j < num_principals nd \<Longrightarrow> gen_mac c p s j (c_nonce nd) = Inr (c_tag c nd s j)"
    using own_principal [OF assms(2)] by blast
  have nb: "min (1 + 1) (4 - (pid + 1)) = 2" using assms(4,5) by simp
  have "[0..1 :: int] = [0, 1]" by (simp add: upto_rec1)
  then show ?thesis
    using assms n p b
    by (simp add: c_gen_auth_simps nb put_block put_block2 put_block3 add.commute [of 2])
qed

lemma gen_auth_one:
  assumes "crypto_ok c" "node_ok nd" "max_faulty nd = 1" "0 \<le> cid" "cid < num_principals nd"
    and b: "block A" "block B" "block C"
  shows "c_gen_auth c nd s (P @ A @ B @ C @ R) (length P) (Some r) 2 cid =
     Inr (P @ c_nonce nd @ c_tag c nd s 3 @ c_tag c nd r cid @ R, nd\<lparr>umac_nonce := umac_nonce nd + 1\<rparr>)"
proof -
  have n: "num_replicas nd = 4" "4 \<le> num_principals nd" using assms(2,3) by (simp_all add: node_ok_def)
  obtain p where p: "principal_at nd (node_id nd) = Inr p"
    "\<And>c s j. 0 \<le> j \<Longrightarrow> j < num_principals nd \<Longrightarrow> gen_mac c p s j (c_nonce nd) = Inr (c_tag c nd s j)"
    using own_principal [OF assms(2)] by blast
  show ?thesis
    using assms n p b by (simp add: c_gen_auth_simps put_block put_block2 put_block3 add.commute [of 2])
qed

lemma gen_auth_none:
  assumes "crypto_ok c" "node_ok nd" "max_faulty nd = 1" "0 \<le> cid" "cid < num_principals nd"
    and b: "block A" "block B"
  shows "c_gen_auth c nd s (P @ A @ B @ R) (length P) (Some r) 3 cid =
     Inr (P @ c_nonce nd @ c_tag c nd r cid @ R, nd\<lparr>umac_nonce := umac_nonce nd + 1\<rparr>)"
proof -
  have n: "num_replicas nd = 4" "4 \<le> num_principals nd" using assms(2,3) by (simp_all add: node_ok_def)
  obtain p where p: "principal_at nd (node_id nd) = Inr p"
    "\<And>c s j. 0 \<le> j \<Longrightarrow> j < num_principals nd \<Longrightarrow> gen_mac c p s j (c_nonce nd) = Inr (c_tag c nd s j)"
    using own_principal [OF assms(2)] by blast
  show ?thesis
    using assms n p b by (simp add: c_gen_auth_simps put_block put_block2)
qed

end
