(* ===== verification/CRequests.thy ===== *)
theory CRequests
  imports CNode ZRequests
begin

section \<open>Requests and replies of the chain: \<^verbatim>\<open>chain/C_Request.cc\<close>, \<^verbatim>\<open>chain/C_Reply.cc\<close>, \<^verbatim>\<open>chain/C_Message.h\<close>\<close>

text \<open>
  A message is a record of its header fields and the memory behind the header as far as it may
  be accessed: the command or the reply, the authenticators, the padding and what lies behind. Memory
  the code does not initialise is an argument of the constructors. The header of a request has 52 bytes
  and that of a reply 88 in the 32-bit build; tags cover the bytes of the header.
\<close>

definition C_Max_message_size :: int where "C_Max_message_size = 60000"

definition C_Request_tag :: int where "C_Request_tag = 1"

definition C_Reply_tag :: int where "C_Reply_tag = 2"

definition C_Request_rep_size :: nat where "C_Request_rep_size = 52"

definition C_Reply_rep_size :: nat where "C_Reply_rep_size = 88"

subsection \<open>\<open>C_Request\<close>\<close>

record crequest =
  cq_extra :: int
  cq_size :: int
  cq_listnum :: int
  cq_pad :: "byte list"
  cq_od :: digest
  cq_seq_num :: seqno
  cq_command_size :: int
  cq_cid :: int
  cq_rid :: request_id
  cq_tail :: "byte list"

definition c_request_rep_bytes :: "crequest \<Rightarrow> byte list" where
  "c_request_rep_bytes r =
     rep_header C_Request_tag (cq_extra r) (cq_size r) @ short_bytes (cq_listnum r) @ cq_pad r @ digest_bytes (cq_od r) @
     u64_bytes (of_int (cq_seq_num r)) @ short_bytes (cq_command_size r) @ short_bytes (cq_cid r) @ u64_bytes (cq_rid r)"

definition c_msize :: "crequest \<Rightarrow> int" where
  "c_msize r = int (C_Request_rep_size + length (cq_tail r))"

definition c_set_size :: "crequest \<Rightarrow> int \<Rightarrow> crequest result" where
  "c_set_size r n =
     (let al = ALIGNED_SIZE n; k = nat n - C_Request_rep_size; k' = nat al - C_Request_rep_size in
      rbind (th_assert (al \<le> c_msize r)) (\<lambda>_.
      Inr (r\<lparr>cq_size := al, cq_tail := take k (cq_tail r) @ replicate (k' - k) 0 @ drop k' (cq_tail r)\<rparr>)))"

text \<open>\<open>mem\<close> is the allocated memory behind the header.\<close>

definition c_request_new :: "node \<Rightarrow> request_id \<Rightarrow> int \<Rightarrow> byte list \<Rightarrow> digest \<Rightarrow> byte list \<Rightarrow> crequest result" where
  "c_request_new nd r listnum pad od mem =
     c_set_size \<lparr>cq_extra = 0, cq_size = C_Max_message_size, cq_listnum = listnum, cq_pad = pad, cq_od = od, cq_seq_num = 0,
                 cq_command_size = 0, cq_cid = short_of (node_id nd), cq_rid = r, cq_tail = mem\<rparr> (int C_Request_rep_size)"

text \<open>The caller writes its command into the memory that \<open>store_command\<close> returns.\<close>

definition c_store_command :: "crequest \<Rightarrow> byte list \<Rightarrow> crequest result" where
  "c_store_command r cmd = rbind (put_bytes (cq_tail r) 0 cmd) (\<lambda>t. Inr (r\<lparr>cq_tail := t\<rparr>))"

definition c_is_read_only :: "crequest \<Rightarrow> bool" where
  "c_is_read_only r \<longleftrightarrow> odd (cq_extra r)"

definition c_command :: "crequest \<Rightarrow> byte list" where
  "c_command r = take (nat (cq_command_size r)) (cq_tail r)"

text \<open>The digest starts at the field \<open>cid\<close>.\<close>

definition c_comp_digest :: "crequest \<Rightarrow> digest result" where
  "c_comp_digest r =
     rbind (read_bytes (short_bytes (cq_cid r) @ u64_bytes (cq_rid r) @ cq_tail r) 0 (2 + 8 + nat (cq_command_size r))) (\<lambda>bs.
     Inr (Digest_of bs))"

definition c_finalize :: "node \<Rightarrow> crequest \<Rightarrow> int \<Rightarrow> bool \<Rightarrow> crequest result" where
  "c_finalize nd r act_len read_only =
     rbind (th_assert (wrap32 act_len \<le> wrap32 (c_msize r - int C_Request_rep_size - c_auth_size nd))) (\<lambda>_.
     let e = (if odd (cq_extra r) then cq_extra r - 1 else cq_extra r);
         r1 = r\<lparr>cq_extra := (if read_only then e + 1 else e), cq_command_size := act_len mod 65536\<rparr> in
     rbind (c_comp_digest r1) (\<lambda>d.
     c_set_size (r1\<lparr>cq_od := d\<rparr>) (int C_Request_rep_size + act_len + c_auth_size nd)))"

text \<open>The memory from the authenticators on, \<open>MACs()\<close>.\<close>

definition c_macs :: "crequest \<Rightarrow> byte list" where
  "c_macs r = drop (nat (cq_command_size r)) (cq_tail r)"

definition c_set_macs :: "crequest \<Rightarrow> byte list \<Rightarrow> crequest" where
  "c_set_macs r b = r\<lparr>cq_tail := c_command r @ b\<rparr>"

definition c_authenticate ::
  "crypto \<Rightarrow> node \<Rightarrow> crequest \<Rightarrow> int \<Rightarrow> nat \<Rightarrow> byte list option \<Rightarrow> (crequest \<times> node) result" where
  "c_authenticate c nd r pid aoff rr =
     rbind (c_gen_auth c nd (c_request_rep_bytes (r\<lparr>cq_listnum := 0\<rparr>)) (c_macs r) aoff rr pid (cq_cid r)) (\<lambda>(b, nd').
     Inr (c_set_macs r b, nd'))"

text \<open>
  \<open>verify\<close> returns the request as it leaves it. The digest is compared before the authenticators;
  the client authenticates the request without sequence number.
\<close>

definition c_verify :: "crypto \<Rightarrow> node \<Rightarrow> crequest \<Rightarrow> nat \<Rightarrow> (bool \<times> crequest \<times> nat) result" where
  "c_verify c nd r aoff =
     (let r0 = r\<lparr>cq_listnum := 0\<rparr> in
      rbind (c_comp_digest r0) (\<lambda>d.
      if d \<noteq> cq_od r0 then Inr (False, r0, aoff)
      else
        let r1 = r0\<lparr>cq_seq_num := 0\<rparr> in
        rbind (c_verify_auth_from_client c nd (cq_cid r1) (c_request_rep_bytes r1) (c_macs r1) aoff) (\<lambda>(ok, b, a1).
        if \<not> ok then Inr (False, c_set_macs r1 b, a1)
        else
          let r2 = (c_set_macs r1 b)\<lparr>cq_seq_num := cq_seq_num r\<rparr> in
          rbind (c_verify_auth c nd (node_id nd) (cq_cid r2) (c_request_rep_bytes r2) (c_macs r2) a1) (\<lambda>(ok', b', a2).
          Inr (ok', if ok' then (c_set_macs r2 b')\<lparr>cq_listnum := cq_listnum r\<rparr> else c_set_macs r2 b', a2)))))"

text \<open>
  What is sent are the first \<open>size\<close> bytes. \<open>recv\<close> puts them into a buffer of \<open>C_Max_message_size\<close> bytes, which it
  reallocates for a larger message; \<open>mem\<close> is the contents of the buffer. \<open>convert\<close> copies the bytes into a
  new message of \<open>C_Max_message_size\<close> bytes without comparing the sizes, and trims it; \<open>slack\<close> is the memory behind the
  trimmed block that can still be accessed.
\<close>

definition c_sent :: "crequest \<Rightarrow> crequest" where
  "c_sent r = r\<lparr>cq_tail := take (nat (cq_size r) - C_Request_rep_size) (cq_tail r)\<rparr>"

definition c_recv :: "byte list \<Rightarrow> crequest \<Rightarrow> crequest" where
  "c_recv mem r = r\<lparr>cq_tail := cq_tail r @ drop (length (cq_tail r)) mem\<rparr>"

definition c_convert :: "byte list \<Rightarrow> crequest \<Rightarrow> crequest option result" where
  "c_convert slack m =
     (if cq_size m < int C_Request_rep_size \<or> \<not> ALIGNED (cq_size m) then Inr None
      else if cq_size m > C_Max_message_size then Inl Out_of_bounds
      else Inr (Some (m\<lparr>cq_tail := take (nat (cq_size m) - C_Request_rep_size) (cq_tail m) @ slack\<rparr>)))"

subsection \<open>\<open>C_Reply\<close>\<close>

text \<open>\<open>cy_seq_num\<close> is a member of the class and not part of the message.\<close>

record creply =
  cy_extra :: int
  cy_size :: int
  cy_head :: "byte list"
  cy_v :: int
  cy_rid :: request_id
  cy_rh_digest :: digest
  cy_digest :: digest
  cy_replica :: int
  cy_reply_size :: int
  cy_cid :: int
  cy_should_switch :: bool
  cy_instance :: int
  cy_unused :: "byte list"
  cy_tail :: "byte list"
  cy_seq_num :: seqno

definition c_reply_rep_bytes :: "creply \<Rightarrow> byte list" where
  "c_reply_rep_bytes y =
     rep_header C_Reply_tag (cy_extra y) (cy_size y) @ cy_head y @ u64_bytes (of_int (cy_v y)) @ u64_bytes (cy_rid y) @
     digest_bytes (cy_rh_digest y) @ digest_bytes (cy_digest y) @ int32_bytes (cy_replica y) @ int32_bytes (cy_reply_size y) @
     int32_bytes (cy_cid y) @ [if cy_should_switch y then 1 else 0] @ replicate 3 0 @ int32_bytes (cy_instance y) @ cy_unused y"

definition c_reply_macs_size :: "node \<Rightarrow> nat" where
  "c_reply_macs_size nd = nat ((max_faulty nd + 1) * int (C_UNonce_size + C_UMAC_size))"

definition c_reply_body :: "creply \<Rightarrow> byte list" where
  "c_reply_body y = take (nat (cy_reply_size y)) (cy_tail y)"

definition c_set_instance_id :: "creply \<Rightarrow> protocols_e \<Rightarrow> creply" where
  "c_set_instance_id y p = y\<lparr>cy_should_switch := True, cy_instance := protocol_number p\<rparr>"

definition c_reset_switch :: "creply \<Rightarrow> creply" where
  "c_reset_switch y = y\<lparr>cy_should_switch := False, cy_instance := protocol_number chain\<rparr>"

text \<open>The result of \<open>verify_auth\<close> is not used; its moves change the memory behind the reply.\<close>

definition c_reply_verify :: "crypto \<Rightarrow> node \<Rightarrow> creply \<Rightarrow> (bool \<times> creply) result" where
  "c_reply_verify c nd y =
     (if \<not> is_replica nd (cy_replica y) then Inr (False, y)
      else
        let rep_size = cy_reply_size y in
        if cy_size y - int C_Reply_rep_size - rep_size < int (c_reply_macs_size nd) then Inr (False, y)
        else
          rbind (read_bytes (cy_tail y) 0 (nat (wrap32 rep_size))) (\<lambda>bs.
          if Digest_of bs \<noteq> cy_digest y then Inr (False, y)
          else
            rbind (c_verify_auth c nd (num_replicas nd) (cy_replica y) (c_reply_rep_bytes y) (drop (nat rep_size) (cy_tail y)) 0)
              (\<lambda>(_, b, _). Inr (True, y\<lparr>cy_tail := c_reply_body y @ b\<rparr>))))"

definition c_reply_sent :: "creply \<Rightarrow> creply" where
  "c_reply_sent y = y\<lparr>cy_tail := take (nat (cy_size y) - C_Reply_rep_size) (cy_tail y)\<rparr>"

definition c_reply_convert :: "byte list \<Rightarrow> creply \<Rightarrow> creply option result" where
  "c_reply_convert slack y =
     (if cy_size y < int C_Reply_rep_size \<or> \<not> ALIGNED (cy_size y) then Inr None
      else if cy_size y > C_Max_message_size then Inl Out_of_bounds
      else Inr (Some (y\<lparr>cy_tail := take (nat (cy_size y) - C_Reply_rep_size) (cy_tail y) @ slack\<rparr>)))"

text \<open>A message that is larger than the buffer of the new message overwrites the memory behind it.\<close>

lemma oversized_request:
  "C_Max_message_size < cq_size m \<Longrightarrow> ALIGNED (cq_size m) \<Longrightarrow> c_convert slack (c_recv mem m) = Inl Out_of_bounds"
  by (simp add: c_convert_def c_recv_def C_Max_message_size_def C_Request_rep_size_def)

end
