(* ===== verification/CReplica.thy ===== *)
theory CReplica
  imports CRequests ZReplica
begin

section \<open>The chain replica: \<^verbatim>\<open>chain/C_Replica.cc\<close>, \<^verbatim>\<open>chain/C_Rep_info.cc\<close>\<close>

text \<open>
  The path of a request through a replica: the stored replies (\<open>C_Rep_info\<close>), the handlers of
  requests and of client notifications, and the execution of a request. The first replica numbers
  the requests, the others accept the next number only; every replica executes the request and passes
  it on, the last one sends the reply. A copy of every executed request is appended to
  \<open>robust_messages_queue\<close> for the thread that maintains the history; the requests in this queue are
  \<open>c_robust_queue\<close>.

  The mutex \<open>checkpointing_mutex\<close> is a flag, and what the handlers send is appended to \<open>c_out\<close>.
  The array \<open>connectlist\<close> maps a client's slot to a socket, 0 for none. The environment and the states of a
  replica are those of the theory \<open>ZReplica\<close>.
\<close>

datatype c_output =
    C_Forward crequest
  | C_Send_reply int creply
  | C_Monitor_req int request_id
  | C_Monitor_req_notif int request_id
  | C_Monitor_rep_notif int

record 'st creplica =
  c_node :: node
  c_seqno :: seqno
  c_last_seqno :: seqno
  c_req_count_switch :: u32
  c_replies :: "creply list"
  c_connectlist :: "int list"
  c_cur_state :: replica_state
  c_checkpoint_in_progress :: bool
  c_current_nb_requests :: int
  c_pending_requests :: "(seqno \<times> crequest) list"
  c_primary_pending :: "crequest list"
  c_checkpointing_mutex :: bool
  c_timers :: timers
  c_ctimer :: nat
  c_ftimer :: nat
  c_robust_queue :: "crequest list"
  c_nb_sent_replies :: int
  c_service :: 'st
  c_out :: "c_output list"

definition c_emit :: "'st creplica \<Rightarrow> c_output \<Rightarrow> 'st creplica" where
  "c_emit z o' = z\<lparr>c_out := c_out z @ [o']\<rparr>"

definition c_lock :: "'st creplica \<Rightarrow> 'st creplica result" where
  "c_lock z = (if c_checkpointing_mutex z then Inl Deadlock else Inr (z\<lparr>c_checkpointing_mutex := True\<rparr>))"

definition c_unlock :: "'st creplica \<Rightarrow> 'st creplica" where
  "c_unlock z = z\<lparr>c_checkpointing_mutex := False\<rparr>"

subsection \<open>\<open>C_Rep_info\<close>\<close>

definition C_Max_rep_size :: nat where "C_Max_rep_size = 8192"

definition c_rep_at :: "'st creplica \<Rightarrow> int \<Rightarrow> creply result" where
  "c_rep_at z pid = (if 0 \<le> pid \<and> pid < int (length (c_replies z)) then Inr (c_replies z ! nat pid) else Inl Out_of_bounds)"

definition c_set_rep :: "'st creplica \<Rightarrow> int \<Rightarrow> creply \<Rightarrow> 'st creplica" where
  "c_set_rep z pid y = z\<lparr>c_replies := (c_replies z)[nat pid := y]\<rparr>"

text \<open>A reply in the zeroed memory of the constructor; \<open>seq_num\<close> of the class is not initialised.\<close>

definition c_blank_reply :: "seqno \<Rightarrow> creply" where
  "c_blank_reply junk =
     \<lparr>cy_extra = 0, cy_size = 0, cy_head = replicate 8 0, cy_v = 0, cy_rid = 0, cy_rh_digest = digest_zero,
      cy_digest = digest_zero, cy_replica = 0, cy_reply_size = -1, cy_cid = 0, cy_should_switch = False, cy_instance = 0,
      cy_unused = replicate 4 0, cy_tail = replicate (C_Max_rep_size - C_Reply_rep_size) 0, cy_seq_num = junk\<rparr>"

text \<open>\<open>old\<close> is what the allocated memory holds when it is not fresh: the tags and the replies behind a counter \<open>old_nps\<close>.\<close>

definition c_rep_info_new :: "int \<Rightarrow> int \<Rightarrow> (int \<times> creply) list \<Rightarrow> seqno \<Rightarrow> creply list result" where
  "c_rep_info_new nps old_nps old junk =
     rbind (th_assert (nps \<noteq> 0)) (\<lambda>_.
     if old_nps \<noteq> 0
     then if nps \<noteq> old_nps then Inl Process_exit
          else rbind (th_assert (\<forall>(tg, y) \<in> set (take (nat nps) old). tg = C_Reply_tag)) (\<lambda>_.
               Inr (map snd (take (nat nps) old)))
     else Inr (replicate (nat nps) (c_blank_reply junk)))"

definition c_new_reply :: "'st creplica \<Rightarrow> int \<Rightarrow> seqno \<Rightarrow> 'st creplica result" where
  "c_new_reply z pid sq = rbind (c_rep_at z pid) (\<lambda>y. Inr (c_set_rep z pid (y\<lparr>cy_seq_num := sq, cy_reply_size := -1\<rparr>)))"

definition c_new_reply_size :: "node \<Rightarrow> nat" where
  "c_new_reply_size nd = C_Max_rep_size - C_Reply_rep_size - c_reply_macs_size nd"

text \<open>\<open>body\<close> is what the service has written into the buffer of \<open>new_reply\<close>.\<close>

definition c_end_reply :: "'st creplica \<Rightarrow> int \<Rightarrow> request_id \<Rightarrow> byte list \<Rightarrow> 'st creplica result" where
  "c_end_reply z pid rid body =
     rbind (c_rep_at z pid) (\<lambda>y.
     rbind (th_assert (cy_reply_size y = -1)) (\<lambda>_.
     let sz = ALIGNED_SIZE (int (C_Reply_rep_size + length body + c_reply_macs_size (c_node z)));
         k = nat sz - C_Reply_rep_size - length body in
     Inr (c_set_rep z pid (y\<lparr>cy_v := 0, cy_replica := 0, cy_rid := rid, cy_reply_size := int (length body), cy_cid := -1,
            cy_digest := Digest_of body, cy_size := sz,
            cy_tail := body @ replicate k 0 @ drop (length body + k) (cy_tail y)\<rparr>))))"

definition c_send_reply :: "'st creplica \<Rightarrow> int \<Rightarrow> int \<Rightarrow> byte list \<Rightarrow> 'st creplica result" where
  "c_send_reply z pid socket macs =
     rbind (c_rep_at z pid) (\<lambda>y.
     rbind (th_assert (cy_reply_size y \<noteq> -1)) (\<lambda>_.
     rbind (th_assert (cy_extra y = 0 \<and> cy_v y = 0 \<and> cy_replica y = 0)) (\<lambda>_.
     rbind (read_bytes macs 0 (c_reply_macs_size (c_node z))) (\<lambda>a.
     rbind (put_bytes (cy_tail y) (nat (cy_reply_size y)) a) (\<lambda>t.
     let y1 = y\<lparr>cy_cid := -1, cy_tail := t\<rparr> in
     Inr (c_emit (c_set_rep z pid y1) (C_Send_reply socket (c_reply_sent y1))))))))"

subsection \<open>Requests\<close>

text \<open>\<open>connectlist[listnum]\<close>; no socket ends the process.\<close>

definition c_socket :: "'st creplica \<Rightarrow> int \<Rightarrow> int result" where
  "c_socket z l =
     (if 0 \<le> l \<and> l < int (length (c_connectlist z))
      then if c_connectlist z ! nat l = 0 then Inl Process_exit else Inr (c_connectlist z ! nat l)
      else Inl Out_of_bounds)"

definition c_is_last :: "'st creplica \<Rightarrow> bool" where
  "c_is_last z \<longleftrightarrow> \<not> node_id (c_node z) < num_replicas (c_node z) - 1"

definition c_is_old :: "'st creplica \<Rightarrow> crequest \<Rightarrow> bool result" where
  "c_is_old z req = rbind (c_rep_at z (cq_cid req)) (\<lambda>y. Inr (cq_rid req < cy_rid y))"

definition c_is_seen :: "'st creplica \<Rightarrow> crequest \<Rightarrow> bool result" where
  "c_is_seen z req = rbind (c_rep_at z (cq_cid req)) (\<lambda>y. Inr (cq_rid req \<le> cy_rid y))"

definition c_execute_request :: "'st env \<Rightarrow> 'st creplica \<Rightarrow> crequest \<Rightarrow> 'st creplica result" where
  "c_execute_request E z req =
     (let cid = cq_cid req; rid = cq_rid req in
      rbind (c_new_reply z cid (c_seqno z)) (\<lambda>z1.
      let (st, outb) = e_exec E (c_service z1) (c_command req) cid in
      if length outb > c_new_reply_size (c_node z1) then Inl Out_of_bounds
      else
        c_end_reply (z1\<lparr>c_service := st, c_last_seqno := c_seqno z1, c_robust_queue := c_robust_queue z1 @ [c_sent req]\<rparr>)
          cid rid outb))"

text \<open>A stopped replica passes the request on; the last one answers that the client should switch.\<close>

definition c_handle_stopped :: "'st creplica \<Rightarrow> crequest \<Rightarrow> 'st creplica result" where
  "c_handle_stopped z req =
     (let cid = cq_cid req in
      if \<not> c_is_last z then Inr (c_emit z (C_Forward (c_sent req)))
      else
        rbind (c_socket z (cq_listnum req)) (\<lambda>sock.
        rbind (c_rep_at z cid) (\<lambda>y.
        rbind (c_send_reply (c_set_rep z cid (c_set_instance_id y aardvark)) cid sock (c_macs req)) (\<lambda>z1.
        rbind (c_rep_at z1 cid) (\<lambda>y1.
        Inr (c_set_rep z1 cid (c_reset_switch y1)))))))"

text \<open>
  The end of the handler: the request is authenticated for the next nodes and forwarded, or answered.
\<close>

definition c_reply_to_client :: "'st creplica \<Rightarrow> crequest \<Rightarrow> 'st creplica result" where
  "c_reply_to_client z r =
     (let cid = cq_cid r in
      rbind (c_socket z (cq_listnum r)) (\<lambda>sock.
      rbind (if c_cur_state z = replica_state_STOP
             then rbind (c_rep_at z cid) (\<lambda>y. Inr (c_set_rep z cid (c_set_instance_id y aardvark))) else Inr z) (\<lambda>z2.
      rbind (c_send_reply (z2\<lparr>c_nb_sent_replies := c_nb_sent_replies z2 + 1\<rparr>) cid sock (c_macs r)) (\<lambda>z3.
      if c_cur_state z3 = replica_state_STOP
      then rbind (c_rep_at z3 cid) (\<lambda>y. Inr (c_set_rep z3 cid (c_reset_switch y))) else Inr z3))))"

definition c_reply_or_forward :: "'st env \<Rightarrow> 'st creplica \<Rightarrow> crequest \<Rightarrow> nat \<Rightarrow> 'st creplica result" where
  "c_reply_or_forward E z req aoff =
     rbind (c_rep_at z (cq_cid req)) (\<lambda>y.
     rbind (c_authenticate (e_crypto E) (c_node z) req (node_id (c_node z)) aoff (Some (c_reply_rep_bytes y))) (\<lambda>(r, nd).
     let z1 = z\<lparr>c_node := nd\<rparr> in
     if \<not> c_is_last z1 then Inr (c_emit z1 (C_Forward (c_sent r))) else c_reply_to_client z1 r))"

text \<open>
  The decision what to do with a verified request: \<open>None\<close> stands for the early returns that drop it.
\<close>

definition c_order :: "'st env \<Rightarrow> 'st creplica \<Rightarrow> crequest \<Rightarrow> ('st creplica \<times> crequest) option result" where
  "c_order E z req =
     rbind (c_is_seen z req) (\<lambda>seen.
     if node_id (c_node z) = 0
     then if \<not> seen
          then (let z1 = z\<lparr>c_seqno := c_seqno z + 1\<rparr>; r = req\<lparr>cq_seq_num := c_seqno z1\<rparr> in
                rbind (c_execute_request E z1 r) (\<lambda>z2. Inr (Some (z2, r))))
          else rbind (c_is_old z req) (\<lambda>old.
               if \<not> old then rbind (c_rep_at z (cq_cid req)) (\<lambda>y. Inr (Some (z, req\<lparr>cq_seq_num := cy_seq_num y\<rparr>)))
               else Inr None)
     else if \<not> seen
          then if cq_seq_num req \<noteq> c_last_seqno z + 1 then Inr None
               else rbind (c_execute_request E (z\<lparr>c_seqno := c_last_seqno z + 1\<rparr>) req) (\<lambda>z2. Inr (Some (z2, req)))
          else Inr (Some (z, req)))"

text \<open>The handler from the point on where \<open>checkpointing_mutex\<close> is released.\<close>

definition c_process :: "'st env \<Rightarrow> 'st creplica \<Rightarrow> crequest \<Rightarrow> 'st creplica result" where
  "c_process E z req =
     (let t = timer_restart (e_rdtsc E) (timer_restart (e_rdtsc E) (c_timers z) (c_ctimer z)) (c_ftimer z);
          z1 = (c_emit (z\<lparr>c_timers := t\<rparr>) (C_Monitor_req (cq_cid req) (cq_rid req)))\<lparr>c_req_count_switch := c_req_count_switch z + 1\<rparr> in
      if c_is_read_only req then Inr z1
      else
        rbind (c_verify (e_crypto E) (c_node z1) req 0) (\<lambda>(ok, r, aoff).
        if \<not> ok then Inr z1
        else
          rbind (c_order E z1 r) (\<lambda>d.
          case d of None \<Rightarrow> Inr z1 | Some (z2, r2) \<Rightarrow> c_reply_or_forward E z2 r2 aoff)))"

text \<open>
  The part under \<open>checkpointing_mutex\<close>. \<open>pend\<close> handles the pending requests; \<open>None\<close> says that the request
  has been queued or dropped.
\<close>

definition c_enter :: "('st creplica \<Rightarrow> 'st creplica result) \<Rightarrow> 'st creplica \<Rightarrow> crequest \<Rightarrow> (bool \<times> 'st creplica) result" where
  "c_enter pend z req =
     rbind (c_lock z) (\<lambda>z1.
     if c_checkpoint_in_progress z1
     then if c_current_nb_requests z1 < max_nb_requests_while_checkpointing
          then Inr (True, c_unlock (z1\<lparr>c_current_nb_requests := c_current_nb_requests z1 + 1\<rparr>))
          else if node_id (c_node z1) = 0
          then Inr (False, c_unlock (z1\<lparr>c_primary_pending := c_primary_pending z1 @ [req]\<rparr>))
          else if map_of (c_pending_requests z1) (cq_seq_num req) = None
          then Inr (False, c_unlock (z1\<lparr>c_pending_requests := c_pending_requests z1 @ [(cq_seq_num req, req)]\<rparr>))
          else Inr (False, c_unlock z1)
     else rbind (pend z1) (\<lambda>z2. Inr (True, c_unlock z2)))"

definition c_handle_with :: "('st creplica \<Rightarrow> 'st creplica result) \<Rightarrow> 'st env \<Rightarrow> 'st creplica \<Rightarrow> crequest \<Rightarrow> 'st creplica result" where
  "c_handle_with pend E z req =
     (if c_cur_state z = replica_state_STOP then c_handle_stopped z req
      else if c_cur_state z \<noteq> replica_state_NORMAL then Inr z
      else rbind (c_enter pend z req) (\<lambda>(go, z1). if go then c_process E z1 req else Inr z1))"

text \<open>
  \<open>handle(req, true)\<close>, the call for a pending request, and the loops over the pending requests: at the head
  in the order of arrival, otherwise in the order of the sequence numbers, which a \<open>std::map\<close> keeps.
\<close>

definition c_handle_pending :: "'st env \<Rightarrow> 'st creplica \<Rightarrow> crequest \<Rightarrow> 'st creplica result" where
  "c_handle_pending E z req = c_handle_with Inr E z req"

definition c_run_pending :: "'st env \<Rightarrow> 'st creplica \<Rightarrow> 'st creplica result" where
  "c_run_pending E z =
     (if node_id (c_node z) = 0
      then rbind (for_loop (c_handle_pending E) (c_primary_pending z) z) (\<lambda>z1. Inr (z1\<lparr>c_primary_pending := []\<rparr>))
      else rbind (for_loop (c_handle_pending E) (map snd (sort_key fst (c_pending_requests z))) z) (\<lambda>z1.
           Inr (z1\<lparr>c_pending_requests := []\<rparr>)))"

definition c_handle_request :: "'st env \<Rightarrow> 'st creplica \<Rightarrow> crequest \<Rightarrow> 'st creplica result" where
  "c_handle_request E z req = c_handle_with (c_run_pending E) E z req"

definition c_handle_notification :: "'st env \<Rightarrow> 'st creplica \<Rightarrow> notification \<Rightarrow> 'st creplica result" where
  "c_handle_notification E z m =
     rbind (c_lock z) (\<lambda>z1.
     let z2 = z1\<lparr>c_timers := timer_restart (e_rdtsc E) (c_timers z1) (c_ctimer z1)\<rparr> in
     Inr (c_unlock (if cn_op_type m = 0 then c_emit z2 (C_Monitor_req_notif (cn_cid m) (cn_rid m))
                    else if cn_op_type m = 1 then c_emit z2 (C_Monitor_rep_notif (cn_cid m)) else z2)))"

text \<open>
  A request that arrives at the receive buffer. One that comes from a client carries the number of
  the client's connection, which \<open>c_client_requests_handler\<close> writes.
\<close>

definition c_from_client :: "int \<Rightarrow> crequest \<Rightarrow> crequest" where
  "c_from_client l m = m\<lparr>cq_listnum := l\<rparr>"

definition c_receive :: "'st env \<Rightarrow> byte list \<Rightarrow> byte list \<Rightarrow> 'st creplica \<Rightarrow> crequest \<Rightarrow> 'st creplica result" where
  "c_receive E mem slack z m =
     rbind (c_convert slack (c_recv mem m)) (\<lambda>d. case d of None \<Rightarrow> Inr z | Some r \<Rightarrow> c_handle_request E z r)"

text \<open>A replica after its construction.\<close>

definition MAX_CONNECTIONS :: nat where "MAX_CONNECTIONS = 1000"

definition REQUEST_FEEDBACK_TIMEOUT :: int where "REQUEST_FEEDBACK_TIMEOUT = 100"

definition c_replica_new ::
  "node \<Rightarrow> u64 \<Rightarrow> int \<Rightarrow> int \<Rightarrow> seqno \<Rightarrow> int \<Rightarrow> (int \<times> creply) list \<Rightarrow> 'st \<Rightarrow> timers \<Rightarrow> 'st creplica result" where
  "c_replica_new nd mhz j1 j2 junk old_nps old st tms =
     (if \<not> is_replica nd (node_id nd) then Inl Process_exit
      else
        rbind (c_rep_info_new (num_principals nd) old_nps old junk) (\<lambda>ys.
        Inr \<lparr>c_node = nd, c_seqno = 0, c_last_seqno = 0, c_req_count_switch = 0, c_replies = ys,
             c_connectlist = replicate MAX_CONNECTIONS 0, c_cur_state = replica_state_NORMAL,
             c_checkpoint_in_progress = False, c_current_nb_requests = 0, c_pending_requests = [], c_primary_pending = [],
             c_checkpointing_mutex = False,
             c_timers = timer_new mhz j2 (timer_new mhz j1 tms CHECKPOINTING_TIMEOUT 0) REQUEST_FEEDBACK_TIMEOUT 1,
             c_ctimer = length (tm_list tms), c_ftimer = Suc (length (tm_list tms)), c_robust_queue = [],
             c_nb_sent_replies = 0, c_service = st, c_out = []\<rparr>))"

subsection \<open>Pending requests\<close>

text \<open>
  The pending requests are handled with \<open>checkpointing_mutex\<close> held, and handling a request locks
  this mutex: a replica with pending requests blocks at the first request after the checkpoint.
\<close>

lemma handle_pending_blocks:
  assumes "c_checkpointing_mutex z" "c_cur_state z = replica_state_NORMAL"
  shows "c_handle_pending E z req = Inl Deadlock"
  using assms by (simp add: c_handle_pending_def c_handle_with_def c_enter_def c_lock_def)

lemma run_pending_blocks:
  assumes "c_checkpointing_mutex z" "c_cur_state z = replica_state_NORMAL"
    and "(if node_id (c_node z) = 0 then c_primary_pending z else map snd (c_pending_requests z)) \<noteq> []"
  shows "c_run_pending E z = Inl Deadlock"
proof -
  have "for_loop (c_handle_pending E) rs z = Inl Deadlock" if "rs \<noteq> []" for rs
    using that assms(1,2) by (cases rs) (simp_all add: handle_pending_blocks)
  moreover have "sort_key fst ps \<noteq> []" if "ps \<noteq> []" for ps :: "(seqno \<times> crequest) list"
    using that by (metis length_0_conv length_sort)
  ultimately show ?thesis using assms(3) by (auto simp: c_run_pending_def split: if_splits)
qed

lemma run_pending_empty:
  assumes "(if node_id (c_node z) = 0 then c_primary_pending z = [] else c_pending_requests z = [])"
  shows "c_run_pending E z = Inr z"
  using assms by (cases z) (auto simp: c_run_pending_def split: if_splits)

lemma run_pending_result:
  assumes "c_checkpointing_mutex z" "c_cur_state z = replica_state_NORMAL" "c_run_pending E z = Inr z'"
  shows "z' = z"
proof (cases "(if node_id (c_node z) = 0 then c_primary_pending z else map snd (c_pending_requests z)) = []")
  case True
  then have "(if node_id (c_node z) = 0 then c_primary_pending z = [] else c_pending_requests z = [])" by (simp split: if_splits)
  then show ?thesis using run_pending_empty assms(3) by fastforce
next
  case False
  then show ?thesis using run_pending_blocks assms by fastforce
qed

subsection \<open>Execution\<close>

text \<open>The stored replies of a replica that has not been stopped.\<close>

definition c_rep_ok :: "creply \<Rightarrow> bool" where
  "c_rep_ok y \<longleftrightarrow>
     cy_extra y = 0 \<and> cy_head y = replicate 8 0 \<and> cy_v y = 0 \<and> cy_rh_digest y = digest_zero \<and> cy_replica y = 0 \<and>
     cy_should_switch y = False \<and> cy_instance y = 0 \<and> cy_unused y = replicate 4 0 \<and>
     length (cy_tail y) = C_Max_rep_size - C_Reply_rep_size"

definition c_ok :: "'st creplica \<Rightarrow> bool" where
  "c_ok z \<longleftrightarrow>
     node_ok (c_node z) \<and> is_replica (c_node z) (node_id (c_node z)) \<and> int (length (c_replies z)) = num_principals (c_node z) \<and>
     (\<forall>y \<in> set (c_replies z). c_rep_ok y) \<and> c_seqno z = c_last_seqno z"

text \<open>The reply that executing a request leaves, from the reply \<open>y\<close> before.\<close>

definition c_answer :: "node \<Rightarrow> creply \<Rightarrow> seqno \<Rightarrow> request_id \<Rightarrow> byte list \<Rightarrow> creply" where
  "c_answer nd y sq rid body =
     (let sz = ALIGNED_SIZE (int (C_Reply_rep_size + length body + c_reply_macs_size nd));
          k = nat sz - C_Reply_rep_size - length body in
      y\<lparr>cy_seq_num := sq, cy_v := 0, cy_replica := 0, cy_rid := rid, cy_reply_size := int (length body), cy_cid := -1,
        cy_digest := Digest_of body, cy_size := sz,
        cy_tail := body @ replicate k 0 @ drop (length body + k) (cy_tail y)\<rparr>)"

lemma c_rep_at_ok:
  assumes "c_ok z" "0 \<le> cid" "cid < num_principals (c_node z)"
  shows "c_rep_at z cid = Inr (c_replies z ! nat cid)" "nat cid < length (c_replies z)" "c_rep_ok (c_replies z ! nat cid)"
proof -
  have *: "cid < int (length (c_replies z))" using assms by (simp add: c_ok_def)
  then show "nat cid < length (c_replies z)" using assms(2) by simp
  then show "c_rep_ok (c_replies z ! nat cid)" using assms(1) by (simp add: c_ok_def)
  show "c_rep_at z cid = Inr (c_replies z ! nat cid)" using * assms(2) by (simp add: c_rep_at_def)
qed

lemma c_execute_eq:
  assumes "c_rep_at z (cq_cid req) = Inr y" "e_exec E (c_service z) (c_command req) (cq_cid req) = (st, outb)"
    and "length outb \<le> c_new_reply_size (c_node z)"
  shows "c_execute_request E z req = Inr (c_set_rep
     (z\<lparr>c_service := st, c_last_seqno := c_seqno z, c_robust_queue := c_robust_queue z @ [c_sent req]\<rparr>) (cq_cid req)
     (c_answer (c_node z) y (c_seqno z) (cq_rid req) outb))"
proof -
  have "0 \<le> cq_cid req" "cq_cid req < int (length (c_replies z))" "y = c_replies z ! nat (cq_cid req)"
    using assms(1) by (auto simp: c_rep_at_def split: if_splits)
  moreover from this have "nat (cq_cid req) < length (c_replies z)" by simp
  ultimately show ?thesis using assms(2,3)
    by (simp add: c_execute_request_def c_new_reply_def c_end_reply_def c_rep_at_def c_set_rep_def c_answer_def Let_def)
qed

lemma c_execute_elim:
  assumes "c_execute_request E z req = Inr z'"
  obtains y st outb where "c_rep_at z (cq_cid req) = Inr y" "length outb \<le> c_new_reply_size (c_node z)"
    "z' = c_set_rep (z\<lparr>c_service := st, c_last_seqno := c_seqno z, c_robust_queue := c_robust_queue z @ [c_sent req]\<rparr>)
       (cq_cid req) (c_answer (c_node z) y (c_seqno z) (cq_rid req) outb)"
proof -
  obtain y where y: "c_rep_at z (cq_cid req) = Inr y"
    using assms by (auto simp: c_execute_request_def c_new_reply_def rbind_eq_Inr Let_def)
  obtain st outb where e: "e_exec E (c_service z) (c_command req) (cq_cid req) = (st, outb)" by fastforce
  have "length outb \<le> c_new_reply_size (c_node z)"
    using assms y e by (auto simp: c_execute_request_def c_new_reply_def c_set_rep_def Let_def split: if_splits)
  then show ?thesis using that [OF y _] c_execute_eq [OF y e] assms by auto
qed

end
