(* ===== verification/CLog.thy ===== *)
theory CLog
  imports CReplica
begin

section \<open>The order of execution in the chain\<close>

text \<open>
  Steps of a chain replica that is not switched: a request or a notification arrives, the thread that
  keeps the history takes executed requests from its queue, and a checkpoint begins or ends. The requests in
  the queue carry consecutive numbers up to the last executed one, and the requests of a client have
  increasing identifiers.
\<close>

datatype c_event =
    C_request crequest
  | C_notification notification
  | C_history_taken nat
  | C_checkpointing bool int

text \<open>The environment and the memory behind a received message may differ from step to step.\<close>

inductive c_step :: "'st creplica \<Rightarrow> c_event \<Rightarrow> 'st creplica \<Rightarrow> bool" where
  step_request: "c_receive E mem slack z m = Inr z' \<Longrightarrow> c_step z (C_request m) z'"
| step_notification: "c_handle_notification E z n = Inr z' \<Longrightarrow> c_step z (C_notification n) z'"
| step_taken: "c_step z (C_history_taken k) (z\<lparr>c_robust_queue := drop k (c_robust_queue z)\<rparr>)"
| step_checkpointing:
    "c_step z (C_checkpointing b k) (z\<lparr>c_checkpoint_in_progress := b, c_current_nb_requests := k\<rparr>)"

inductive c_reach :: "'st creplica \<Rightarrow> c_event list \<Rightarrow> 'st creplica \<Rightarrow> bool" for z0 where
  c_reach_start: "c_reach z0 [] z0"
| c_reach_step: "c_reach z0 es z \<Longrightarrow> c_step z e z' \<Longrightarrow> c_reach z0 (es @ [e]) z'"

inductive_cases c_step_cases: "c_step z e z'"

text \<open>The part of the state that the order of execution depends on.\<close>

type_synonym c_view = "seqno \<times> seqno \<times> crequest list \<times> request_id list"

definition c_view :: "'st creplica \<Rightarrow> c_view" where
  "c_view z = (c_seqno z, c_last_seqno z, c_robust_queue z, map cy_rid (c_replies z))"

fun c_log_ok :: "c_view \<Rightarrow> bool" where
  "c_log_ok (sq, ls, q, rids) \<longleftrightarrow>
     sq = ls \<and> map cq_seq_num q = [ls - int (length q) + 1..ls] \<and>
     sorted_wrt (\<lambda>a b. cq_cid a = cq_cid b \<longrightarrow> cq_rid a < cq_rid b) q \<and>
     (\<forall>r \<in> set q. 0 \<le> cq_cid r \<and> nat (cq_cid r) < length rids \<and> cq_rid r \<le> rids ! nat (cq_cid r))"

declare c_log_ok.simps [simp del]

subsection \<open>Steps that do not execute\<close>

definition c_keeps :: "'st creplica \<Rightarrow> 'st creplica result \<Rightarrow> bool" where
  "c_keeps z r = yields (\<lambda>z'. c_view z' = c_view z \<and> c_cur_state z' = c_cur_state z) r"

lemma c_keepsI: "(\<And>z'. r = Inr z' \<Longrightarrow> c_view z' = c_view z \<and> c_cur_state z' = c_cur_state z) \<Longrightarrow> c_keeps z r"
  by (cases r) (auto simp: c_keeps_def yields_def)

lemma c_keepsD: "c_keeps z r \<Longrightarrow> r = Inr z' \<Longrightarrow> c_view z' = c_view z \<and> c_cur_state z' = c_cur_state z"
  by (auto simp: c_keeps_def yields_def)

lemma view_set_rep:
  assumes "c_rep_at z pid = Inr y" "cy_rid y' = cy_rid y"
  shows "c_view (c_set_rep z pid y') = c_view z"
proof -
  have "map cy_rid ((c_replies z)[nat pid := y']) = map cy_rid (c_replies z)"
    using assms by (intro nth_equalityI) (auto simp: c_rep_at_def nth_list_update split: if_splits)
  then show ?thesis by (simp add: c_view_def c_set_rep_def)
qed

lemma view_frames [simp]:
  "c_view (z\<lparr>c_timers := t\<rparr>) = c_view z" "c_view (z\<lparr>c_node := nd\<rparr>) = c_view z"
  "c_view (z\<lparr>c_nb_sent_replies := k\<rparr>) = c_view z" "c_view (z\<lparr>c_req_count_switch := u\<rparr>) = c_view z"
  "c_view (c_emit z o') = c_view z" "c_view (c_unlock z) = c_view z" "c_view (z\<lparr>c_checkpointing_mutex := b\<rparr>) = c_view z"
  "c_view (z\<lparr>c_current_nb_requests := i\<rparr>) = c_view z" "c_view (z\<lparr>c_pending_requests := ps\<rparr>) = c_view z"
  "c_view (z\<lparr>c_primary_pending := rs\<rparr>) = c_view z" "c_view (z\<lparr>c_checkpoint_in_progress := b\<rparr>) = c_view z"
  by (simp_all add: c_view_def c_emit_def c_unlock_def)

lemma state_frames [simp]:
  "c_cur_state (c_emit z o') = c_cur_state z" "c_cur_state (c_unlock z) = c_cur_state z"
  "c_cur_state (c_set_rep z pid y) = c_cur_state z"
  by (simp_all add: c_emit_def c_unlock_def c_set_rep_def)

lemma send_reply_keeps: "c_keeps z (c_send_reply z pid socket macs)"
  by (rule c_keepsI) (auto simp: c_send_reply_def rbind_eq_Inr Let_def view_set_rep)

lemma reply_to_client_keeps:
  assumes "c_cur_state z = replica_state_NORMAL"
  shows "c_keeps z (c_reply_to_client z r)"
proof (rule c_keepsI)
  fix z' assume z': "c_reply_to_client z r = Inr z'"
  let ?z = "z\<lparr>c_nb_sent_replies := c_nb_sent_replies z + 1\<rparr>"
  obtain sock z3 where s: "c_send_reply ?z (cq_cid r) sock (c_macs r) = Inr z3"
    and 3: "(if c_cur_state z3 = replica_state_STOP then rbind (c_rep_at z3 (cq_cid r)) (\<lambda>y. Inr (c_set_rep z3 (cq_cid r) (c_reset_switch y)))
             else Inr z3) = Inr z'"
    using z' assms by (auto simp: c_reply_to_client_def rbind_eq_Inr Let_def)
  note k = c_keepsD [OF send_reply_keeps s]
  then show "c_view z' = c_view z \<and> c_cur_state z' = c_cur_state z"
    using 3 assms by simp
qed

lemma reply_or_forward_keeps:
  assumes "c_cur_state z = replica_state_NORMAL"
  shows "c_keeps z (c_reply_or_forward E z req aoff)"
proof (rule c_keepsI)
  fix z' assume z': "c_reply_or_forward E z req aoff = Inr z'"
  obtain r nd where "(if \<not> c_is_last (z\<lparr>c_node := nd\<rparr>) then Inr (c_emit (z\<lparr>c_node := nd\<rparr>) (C_Forward (c_sent r)))
      else c_reply_to_client (z\<lparr>c_node := nd\<rparr>) r) = Inr z'"
    using z' unfolding c_reply_or_forward_def rbind_eq_Inr Let_def by (auto simp del: if_not_P)
  then show "c_view z' = c_view z \<and> c_cur_state z' = c_cur_state z"
    using c_keepsD [OF reply_to_client_keeps, of "z\<lparr>c_node := nd\<rparr>" r z'] assms by (auto split: if_splits)
qed

lemma enter_keeps:
  assumes "c_cur_state z = replica_state_NORMAL" "c_enter (c_run_pending E) z req = Inr (go, z1)"
  shows "c_view z1 = c_view z" "c_cur_state z1 = replica_state_NORMAL" "c_node z1 = c_node z"
proof -
  let ?z = "z\<lparr>c_checkpointing_mutex := True\<rparr>"
  have p: "z2 = ?z" if "c_run_pending E ?z = Inr z2" for z2
    using run_pending_result [of ?z E z2] that assms(1) by simp
  have l: "c_lock z = Inr ?z"
    using assms(2) by (auto simp: c_enter_def c_lock_def split: if_splits)
  show "c_view z1 = c_view z" "c_cur_state z1 = replica_state_NORMAL" "c_node z1 = c_node z"
    using assms unfolding c_enter_def l rbind_Inr
    by (auto simp: rbind_eq_Inr c_unlock_def c_view_def dest!: p split: if_splits)
qed

subsection \<open>Execution\<close>

lemma log_ok_add:
  assumes "c_log_ok (ls, ls, q, rids)" "cq_seq_num r = ls + 1" "0 \<le> cq_cid r" "nat (cq_cid r) < length rids"
    "rids ! nat (cq_cid r) < cq_rid r"
  shows "c_log_ok (ls + 1, ls + 1, q @ [r], rids[nat (cq_cid r) := cq_rid r])"
proof -
  have "nat (cq_cid a) \<noteq> nat (cq_cid r)" if "a \<in> set q" "cq_cid a \<noteq> cq_cid r" for a
    using that assms(1,3) by (auto simp: c_log_ok.simps)
  moreover have "[ls - int (length q) + 1..ls] @ [ls + 1] = [ls + 1 - int (length (q @ [r])) + 1..ls + 1]"
    by (simp add: upto_rec2)
  ultimately show ?thesis using assms
    by (fastforce simp: c_log_ok.simps sorted_wrt_append nth_list_update)
qed

lemma log_ok_drop:
  assumes "c_log_ok (sq, ls, q, rids)"
  shows "c_log_ok (sq, ls, drop k q, rids)"
proof -
  have "map cq_seq_num (drop k q) = [ls - int (length (drop k q)) + 1..ls]" if "k \<le> length q"
  proof -
    have "drop k [ls - int (length q) + 1..ls] = [ls - int (length q) + 1 + int k..ls]" using that
    proof (induction k)
      case (Suc k)
      have "[ls - int (length q) + 1 + int k..ls] = (ls - int (length q) + 1 + int k) # [ls - int (length q) + 1 + int k + 1..ls]"
        using Suc.prems by (intro upto_rec1) simp
      then show ?case using Suc by (simp add: drop_Suc drop_tl ac_simps)
    qed simp
    then show ?thesis using assms that by (simp add: c_log_ok.simps drop_map [symmetric] algebra_simps of_nat_diff)
  qed
  moreover have "sorted_wrt R (drop k xs)" if "sorted_wrt R xs" for R and xs :: "crequest list"
    using that by (metis append_take_drop_id sorted_wrt_append)
  ultimately show ?thesis using assms
    by (cases "k \<le> length q") (auto simp: c_log_ok.simps dest: in_set_dropD)
qed

lemma c_execute_log:
  assumes "c_execute_request E z req = Inr z'" "c_seqno z = ls + 1" "cq_seq_num req = ls + 1"
    and "c_log_ok (ls, ls, c_robust_queue z, map cy_rid (c_replies z))"
    and "c_is_seen z req = Inr False"
  shows "c_log_ok (c_view z')" "c_cur_state z' = c_cur_state z"
proof -
  obtain y st outb where y: "c_rep_at z (cq_cid req) = Inr y"
    and z': "z' = c_set_rep (z\<lparr>c_service := st, c_last_seqno := c_seqno z, c_robust_queue := c_robust_queue z @ [c_sent req]\<rparr>)
       (cq_cid req) (c_answer (c_node z) y (c_seqno z) (cq_rid req) outb)"
    by (rule c_execute_elim [OF assms(1)]) (rule that; assumption)
  have b: "0 \<le> cq_cid req" "nat (cq_cid req) < length (c_replies z)" "y = c_replies z ! nat (cq_cid req)"
    using y by (auto simp: c_rep_at_def split: if_splits)
  have "cy_rid y < cq_rid req" using assms(5) y by (simp add: c_is_seen_def)
  then have "c_log_ok (ls + 1, ls + 1, c_robust_queue z @ [c_sent req], (map cy_rid (c_replies z))[nat (cq_cid req) := cq_rid req])"
    using log_ok_add [OF assms(4), of "c_sent req"] assms(3) b by (simp add: c_sent_def)
  moreover have "c_view z' = (ls + 1, ls + 1, c_robust_queue z @ [c_sent req], (map cy_rid (c_replies z))[nat (cq_cid req) := cq_rid req])"
    using assms(2) by (simp add: z' c_view_def c_set_rep_def c_answer_def Let_def map_update)
  ultimately show "c_log_ok (c_view z')" by simp
  show "c_cur_state z' = c_cur_state z" by (simp add: z')
qed

definition c_good :: "'st creplica \<Rightarrow> bool" where
  "c_good z \<longleftrightarrow> c_log_ok (c_view z) \<and> c_cur_state z = replica_state_NORMAL"

lemma good_keeps: "c_keeps z r \<Longrightarrow> c_good z \<Longrightarrow> r = Inr z' \<Longrightarrow> c_good z'"
  by (auto dest: c_keepsD simp: c_good_def)

lemma good_numbers: "c_good z \<Longrightarrow> c_seqno z = c_last_seqno z"
  by (simp add: c_good_def c_view_def c_log_ok.simps)

lemma seen_frame: "c_is_seen (z\<lparr>c_seqno := n\<rparr>) (r\<lparr>cq_seq_num := m\<rparr>) = c_is_seen z r" "c_is_seen (z\<lparr>c_seqno := n\<rparr>) r = c_is_seen z r"
  by (simp_all add: c_is_seen_def c_rep_at_def)

lemma execute_good:
  assumes "c_good z" "c_execute_request E (z\<lparr>c_seqno := c_last_seqno z + 1\<rparr>) req = Inr z'" "cq_seq_num req = c_last_seqno z + 1"
    "c_is_seen z req = Inr False"
  shows "c_good z'"
proof -
  have "c_log_ok (c_last_seqno z, c_last_seqno z, c_robust_queue z, map cy_rid (c_replies z))"
    using assms(1) good_numbers [OF assms(1)] by (simp add: c_good_def c_view_def)
  then show ?thesis
    using c_execute_log [OF assms(2) _ assms(3)] assms(1,4) by (simp add: c_good_def seen_frame)
qed

lemma order_good:
  assumes "c_good z" "c_order E z req = Inr (Some (z', r'))"
  shows "c_good z'"
proof -
  obtain seen where seen: "c_is_seen z req = Inr seen" using assms(2) by (auto simp: c_order_def rbind_eq_Inr)
  note n = good_numbers [OF assms(1)]
  consider (head) "\<not> seen" "c_execute_request E (z\<lparr>c_seqno := c_last_seqno z + 1\<rparr>) (req\<lparr>cq_seq_num := c_last_seqno z + 1\<rparr>) = Inr z'"
    | (follow) "\<not> seen" "cq_seq_num req = c_last_seqno z + 1" "c_execute_request E (z\<lparr>c_seqno := c_last_seqno z + 1\<rparr>) req = Inr z'"
    | (known) "z' = z"
    using assms(2) n by (cases seen) (auto simp: c_order_def seen rbind_eq_Inr Let_def split: if_splits)
  then show ?thesis
  proof cases
    case head
    then show ?thesis using execute_good [OF assms(1) head(2)] seen by (simp add: c_is_seen_def)
  next
    case follow
    then show ?thesis using execute_good [OF assms(1) follow(3)] seen by simp
  qed (use assms(1) in simp)
qed

lemma process_good:
  assumes "c_good z" "c_process E z req = Inr z'"
  shows "c_good z'"
proof -
  let ?t = "timer_restart (e_rdtsc E) (timer_restart (e_rdtsc E) (c_timers z) (c_ctimer z)) (c_ftimer z)"
  define z1 where "z1 = (c_emit (z\<lparr>c_timers := ?t\<rparr>) (C_Monitor_req (cq_cid req) (cq_rid req)))\<lparr>c_req_count_switch := c_req_count_switch z + 1\<rparr>"
  have 1: "c_good z1" using assms(1) by (simp add: z1_def c_good_def)
  have "z' = z1 \<or> (\<exists>r aoff z2 r2. c_order E z1 r = Inr (Some (z2, r2)) \<and> c_reply_or_forward E z2 r2 aoff = Inr z')"
    using assms(2) unfolding c_process_def Let_def z1_def [symmetric]
    by (fastforce simp: rbind_eq_Inr split: if_splits option.splits)
  then show ?thesis
    using 1 order_good [OF 1] good_keeps [OF reply_or_forward_keeps] by (auto simp: c_good_def) blast+
qed

lemma handle_request_good:
  assumes "c_good z" "c_handle_request E z req = Inr z'"
  shows "c_good z'"
proof -
  have n: "c_cur_state z = replica_state_NORMAL" using assms(1) by (simp add: c_good_def)
  obtain go z1 where e: "c_enter (c_run_pending E) z req = Inr (go, z1)" "(if go then c_process E z1 req else Inr z1) = Inr z'"
    using assms(2) n by (auto simp: c_handle_request_def c_handle_with_def rbind_eq_Inr)
  then have "c_good z1" using enter_keeps [OF n e(1)] assms(1) by (simp add: c_good_def)
  then show ?thesis using e(2) process_good by (cases go) auto
qed

lemma step_good:
  assumes "c_step z e z'" "c_good z"
  shows "c_good z'"
  using assms(1)
proof cases
  case (step_request E mem slack m)
  then show ?thesis using assms(2) handle_request_good by (auto simp: c_receive_def rbind_eq_Inr split: option.splits)
next
  case (step_notification E n)
  then show ?thesis using assms(2)
    by (auto simp: c_handle_notification_def c_lock_def c_good_def c_view_def c_emit_def c_unlock_def Let_def split: if_splits)
next
  case (step_taken k)
  then show ?thesis using assms(2) log_ok_drop by (simp add: c_good_def c_view_def)
next
  case (step_checkpointing b k)
  then show ?thesis using assms(2) by (simp add: c_good_def c_view_def)
qed

lemma reach_good:
  assumes "c_reach z0 es z" "c_good z0"
  shows "c_good z"
  using assms by induction (auto intro: step_good)

lemma replica_new_good:
  assumes "c_replica_new nd mhz j1 j2 junk old_nps old st tms = Inr z0"
  shows "c_good z0"
  using assms by (auto simp: c_replica_new_def rbind_eq_Inr c_good_def c_view_def c_log_ok.simps split: if_splits)

end
