(* ===== verification/CChain.thy ===== *)
theory CChain
  imports CLog
begin

section \<open>A request on its way through the chain\<close>

text \<open>
  \<open>C_Client\<close> (\<^verbatim>\<open>chain/C_Client.cc\<close>) with \<open>chain_send_request\<close> and \<open>chain_recv_reply\<close> of \<^verbatim>\<open>chain/chain_libbyz.cc\<close>, and the
  composition of a client and four replicas: a request the client sends is executed by every replica in turn and the
  reply the client accepts is the result of that execution, authenticated by the last two replicas.
\<close>

record cclient =
  ccl_node :: node
  ccl_out_rid :: request_id
  ccl_out_req :: "crequest option"
  ccl_nb_received :: int
  ccl_n_retrans :: int
  ccl_timers :: timers
  ccl_rtimer :: nat

definition c_client_new :: "node \<Rightarrow> int \<Rightarrow> u64 \<Rightarrow> int \<Rightarrow> timers \<Rightarrow> cclient result" where
  "c_client_new nd tv mhz junk tms =
     (if is_replica nd (node_id nd) then Inl Process_exit
      else
        (let (rid, nd') = new_rid tv nd in
         Inr \<lparr>ccl_node = nd', ccl_out_rid = rid, ccl_out_req = None, ccl_nb_received = 0, ccl_n_retrans = 0,
              ccl_timers = timer_new mhz junk tms 500 0, ccl_rtimer = length (tm_list tms)\<rparr>))"

text \<open>The message sent to the first replica, if any.\<close>

definition c_send_request :: "int \<Rightarrow> cclient \<Rightarrow> crequest \<Rightarrow> bool \<Rightarrow> bool \<times> crequest option \<times> cclient" where
  "c_send_request rdtsc cl req ro =
     (if ro then (False, None, cl)
      else case ccl_out_req cl of
        Some _ \<Rightarrow> (False, None, cl)
      | None \<Rightarrow>
          (let r = req\<lparr>cq_rid := ccl_out_rid cl\<rparr> in
           (True, Some (c_sent r),
            cl\<lparr>ccl_out_req := Some r, ccl_timers := timer_start rdtsc (ccl_timers cl) (ccl_rtimer cl)\<rparr>)))"

definition chain_send_request ::
  "crypto \<Rightarrow> int \<Rightarrow> cclient \<Rightarrow> crequest \<Rightarrow> int \<Rightarrow> bool \<Rightarrow> (bool \<times> crequest option \<times> cclient) result" where
  "chain_send_request c rdtsc cl req sz ro =
     rbind (c_finalize (ccl_node cl) (req\<lparr>cq_rid := ccl_out_rid cl\<rparr>) sz ro) (\<lambda>r1.
     rbind (c_authenticate c (ccl_node cl) r1 (-1) 0 None) (\<lambda>(r2, nd).
     Inr (c_send_request rdtsc (cl\<lparr>ccl_node := nd\<rparr>) r2 ro)))"

text \<open>
  One message from the queue; \<open>None\<close> as a message is one that is not a reply. A reply that asks for a switch is
  returned whatever \<open>verify\<close> says. \<open>slack\<close> is the memory behind the trimmed reply.
\<close>

definition c_recv_step :: "crypto \<Rightarrow> int \<Rightarrow> byte list \<Rightarrow> cclient \<Rightarrow> creply option \<Rightarrow> (creply option \<times> cclient) result" where
  "c_recv_step c tv slack cl m =
     rbind (case m of None \<Rightarrow> Inr None | Some y \<Rightarrow> c_reply_convert slack y) (\<lambda>o'.
      case o' of
        None \<Rightarrow> Inr (None, cl)
      | Some rep \<Rightarrow>
          rbind (if cy_should_switch rep
                 then rbind (c_reply_verify c (ccl_node cl) rep) (\<lambda>(_, y). Inr (Some y))
                 else if cy_rid rep \<noteq> ccl_out_rid cl then Inr None
                 else rbind (c_reply_verify c (ccl_node cl) rep) (\<lambda>(ok, y). Inr (if ok then Some y else None))) (\<lambda>d.
          case d of
            None \<Rightarrow> Inr (None, cl)
          | Some y \<Rightarrow>
              (let (rid, nd) = new_rid tv (ccl_node cl) in
               Inr (Some y, cl\<lparr>ccl_timers := timer_stop (ccl_timers cl) (ccl_rtimer cl), ccl_nb_received := ccl_nb_received cl + 1,
                               ccl_out_rid := rid, ccl_node := nd, ccl_out_req := None\<rparr>))))"

text \<open>\<open>recv_reply\<close> on the messages that arrive; \<open>None\<close> as a result says that it still waits.\<close>

fun c_recv_loop :: "crypto \<Rightarrow> int \<Rightarrow> byte list \<Rightarrow> cclient \<Rightarrow> creply option list \<Rightarrow> (creply \<times> cclient \<times> creply option list) option result" where
  "c_recv_loop c tv slack cl [] = Inr None"
| "c_recv_loop c tv slack cl (m # ms) =
     rbind (c_recv_step c tv slack cl m) (\<lambda>(d, cl').
     case d of Some y \<Rightarrow> Inr (Some (y, cl', ms)) | None \<Rightarrow> c_recv_loop c tv slack cl' ms)"

definition c_recv_reply ::
  "crypto \<Rightarrow> int \<Rightarrow> byte list \<Rightarrow> cclient \<Rightarrow> creply option list \<Rightarrow> (creply option \<times> cclient \<times> creply option list) option result" where
  "c_recv_reply c tv slack cl ms =
     (case ccl_out_req cl of
        None \<Rightarrow> Inr (Some (None, cl, ms))
      | Some _ \<Rightarrow> rbind (c_recv_loop c tv slack cl ms) (\<lambda>d. Inr (map_option (\<lambda>(y, cl', rest). (Some y, cl', rest)) d)))"

text \<open>The value and the contents that \<open>chain_recv_reply\<close> hands to the application.\<close>

definition chain_recv_result :: "creply option \<Rightarrow> int \<times> byte list option" where
  "chain_recv_result d =
     (case d of None \<Rightarrow> (-1, None)
      | Some y \<Rightarrow> if cy_should_switch y then (-127, None) else (0, Some (c_reply_body y)))"

definition c_retransmit :: "int \<Rightarrow> cclient \<Rightarrow> crequest option \<times> cclient" where
  "c_retransmit rdtsc cl =
     (case ccl_out_req cl of
        None \<Rightarrow> (None, cl\<lparr>ccl_timers := timer_restart rdtsc (ccl_timers cl) (ccl_rtimer cl)\<rparr>)
      | Some r \<Rightarrow> (Some (c_sent r),
          cl\<lparr>ccl_n_retrans := ccl_n_retrans cl + 1, ccl_timers := timer_restart rdtsc (ccl_timers cl) (ccl_rtimer cl)\<rparr>))"

subsection \<open>The request of the client\<close>

text \<open>A request whose authenticators are five blocks.\<close>

definition c_with :: "crequest \<Rightarrow> seqno \<Rightarrow> int \<Rightarrow> byte list \<Rightarrow> byte list \<Rightarrow> crequest" where
  "c_with r q l cmd macs = r\<lparr>cq_seq_num := q, cq_listnum := l, cq_tail := cmd @ macs\<rparr>"

text \<open>A well-formed request with the command \<open>cmd\<close>: its size and digest are right.\<close>

definition c_request_of :: "crequest \<Rightarrow> byte list \<Rightarrow> bool" where
  "c_request_of r cmd \<longleftrightarrow>
     cq_extra r = 0 \<and> cq_command_size r = int (length cmd) \<and> length cmd \<le> 59000 \<and>
     cq_size r = ALIGNED_SIZE (52 + int (length cmd) + 40) \<and>
     cq_od r = Digest_of (short_bytes (cq_cid r) @ u64_bytes (cq_rid r) @ cmd)"

definition c_bytes :: "crequest \<Rightarrow> seqno \<Rightarrow> byte list" where
  "c_bytes r q = c_request_rep_bytes (r\<lparr>cq_seq_num := q, cq_listnum := 0\<rparr>)"

lemma c_with_simps [simp]:
  "cq_extra (c_with r q l cmd macs) = cq_extra r" "cq_size (c_with r q l cmd macs) = cq_size r"
  "cq_listnum (c_with r q l cmd macs) = l" "cq_seq_num (c_with r q l cmd macs) = q"
  "cq_cid (c_with r q l cmd macs) = cq_cid r" "cq_rid (c_with r q l cmd macs) = cq_rid r"
  "cq_command_size (c_with r q l cmd macs) = cq_command_size r" "cq_od (c_with r q l cmd macs) = cq_od r"
  "cq_tail (c_with r q l cmd macs) = cmd @ macs"
  by (simp_all add: c_with_def)

lemma c_with_updates [simp]:
  "(c_with r q l cmd macs)\<lparr>cq_seq_num := q'\<rparr> = c_with r q' l cmd macs"
  "(c_with r q l cmd macs)\<lparr>cq_listnum := l'\<rparr> = c_with r q l' cmd macs"
  by (simp_all add: c_with_def)

lemma c_with_rid [simp]: "(c_with r q l cmd macs)\<lparr>cq_rid := cq_rid r\<rparr> = c_with r q l cmd macs"
  by (simp add: c_with_def)

lemma c_rep_bytes_with [simp]: "c_request_rep_bytes (c_with r q 0 cmd macs) = c_bytes r q"
  by (simp add: c_request_rep_bytes_def c_with_def c_bytes_def)

lemma c_command_with [simp]: "c_request_of r cmd \<Longrightarrow> c_command (c_with r q l cmd macs) = cmd"
  by (simp add: c_command_def c_request_of_def)

lemma c_macs_with [simp]: "c_request_of r cmd \<Longrightarrow> c_macs (c_with r q l cmd macs) = macs"
  by (simp add: c_macs_def c_request_of_def)

lemma c_set_macs_with [simp]: "c_request_of r cmd \<Longrightarrow> c_set_macs (c_with r q l cmd macs) b = c_with r q l cmd b"
  by (simp add: c_set_macs_def) (simp add: c_with_def)

lemma c_digest_with [simp]: "c_request_of r cmd \<Longrightarrow> c_comp_digest (c_with r q l cmd macs) = Inr (cq_od r)"
  by (simp add: c_comp_digest_def c_request_of_def read_bytes_def)

lemma c_read_only_with [simp]: "c_request_of r cmd \<Longrightarrow> \<not> c_is_read_only (c_with r q l cmd macs)"
  by (simp add: c_is_read_only_def c_request_of_def)

text \<open>The padding behind the authenticators.\<close>

definition c_padding :: "byte list \<Rightarrow> nat" where
  "c_padding cmd = nat (ALIGNED_SIZE (92 + int (length cmd))) - (92 + length cmd)"

lemma aligned_bounds: "n \<le> ALIGNED_SIZE n" "ALIGNED_SIZE n < n + 8" "ALIGNED (ALIGNED_SIZE n)"
  by (auto simp: ALIGNED_SIZE_def ALIGNED_def ALIGNMENT_def)

lemma aligned_least:
  assumes "n \<le> m" "ALIGNED m"
  shows "ALIGNED_SIZE n \<le> m"
proof -
  have "m mod 8 = 0" using assms(2) by (simp add: ALIGNED_def ALIGNMENT_def)
  then have "n - n mod 8 + 8 \<le> m" if "n mod 8 \<noteq> 0" using that assms(1) by presburger
  then show ?thesis using assms(1) by (simp add: ALIGNED_SIZE_def ALIGNED_def ALIGNMENT_def)
qed

lemma request_size:
  assumes "c_request_of r cmd"
  shows "nat (cq_size r) = 92 + length cmd + c_padding cmd" "c_padding cmd < 8"
    "cq_size r \<le> C_Max_message_size" "int C_Request_rep_size \<le> cq_size r" "ALIGNED (cq_size r)"
  using assms aligned_bounds [of "92 + int (length cmd)"]
  by (auto simp: c_request_of_def c_padding_def C_Max_message_size_def C_Request_rep_size_def nat_le_iff algebra_simps)

lemma client_finalizes:
  assumes "max_faulty nd = 1" "cq_extra req = 0" "cq_tail req = cmd @ X" "length cmd \<le> 59000" "length cmd + length X = 59948"
  obtains r where "c_finalize nd req (int (length cmd)) False =
      Inr (c_with r (cq_seq_num req) (cq_listnum req) cmd (take 40 X @ replicate (c_padding cmd) 0 @ drop (40 + c_padding cmd) X))"
    "c_request_of r cmd" "cq_cid r = cq_cid req" "cq_rid r = cq_rid req"
proof -
  let ?n = "length cmd"
  define r where "r = req\<lparr>cq_command_size := int ?n, cq_od := Digest_of (short_bytes (cq_cid req) @ u64_bytes (cq_rid req) @ cmd),
    cq_size := ALIGNED_SIZE (52 + int ?n + 40)\<rparr>"
  have r: "c_request_of r cmd" using assms(2,4) by (simp add: c_request_of_def r_def)
  have "int ?n mod 65536 = int ?n" using assms(4) by simp
  moreover have "c_msize req = 60000" using assms(3,5) by (simp add: c_msize_def C_Request_rep_size_def)
  moreover have "wrap32 (int ?n) = int ?n" using assms(4) by (simp add: wrap32_def)
  moreover have "ALIGNED_SIZE (92 + int ?n) \<le> 60000" using aligned_bounds(2) [of "92 + int ?n"] assms(4) by simp
  moreover have "nat (92 + int ?n) = 92 + ?n" by simp
  moreover have "nat (ALIGNED_SIZE (92 + int ?n)) = 92 + ?n + c_padding cmd"
    using aligned_bounds(1) [of "92 + int ?n"] by (simp add: c_padding_def nat_le_eq_zle)
  ultimately have "c_finalize nd req (int ?n) False =
      Inr (c_with r (cq_seq_num req) (cq_listnum req) cmd (take 40 X @ replicate (c_padding cmd) 0 @ drop (40 + c_padding cmd) X))"
    using assms by (simp add: c_finalize_def c_auth_size_f1 c_comp_digest_def read_bytes_def c_set_size_def C_Request_rep_size_def
        wrap32_def c_msize_def r_def c_with_def Let_def)
  then show ?thesis using that r by (simp add: r_def)
qed

lemma split_block:
  assumes "8 \<le> length X"
  obtains A Y where "X = A @ Y" "block A" "length Y = length X - 8"
proof
  show "X = take 8 X @ drop 8 X" by simp
qed (use assms in \<open>simp_all add: block_def\<close>)

lemma split_blocks:
  assumes "length X = 40"
  obtains A B C D E where "X = A @ B @ C @ D @ E" "block A" "block B" "block C" "block D" "block E"
proof
  show "X = take 8 X @ take 8 (drop 8 X) @ take 8 (drop 8 (drop 8 X)) @ take 8 (drop 8 (drop 8 (drop 8 X))) @ drop 8 (drop 8 (drop 8 (drop 8 X)))"
    by (simp only: append_take_drop_id)
qed (use assms in \<open>simp_all add: block_def\<close>)

text \<open>The authenticators of a request: five blocks in front of \<open>R\<close>.\<close>

abbreviation macs5 :: "byte list \<Rightarrow> byte list \<Rightarrow> byte list \<Rightarrow> byte list \<Rightarrow> byte list \<Rightarrow> byte list \<Rightarrow> byte list" where
  "macs5 A B C D E R \<equiv> A @ B @ C @ D @ E @ R"

lemma c_sent_with:
  assumes "c_request_of r cmd" "block A" "block B" "block C" "block D" "block E" "c_padding cmd \<le> length R"
  shows "c_sent (c_with r q l cmd (macs5 A B C D E R)) = c_with r q l cmd (macs5 A B C D E (take (c_padding cmd) R))"
proof -
  have "nat (cq_size r) - C_Request_rep_size = length cmd + 40 + c_padding cmd"
    using request_size(1) [OF assms(1)] by (simp add: C_Request_rep_size_def)
  then show ?thesis using assms(2-6) [THEN blockD] assms(7) by (simp add: c_sent_def) (simp add: c_with_def)
qed

lemma c_transfer:
  assumes "c_request_of r cmd" "block A" "block B" "block C" "block D" "block E" "length P = c_padding cmd"
  shows "c_convert slack (c_recv mem (c_with r q l cmd (macs5 A B C D E P))) = Inr (Some (c_with r q l cmd (macs5 A B C D E (P @ slack))))"
proof -
  have "nat (cq_size r) - C_Request_rep_size = length cmd + 40 + c_padding cmd"
    using request_size(1) [OF assms(1)] by (simp add: C_Request_rep_size_def)
  then show ?thesis using request_size(3-5) [OF assms(1)] assms(2-6) [THEN blockD] assms(7)
    by (auto simp: c_convert_def c_recv_def c_with_def)
qed

lemma client_sends:
  assumes "crypto_ok c" "node_ok nd" "max_faulty nd = 1" "ccl_node cl = nd" "ccl_out_req cl = None"
    and "cq_extra req = 0" "cq_seq_num req = 0" "cq_cid req = node_id nd" "cq_tail req = cmd @ X" "length cmd \<le> 59000"
      "length cmd + length X = 59948"
  obtains r Y Z cl' where
    "chain_send_request c rdtsc cl req (int (length cmd)) False = Inr (True, Some (c_with r 0 (cq_listnum req) cmd
       (macs5 (c_nonce nd) (c_tag c nd (c_bytes r 0) 0) (c_tag c nd (c_bytes r 0) 1) Y Z (replicate (c_padding cmd) 0))), cl')"
    "c_request_of r cmd" "cq_cid r = node_id nd" "cq_rid r = ccl_out_rid cl" "block Y" "block Z"
    "ccl_out_req cl' \<noteq> None" "ccl_out_rid cl' = ccl_out_rid cl" "ccl_node cl' = nd\<lparr>umac_nonce := umac_nonce nd + 1\<rparr>"
proof -
  let ?req = "req\<lparr>cq_rid := ccl_out_rid cl\<rparr>"
  let ?P = "replicate (c_padding cmd) 0 @ drop (40 + c_padding cmd) X"
  obtain r where r: "c_finalize nd ?req (int (length cmd)) False = Inr (c_with r 0 (cq_listnum req) cmd (take 40 X @ ?P))"
      "c_request_of r cmd" "cq_cid r = node_id nd" "cq_rid r = ccl_out_rid cl"
    using client_finalizes [of nd ?req cmd X] assms(3,6-11) by auto
  have l: "length (take 40 X) = 40" using assms(10,11) by simp
  obtain A B C Y Z where X: "take 40 X = A @ B @ C @ Y @ Z" and b: "block A" "block B" "block C" "block Y" "block Z"
    by (rule split_blocks [OF l]) (rule that; assumption)
  let ?M = "macs5 (c_nonce nd) (c_tag c nd (c_bytes r 0) 0) (c_tag c nd (c_bytes r 0) 1) Y Z"
  have "c_gen_auth c nd (c_bytes r 0) (macs5 A B C Y Z ?P) 0 None (-1) (cq_cid r) = Inr (?M ?P, nd\<lparr>umac_nonce := umac_nonce nd + 1\<rparr>)"
    using gen_auth_two [OF assms(1-3), of "-1" A B C "c_bytes r 0" "[]"] b by simp
  then have "c_authenticate c nd (c_with r 0 (cq_listnum req) cmd (macs5 A B C Y Z ?P)) (-1) 0 None =
      Inr (c_with r 0 (cq_listnum req) cmd (?M ?P), nd\<lparr>umac_nonce := umac_nonce nd + 1\<rparr>)"
    using r(2) by (simp add: c_authenticate_def)
  moreover have "c_sent (c_with r 0 (cq_listnum req) cmd (?M ?P)) = c_with r 0 (cq_listnum req) cmd (?M (replicate (c_padding cmd) 0))"
    using c_sent_with [OF r(2), of "c_nonce nd" _ _ Y Z ?P] b assms(1) by simp
  moreover have "(c_with r 0 (cq_listnum req) cmd (?M ?P))\<lparr>cq_rid := ccl_out_rid cl\<rparr> = c_with r 0 (cq_listnum req) cmd (?M ?P)"
    unfolding r(4) [symmetric] by (rule c_with_rid)
  ultimately have "chain_send_request c rdtsc cl req (int (length cmd)) False = Inr (True,
      Some (c_with r 0 (cq_listnum req) cmd (?M (replicate (c_padding cmd) 0))),
      cl\<lparr>ccl_node := nd\<lparr>umac_nonce := umac_nonce nd + 1\<rparr>, ccl_out_req := Some (c_with r 0 (cq_listnum req) cmd (?M ?P)),
        ccl_timers := timer_start rdtsc (ccl_timers cl) (ccl_rtimer cl)\<rparr>)"
    using r(1) assms(4,5) X by (simp only: chain_send_request_def c_send_request_def rbind_Inr append.assoc) (simp add: Let_def)
  then show ?thesis by (rule that) (use r b in simp_all)
qed

subsection \<open>Verification at the replicas\<close>

lemma verify_head:
  assumes "crypto_ok c" "node_ok nd" "max_faulty nd = 1" "node_id nd = 0" "c_request_of r cmd" "3 < cq_cid r" "cq_cid r < num_principals nd"
    and "block N" "block M" "block X" "block Y" "block Z" "block U" "block V"
    and "M = cr_umac c (chan_key (cq_cid r) 0) (c_bytes r 0) N"
  shows "c_verify c nd (c_with r q l cmd (macs5 N M X Y Z (U @ V @ R))) 0 = Inr (True, c_with r q l cmd (macs5 N X Y Z U (V @ V @ R)), 16)"
  using head_checks_client [of c nd "cq_cid r" N M X Y Z "c_bytes r 0" "U @ V @ R" 0]
    head_moves [of nd "cq_cid r" N X Y Z Z U V c "c_bytes r q" R] assms
  by (simp add: c_verify_def Let_def)

lemma verify_second:
  assumes "crypto_ok c" "node_ok nd" "max_faulty nd = 1" "node_id nd = 1" "c_request_of r cmd" "3 < cq_cid r" "cq_cid r < num_principals nd"
    and "block N" "block M" "block X" "block Y" "block Z"
    and "M = cr_umac c (chan_key (cq_cid r) 1) (c_bytes r 0) N" "Y = cr_umac c (chan_key 0 1) (c_bytes r q) X"
  shows "c_verify c nd (c_with r q l cmd (macs5 N M X Y Z R)) 0 = Inr (True, c_with r q l cmd (macs5 X Z Z Y Z R), 16)"
  using second_checks_client [of c nd "cq_cid r" N M X Y Z "c_bytes r 0" R 0]
    second_moves [of c nd "cq_cid r" X Y Z "c_bytes r q" "Y @ Z @ R"] assms
  by (simp add: c_verify_def Let_def)

lemma verify_rest:
  assumes "crypto_ok c" "node_ok nd" "max_faulty nd = 1" "2 \<le> node_id nd" "node_id nd \<le> 3" "c_request_of r cmd" "3 < cq_cid r"
    and "block N" "block M" "block X" "block Y" "block Z"
    and "M = cr_umac c (chan_key (node_id nd - 2) (node_id nd)) (c_bytes r q) N"
    and "Y = cr_umac c (chan_key (node_id nd - 1) (node_id nd)) (c_bytes r q) X"
  shows "c_verify c nd (c_with r q l cmd (macs5 N M X Y Z R)) 0 = Inr (True, c_with r q l cmd (macs5 X Z Z Y Z R), 16)"
  using rest_skip_client [of nd c "cq_cid r" "c_bytes r 0" "macs5 N M X Y Z R" 0]
    rest_moves [of c nd "cq_cid r" N M X Y Z "c_bytes r q" R] assms
  by (simp add: c_verify_def Let_def)

subsection \<open>A new request at a replica\<close>

text \<open>A replica that takes part: not stopped, no checkpoint under way, nothing set aside.\<close>

definition c_ready :: "'st creplica \<Rightarrow> bool" where
  "c_ready z \<longleftrightarrow>
     c_ok z \<and> max_faulty (c_node z) = 1 \<and> c_cur_state z = replica_state_NORMAL \<and> \<not> c_checkpoint_in_progress z \<and>
     c_pending_requests z = [] \<and> c_primary_pending z = [] \<and> \<not> c_checkpointing_mutex z"

definition c_begun :: "'st env \<Rightarrow> 'st creplica \<Rightarrow> crequest \<Rightarrow> 'st creplica" where
  "c_begun E z req =
     (c_emit (z\<lparr>c_timers := timer_restart (e_rdtsc E) (timer_restart (e_rdtsc E) (c_timers z) (c_ctimer z)) (c_ftimer z)\<rparr>)
        (C_Monitor_req (cq_cid req) (cq_rid req)))\<lparr>c_req_count_switch := c_req_count_switch z + 1\<rparr>"

lemma ready_enters: "c_ready z \<Longrightarrow> c_enter (c_run_pending E) z req = Inr (True, z)"
  using run_pending_empty [of "z\<lparr>c_checkpointing_mutex := True\<rparr>" E]
  by (cases z) (auto simp: c_enter_def c_lock_def c_unlock_def c_ready_def)

lemma ready_handles:
  assumes "c_ready z" "\<not> c_is_read_only req" "c_verify (e_crypto E) (c_node z) req 0 = Inr (True, r, a)"
    and "c_order E (c_begun E z req) r = Inr (Some (z2, r2))"
  shows "c_handle_request E z req = c_reply_or_forward E z2 r2 a"
proof -
  have "c_handle_request E z req = c_process E z req"
    using assms(1) ready_enters [OF assms(1)] by (simp add: c_handle_request_def c_handle_with_def c_ready_def)
  also have "c_process E z req = c_reply_or_forward E z2 r2 a"
    unfolding c_process_def Let_def c_begun_def [symmetric]
    using assms(2-4) by (simp add: c_begun_def c_emit_def)
  finally show ?thesis .
qed

text \<open>The state after the execution of a new request.\<close>

definition c_done :: "'st creplica \<Rightarrow> crequest \<Rightarrow> 'st \<Rightarrow> byte list \<Rightarrow> 'st creplica" where
  "c_done z r st body =
     c_set_rep (z\<lparr>c_seqno := c_last_seqno z + 1, c_service := st, c_last_seqno := c_last_seqno z + 1,
                  c_robust_queue := c_robust_queue z @ [c_sent r]\<rparr>) (cq_cid r)
       (c_answer (c_node z) (c_replies z ! nat (cq_cid r)) (c_last_seqno z + 1) (cq_rid r) body)"

lemma order_new_request:
  assumes "c_ok z" "c_request_of r cmd" "0 \<le> cq_cid r" "cq_cid r < num_principals (c_node z)"
    and "cy_rid (c_replies z ! nat (cq_cid r)) < cq_rid r" "node_id (c_node z) = 0 \<or> q = c_last_seqno z + 1"
    and "e_exec E (c_service z) cmd (cq_cid r) = (st, body)" "length body \<le> c_new_reply_size (c_node z)"
  shows "c_order E z (c_with r q l cmd macs) =
     Inr (Some (c_done z (c_with r (c_last_seqno z + 1) l cmd macs) st body, c_with r (c_last_seqno z + 1) l cmd macs))"
proof -
  note y = c_rep_at_ok [OF assms(1,3,4)]
  have "c_is_seen z (c_with r q l cmd macs) = Inr False"
    using y(1) assms(5) by (simp add: c_is_seen_def)
  moreover have "c_rep_at (z\<lparr>c_seqno := c_last_seqno z + 1\<rparr>) (cq_cid r) = Inr (c_replies z ! nat (cq_cid r))"
    using y(1) by (simp add: c_rep_at_def split: if_splits)
  then have "c_execute_request E (z\<lparr>c_seqno := c_last_seqno z + 1\<rparr>) (c_with r (c_last_seqno z + 1) l cmd macs) =
      Inr (c_done z (c_with r (c_last_seqno z + 1) l cmd macs) st body)"
    using c_execute_eq [of "z\<lparr>c_seqno := c_last_seqno z + 1\<rparr>" "c_with r (c_last_seqno z + 1) l cmd macs" "c_replies z ! nat (cq_cid r)" E st body]
      assms(2,7,8) by (simp add: c_done_def)
  moreover have "c_seqno z = c_last_seqno z" using assms(1) by (simp add: c_ok_def)
  ultimately show ?thesis using assms(6) by (auto simp: c_order_def Let_def)
qed

lemma answer_ok:
  assumes "c_rep_ok y" "max_faulty nd = 1" "length body \<le> c_new_reply_size nd"
  shows "c_rep_ok (c_answer nd y sq rid body)"
    "nat (cy_size (c_answer nd y sq rid body)) = 120 + length body + (nat (ALIGNED_SIZE (120 + int (length body))) - (120 + length body))"
    "cy_size (c_answer nd y sq rid body) \<le> 8192" "ALIGNED (cy_size (c_answer nd y sq rid body))"
proof -
  let ?n = "120 + int (length body)"
  have m: "c_reply_macs_size nd = 32" using assms(2) by (simp add: c_reply_macs_size_def C_UNonce_size_def C_UMAC_size_def)
  then have l: "length body \<le> 8072" using assms(3) by (simp add: c_new_reply_size_def C_Max_rep_size_def C_Reply_rep_size_def)
  have sz: "cy_size (c_answer nd y sq rid body) = ALIGNED_SIZE ?n"
    by (simp add: c_answer_def m C_Reply_rep_size_def Let_def algebra_simps)
  have b: "?n \<le> ALIGNED_SIZE ?n" "ALIGNED_SIZE ?n \<le> 8192"
    using l aligned_bounds [of ?n] aligned_least [of ?n 8192] by (simp_all add: ALIGNED_def ALIGNMENT_def)
  show "nat (cy_size (c_answer nd y sq rid body)) = 120 + length body + (nat (ALIGNED_SIZE ?n) - (120 + length body))"
    "cy_size (c_answer nd y sq rid body) \<le> 8192" "ALIGNED (cy_size (c_answer nd y sq rid body))"
    using b aligned_bounds(3) unfolding sz by (auto simp: nat_le_eq_zle)
  have "nat (ALIGNED_SIZE ?n) - 88 \<le> 8104" "120 + length body \<le> nat (ALIGNED_SIZE ?n)" using b by auto
  then show "c_rep_ok (c_answer nd y sq rid body)"
    using assms(1) m by (simp add: c_rep_ok_def c_answer_def C_Reply_rep_size_def C_Max_rep_size_def Let_def algebra_simps)
qed

text \<open>What all replicas keep: after a new request they are ready for the next one.\<close>

definition c_served :: "'st creplica \<Rightarrow> crequest \<Rightarrow> 'st \<Rightarrow> 'st creplica \<Rightarrow> bool" where
  "c_served z r st z' \<longleftrightarrow>
     c_ready z' \<and> c_service z' = st \<and> c_last_seqno z' = c_last_seqno z + 1 \<and> node_id (c_node z') = node_id (c_node z) \<and>
     num_principals (c_node z') = num_principals (c_node z) \<and> c_connectlist z' = c_connectlist z \<and>
     length (c_robust_queue z') = Suc (length (c_robust_queue z)) \<and>
     (\<forall>cid \<ge> 0. cy_rid (c_replies z' ! nat cid) = (if cid = cq_cid r then cq_rid r else cy_rid (c_replies z ! nat cid)))"

lemma node_ok_nonce [simp]: "node_ok (nd\<lparr>umac_nonce := u\<rparr>) = node_ok nd"
  by (simp add: node_ok_def)

lemma begun_simps [simp]:
  "c_node (c_begun E z r) = c_node z" "c_replies (c_begun E z r) = c_replies z" "c_last_seqno (c_begun E z r) = c_last_seqno z"
  "c_service (c_begun E z r) = c_service z" "c_ok (c_begun E z r) = c_ok z" "c_ready (c_begun E z r) = c_ready z"
  "c_connectlist (c_begun E z r) = c_connectlist z" "c_robust_queue (c_begun E z r) = c_robust_queue z" "c_cur_state (c_begun E z r) = c_cur_state z"
  by (simp_all add: c_begun_def c_emit_def c_ok_def c_ready_def)

lemma done_served:
  assumes "c_ready z" "0 \<le> cq_cid r" "cq_cid r < num_principals (c_node z)" "length body \<le> c_new_reply_size (c_node z)"
  shows "c_served z r st ((c_done z r st body)\<lparr>c_node := (c_node z)\<lparr>umac_nonce := u\<rparr>\<rparr>)"
proof -
  note y = c_rep_at_ok [OF _ assms(2,3)]
  have ok: "c_ok z" and f: "max_faulty (c_node z) = 1" using assms(1) by (simp_all add: c_ready_def)
  have "\<forall>y \<in> set ((c_replies z)[nat (cq_cid r) := c_answer (c_node z) (c_replies z ! nat (cq_cid r)) (c_last_seqno z + 1) (cq_rid r) body]). c_rep_ok y"
    using ok answer_ok(1) [OF y(3) [OF ok] f assms(4)] by (auto simp: c_ok_def dest!: set_update_subset_insert [THEN subsetD])
  then have "c_ready ((c_done z r st body)\<lparr>c_node := (c_node z)\<lparr>umac_nonce := u\<rparr>\<rparr>)"
    using assms(1) by (simp add: c_ready_def c_ok_def c_done_def c_set_rep_def is_replica_def)
  then show ?thesis
    using y(2) [OF ok] assms(2) by (auto simp: c_served_def c_done_def c_set_rep_def c_answer_def Let_def nth_list_update eq_nat_nat_iff)
qed

lemma served_simps [simp]:
  "c_served z r st (c_emit z' o') = c_served z r st z'" "c_served (c_begun E z m) r st z' = c_served z r st z'"
  "c_served z (c_with r q l cmd macs) st z' = c_served z r st z'"
  "c_served z r st (z'\<lparr>c_nb_sent_replies := k\<rparr>) = c_served z r st z'"
  by (simp_all add: c_served_def c_emit_def c_ready_def c_ok_def)

lemma c_outs [simp]:
  "c_out (c_emit z o') = c_out z @ [o']" "c_out (c_set_rep z pid y) = c_out z" "c_out (c_done z r st body) = c_out z"
  "c_out (c_begun E z r) = c_out z @ [C_Monitor_req (cq_cid r) (cq_rid r)]"
  by (simp_all add: c_emit_def c_set_rep_def c_done_def c_begun_def)

text \<open>What a replica expects of a new request, and the result of its execution.\<close>

definition c_expects :: "'st env \<Rightarrow> 'st creplica \<Rightarrow> crequest \<Rightarrow> byte list \<Rightarrow> 'st \<Rightarrow> byte list \<Rightarrow> bool" where
  "c_expects E z r cmd st body \<longleftrightarrow>
     c_ready z \<and> c_request_of r cmd \<and> 3 < cq_cid r \<and> cq_cid r < num_principals (c_node z) \<and>
     cy_rid (c_replies z ! nat (cq_cid r)) < cq_rid r \<and>
     e_exec E (c_service z) cmd (cq_cid r) = (st, body) \<and> length body \<le> c_new_reply_size (c_node z)"

abbreviation c_header :: "'st creplica \<Rightarrow> crequest \<Rightarrow> byte list \<Rightarrow> byte list" where
  "c_header z r body \<equiv> c_reply_rep_bytes (c_answer (c_node z) (c_replies z ! nat (cq_cid r)) (c_last_seqno z + 1) (cq_rid r) body)"

lemma hop_executes:
  assumes "c_expects E z r cmd st body" "node_id (c_node z) = 0 \<or> q = c_last_seqno z + 1"
    and "c_verify (e_crypto E) (c_node z) (c_with r q l cmd macs) 0 = Inr (True, c_with r q l cmd macs', a)"
  shows "c_handle_request E z (c_with r q l cmd macs) =
     c_reply_or_forward E (c_done (c_begun E z (c_with r q l cmd macs)) (c_with r (c_last_seqno z + 1) l cmd macs') st body)
       (c_with r (c_last_seqno z + 1) l cmd macs') a"
proof -
  let ?z = "c_begun E z (c_with r q l cmd macs)"
  have "c_order E ?z (c_with r q l cmd macs') =
      Inr (Some (c_done ?z (c_with r (c_last_seqno z + 1) l cmd macs') st body, c_with r (c_last_seqno z + 1) l cmd macs'))"
    using order_new_request [of ?z r cmd q E st body l macs'] assms(1,2) by (simp add: c_expects_def c_ready_def)
  then show ?thesis
    using ready_handles [OF _ _ assms(3)] assms(1) by (simp add: c_expects_def)
qed

lemma done_rep_at:
  assumes "c_ok z" "0 \<le> cq_cid r" "cq_cid r < num_principals (c_node z)"
  shows "c_rep_at (c_done z r st body) (cq_cid r) =
     Inr (c_answer (c_node z) (c_replies z ! nat (cq_cid r)) (c_last_seqno z + 1) (cq_rid r) body)"
  using c_rep_at_ok(2) [OF assms] assms by (simp add: c_done_def c_set_rep_def c_rep_at_def c_ok_def)

lemma done_node [simp]: "c_node (c_done z r st body) = c_node z" "c_cur_state (c_done z r st body) = c_cur_state z"
  "c_connectlist (c_done z r st body) = c_connectlist z"
  by (simp_all add: c_done_def c_set_rep_def)

lemma hop_forwards:
  assumes x: "c_expects E z r cmd st body" "node_id (c_node z) \<le> 2" "node_id (c_node z) = 0 \<or> q = c_last_seqno z + 1"
    and v: "c_verify (e_crypto E) (c_node z) (c_with r q l cmd macs) 0 = Inr (True, c_with r q l cmd macs', a)"
    and g: "c_gen_auth (e_crypto E) (c_node z) (c_bytes r (c_last_seqno z + 1)) macs' a (Some (c_header z r body)) (node_id (c_node z)) (cq_cid r) =
      Inr (macs5 A B C D F R, (c_node z)\<lparr>umac_nonce := u\<rparr>)"
    and b: "block A" "block B" "block C" "block D" "block F" "c_padding cmd \<le> length R"
  shows "\<exists>z'. c_handle_request E z (c_with r q l cmd macs) = Inr z' \<and> c_served z r st z' \<and>
     c_out z' = c_out z @ [C_Monitor_req (cq_cid r) (cq_rid r), C_Forward (c_with r (c_last_seqno z + 1) l cmd (macs5 A B C D F (take (c_padding cmd) R)))]"
proof -
  let ?q = "c_last_seqno z + 1"
  let ?z = "c_begun E z (c_with r q l cmd macs)"
  let ?d = "c_done ?z (c_with r ?q l cmd macs') st body"
  have r: "c_request_of r cmd" "3 < cq_cid r" "cq_cid r < num_principals (c_node z)" "c_ready z" "length body \<le> c_new_reply_size (c_node z)"
    and ok: "c_ok z" and n: "num_replicas (c_node z) = 4"
    using x(1) by (auto simp: c_expects_def c_ready_def c_ok_def node_ok_def)
  have y: "c_rep_at ?d (cq_cid r) = Inr (c_answer (c_node z) (c_replies z ! nat (cq_cid r)) ?q (cq_rid r) body)"
    using done_rep_at [of ?z "c_with r ?q l cmd macs'" st body] ok r by simp
  have "c_authenticate (e_crypto E) (c_node z) (c_with r ?q l cmd macs') (node_id (c_node z)) a (Some (c_header z r body)) =
      Inr (c_with r ?q l cmd (macs5 A B C D F R), (c_node z)\<lparr>umac_nonce := u\<rparr>)"
    using g r(1) by (simp add: c_authenticate_def)
  then have "c_handle_request E z (c_with r q l cmd macs) =
      Inr (c_emit (?d\<lparr>c_node := (c_node z)\<lparr>umac_nonce := u\<rparr>\<rparr>) (C_Forward (c_with r ?q l cmd (macs5 A B C D F (take (c_padding cmd) R)))))"
    using hop_executes [OF x(1,3) v] y x(2) n c_sent_with [OF r(1) b]
    by (simp add: c_reply_or_forward_def c_is_last_def Let_def)
  moreover have "c_served z r st (?d\<lparr>c_node := (c_node z)\<lparr>umac_nonce := u\<rparr>\<rparr>)"
    using done_served [of ?z "c_with r ?q l cmd macs'" body st u] r by simp
  ultimately show ?thesis by auto
qed

lemma c_tag_eq: "c_tag c nd s j = cr_umac c (chan_key (node_id nd) j) s (c_nonce nd)"
  by (simp add: c_tag_def)

lemma hop_head:
  assumes x: "crypto_ok (e_crypto E)" "c_expects E z r cmd st body" "node_id (c_node z) = 0"
    and b: "block N" "block M" "block X" "block Y" "block Z" "16 \<le> length R" "c_padding cmd \<le> length R - 16"
    and M: "M = cr_umac (e_crypto E) (chan_key (cq_cid r) 0) (c_bytes r 0) N"
  shows "\<exists>z' P. c_handle_request E z (c_with r 0 l cmd (macs5 N M X Y Z R)) = Inr z' \<and> c_served z r st z' \<and> length P = c_padding cmd \<and>
     c_out z' = c_out z @ [C_Monitor_req (cq_cid r) (cq_rid r), C_Forward (c_with r (c_last_seqno z + 1) l cmd
       (macs5 N X (c_nonce (c_node z)) (c_tag (e_crypto E) (c_node z) (c_bytes r (c_last_seqno z + 1)) 1)
          (c_tag (e_crypto E) (c_node z) (c_bytes r (c_last_seqno z + 1)) 2) P))]"
proof -
  let ?s = "c_bytes r (c_last_seqno z + 1)"
  have n: "node_ok (c_node z)" "max_faulty (c_node z) = 1" "c_request_of r cmd" "3 < cq_cid r" "cq_cid r < num_principals (c_node z)"
    using x(2) by (auto simp: c_expects_def c_ready_def c_ok_def)
  obtain U R' where R': "R = U @ R'" "block U" "length R' = length R - 8" using split_block [of R] b(6) by auto
  have "8 \<le> length R'" using R'(3) b(6) by simp
  then obtain V W where W: "R' = V @ W" "block V" "length W = length R' - 8" by (rule split_block)
  have R: "R = U @ V @ W" and bb: "block U" "block V" using R'(1,2) W(1,2) by simp_all
  have v: "c_verify (e_crypto E) (c_node z) (c_with r 0 l cmd (macs5 N M X Y Z R)) 0 =
      Inr (True, c_with r 0 l cmd (macs5 N X Y Z U (V @ V @ W)), 16)"
    unfolding R using verify_head [OF x(1) n(1,2) x(3) n(3-5) b(1-5) bb M] .
  have g: "c_gen_auth (e_crypto E) (c_node z) ?s (macs5 N X Y Z U (V @ V @ W)) 16 (Some (c_header z r body)) (node_id (c_node z)) (cq_cid r) =
      Inr (macs5 N X (c_nonce (c_node z)) (c_tag (e_crypto E) (c_node z) ?s 1) (c_tag (e_crypto E) (c_node z) ?s 2) (V @ V @ W),
        (c_node z)\<lparr>umac_nonce := umac_nonce (c_node z) + 1\<rparr>)"
    using gen_auth_two [OF x(1) n(1,2), of 0 Y Z U ?s "N @ X" "V @ V @ W"] b bb x(3) by (simp add: block_def)
  have p: "c_padding cmd \<le> length (V @ V @ W)" using b(7) R'(3) W(3) by simp
  have "\<exists>z'. c_handle_request E z (c_with r 0 l cmd (macs5 N M X Y Z R)) = Inr z' \<and> c_served z r st z' \<and>
     c_out z' = c_out z @ [C_Monitor_req (cq_cid r) (cq_rid r), C_Forward (c_with r (c_last_seqno z + 1) l cmd (macs5 N X (c_nonce (c_node z))
       (c_tag (e_crypto E) (c_node z) ?s 1) (c_tag (e_crypto E) (c_node z) ?s 2) (take (c_padding cmd) (V @ V @ W))))]"
    by (rule hop_forwards [OF x(2) _ _ v g b(1) b(3) block_nonce block_tag [OF x(1)] block_tag [OF x(1)] p]) (simp_all add: x(3))
  moreover have "length (take (c_padding cmd) (V @ V @ W)) = c_padding cmd" using p by simp
  ultimately show ?thesis by blast
qed

text \<open>A replica behind the head, for the tags \<open>T\<close> and \<open>T'\<close> it adds.\<close>

lemma hop_middle:
  assumes x: "crypto_ok (e_crypto E)" "c_expects E z r cmd st body" "1 \<le> node_id (c_node z)" "node_id (c_node z) \<le> 2"
    and b: "block X" "block Y" "block Z" "block T" "block T'" "length P = c_padding cmd"
    and v: "c_verify (e_crypto E) (c_node z) (c_with r (c_last_seqno z + 1) l cmd macs) 0 =
      Inr (True, c_with r (c_last_seqno z + 1) l cmd (macs5 X Z Z Y Z (P @ S)), 16)"
    and g: "c_gen_auth (e_crypto E) (c_node z) (c_bytes r (c_last_seqno z + 1)) (macs5 X Z Z Y Z (P @ S)) 16
        (Some (c_header z r body)) (node_id (c_node z)) (cq_cid r) =
      Inr (macs5 X Z (c_nonce (c_node z)) T T' (P @ S), (c_node z)\<lparr>umac_nonce := umac_nonce (c_node z) + 1\<rparr>)"
  shows "\<exists>z'. c_handle_request E z (c_with r (c_last_seqno z + 1) l cmd macs) = Inr z' \<and> c_served z r st z' \<and>
     c_out z' = c_out z @ [C_Monitor_req (cq_cid r) (cq_rid r), C_Forward (c_with r (c_last_seqno z + 1) l cmd (macs5 X Z (c_nonce (c_node z)) T T' P))]"
proof -
  have "c_padding cmd \<le> length (P @ S)" "take (c_padding cmd) (P @ S) = P" using b(6) by simp_all
  then show ?thesis
    using hop_forwards [OF x(2) x(4) _ v g b(1,3) block_nonce b(4,5)] by simp
qed

lemma expects_node:
  assumes "c_expects E z r cmd st body"
  shows "node_ok (c_node z)" "max_faulty (c_node z) = 1" "c_request_of r cmd" "3 < cq_cid r" "cq_cid r < num_principals (c_node z)"
  using assms by (auto simp: c_expects_def c_ready_def c_ok_def)

lemma hop_second:
  assumes x: "crypto_ok (e_crypto E)" "c_expects E z r cmd st body" "node_id (c_node z) = 1"
    and b: "block N" "block M" "block X" "block Y" "block Z" "length P = c_padding cmd"
    and t: "M = cr_umac (e_crypto E) (chan_key (cq_cid r) 1) (c_bytes r 0) N"
      "Y = cr_umac (e_crypto E) (chan_key 0 1) (c_bytes r (c_last_seqno z + 1)) X"
  shows "\<exists>z'. c_handle_request E z (c_with r (c_last_seqno z + 1) l cmd (macs5 N M X Y Z (P @ S))) = Inr z' \<and> c_served z r st z' \<and>
     c_out z' = c_out z @ [C_Monitor_req (cq_cid r) (cq_rid r), C_Forward (c_with r (c_last_seqno z + 1) l cmd
       (macs5 X Z (c_nonce (c_node z)) (c_tag (e_crypto E) (c_node z) (c_bytes r (c_last_seqno z + 1)) 2)
          (c_tag (e_crypto E) (c_node z) (c_bytes r (c_last_seqno z + 1)) 3) P))]"
proof (rule hop_middle [OF x(1,2)])
  note n = expects_node [OF x(2)]
  show "c_verify (e_crypto E) (c_node z) (c_with r (c_last_seqno z + 1) l cmd (macs5 N M X Y Z (P @ S))) 0 =
      Inr (True, c_with r (c_last_seqno z + 1) l cmd (macs5 X Z Z Y Z (P @ S)), 16)"
    by (rule verify_second [OF x(1) n(1,2) x(3) n(3-5) b(1-5) t])
  show "c_gen_auth (e_crypto E) (c_node z) (c_bytes r (c_last_seqno z + 1)) (macs5 X Z Z Y Z (P @ S)) 16
        (Some (c_header z r body)) (node_id (c_node z)) (cq_cid r) =
      Inr (macs5 X Z (c_nonce (c_node z)) (c_tag (e_crypto E) (c_node z) (c_bytes r (c_last_seqno z + 1)) 2)
        (c_tag (e_crypto E) (c_node z) (c_bytes r (c_last_seqno z + 1)) 3) (P @ S), (c_node z)\<lparr>umac_nonce := umac_nonce (c_node z) + 1\<rparr>)"
    using gen_auth_two [OF x(1) n(1,2), of 1 Z Y Z _ "X @ Z" "P @ S"] b x(3) by (simp add: block_def)
qed (use x b in simp_all)

lemma hop_third:
  assumes x: "crypto_ok (e_crypto E)" "c_expects E z r cmd st body" "node_id (c_node z) = 2"
    and b: "block N" "block M" "block X" "block Y" "block Z" "length P = c_padding cmd"
    and t: "M = cr_umac (e_crypto E) (chan_key 0 2) (c_bytes r (c_last_seqno z + 1)) N"
      "Y = cr_umac (e_crypto E) (chan_key 1 2) (c_bytes r (c_last_seqno z + 1)) X"
  shows "\<exists>z'. c_handle_request E z (c_with r (c_last_seqno z + 1) l cmd (macs5 N M X Y Z (P @ S))) = Inr z' \<and> c_served z r st z' \<and>
     c_out z' = c_out z @ [C_Monitor_req (cq_cid r) (cq_rid r), C_Forward (c_with r (c_last_seqno z + 1) l cmd
       (macs5 X Z (c_nonce (c_node z)) (c_tag (e_crypto E) (c_node z) (c_bytes r (c_last_seqno z + 1)) 3)
          (c_tag (e_crypto E) (c_node z) (c_header z r body) (cq_cid r)) P))]"
proof (rule hop_middle [OF x(1,2)])
  note n = expects_node [OF x(2)]
  show "c_verify (e_crypto E) (c_node z) (c_with r (c_last_seqno z + 1) l cmd (macs5 N M X Y Z (P @ S))) 0 =
      Inr (True, c_with r (c_last_seqno z + 1) l cmd (macs5 X Z Z Y Z (P @ S)), 16)"
    using verify_rest [OF x(1) n(1,2) _ _ n(3,4) b(1-5)] t x(3) by simp
  show "c_gen_auth (e_crypto E) (c_node z) (c_bytes r (c_last_seqno z + 1)) (macs5 X Z Z Y Z (P @ S)) 16
        (Some (c_header z r body)) (node_id (c_node z)) (cq_cid r) =
      Inr (macs5 X Z (c_nonce (c_node z)) (c_tag (e_crypto E) (c_node z) (c_bytes r (c_last_seqno z + 1)) 3)
        (c_tag (e_crypto E) (c_node z) (c_header z r body) (cq_cid r)) (P @ S), (c_node z)\<lparr>umac_nonce := umac_nonce (c_node z) + 1\<rparr>)"
    using gen_auth_one [OF x(1) n(1,2) _ n(5), of Z Y Z _ "X @ Z" "P @ S"] n(4) b x(3) by (simp add: block_def)
qed (use x b in simp_all)

subsection \<open>The reply\<close>

text \<open>A reply to the request \<open>rid\<close> with the result \<open>body\<close>, the header \<open>h\<close> and the authenticators \<open>macs\<close>.\<close>

definition c_reply_of :: "creply \<Rightarrow> request_id \<Rightarrow> byte list \<Rightarrow> byte list \<Rightarrow> byte list \<Rightarrow> bool" where
  "c_reply_of y rid body h macs \<longleftrightarrow>
     cy_rid y = rid \<and> \<not> cy_should_switch y \<and> cy_replica y = 0 \<and> cy_reply_size y = int (length body) \<and> cy_digest y = Digest_of body \<and>
     120 + int (length body) \<le> cy_size y \<and> cy_size y \<le> 8192 \<and> ALIGNED (cy_size y) \<and> c_reply_rep_bytes y = h \<and>
     (\<exists>P. cy_tail y = body @ macs @ P \<and> nat (cy_size y) = 120 + length body + length P)"

lemma answer_tail:
  assumes "c_rep_ok y" "max_faulty nd = 1" "length body \<le> c_new_reply_size nd" "length a = 32"
  shows "\<exists>P Q. put_bytes (cy_tail (c_answer nd y sq rid body)) (length body) a = Inr (body @ a @ P @ Q) \<and>
    nat (cy_size (c_answer nd y sq rid body)) = 120 + length body + length P"
proof -
  let ?y = "c_answer nd y sq rid body"
  let ?k = "nat (cy_size ?y) - 88 - length body" and ?n = "nat (ALIGNED_SIZE (120 + int (length body))) - (120 + length body)"
  have m: "c_reply_macs_size nd = 32" using assms(2) by (simp add: c_reply_macs_size_def C_UNonce_size_def C_UMAC_size_def)
  have k: "?k = 32 + ?n" using answer_ok(2) [OF assms(1-3), of sq rid] by simp
  have "cy_tail ?y = body @ replicate ?k 0 @ drop (length body + ?k) (cy_tail y)"
    by (simp add: c_answer_def C_Reply_rep_size_def m Let_def)
  also have "\<dots> = body @ replicate 32 0 @ replicate ?n 0 @ drop (length body + ?k) (cy_tail y)"
    unfolding k replicate_add by simp
  finally have "put_bytes (cy_tail ?y) (length body) a = Inr (body @ a @ replicate ?n 0 @ drop (length body + ?k) (cy_tail y))"
    using put_bytes_at [of "replicate 32 0" a "length body" body] assms(4) by simp
  moreover have "nat (cy_size ?y) = 120 + length body + length (replicate ?n (0 :: byte))"
    using answer_ok(2) [OF assms(1-3), of sq rid] by simp
  ultimately show ?thesis by blast
qed

lemma answer_sent:
  assumes "c_rep_ok y" "max_faulty nd = 1" "length body \<le> c_new_reply_size nd" "length a = 32"
    and "put_bytes (cy_tail (c_answer nd y sq rid body)) (length body) a = Inr t"
  shows "c_reply_of (c_reply_sent ((c_answer nd y sq rid body)\<lparr>cy_cid := -1, cy_tail := t\<rparr>)) rid body
      (c_reply_rep_bytes (c_answer nd y sq rid body)) a"
    "c_rep_ok ((c_answer nd y sq rid body)\<lparr>cy_cid := -1, cy_tail := t\<rparr>)"
proof -
  let ?y = "c_answer nd y sq rid body"
  obtain P Q where t: "t = body @ a @ P @ Q" "nat (cy_size ?y) = 120 + length body + length P"
    using answer_tail [OF assms(1-4), of sq rid] assms(5) by auto
  note ok = answer_ok [OF assms(1-3), of sq rid]
  have f: "cy_rid ?y = rid" "cy_reply_size ?y = int (length body)" "cy_digest ?y = Digest_of body" "cy_cid ?y = -1"
    by (simp_all add: c_answer_def Let_def)
  have y: "cy_extra ?y = 0" "\<not> cy_should_switch ?y" "cy_replica ?y = 0" using ok(1) by (simp_all add: c_rep_ok_def)
  have "take (nat (cy_size ?y) - C_Reply_rep_size) t = body @ a @ P"
    using t assms(4) by (simp add: C_Reply_rep_size_def)
  moreover have "c_reply_rep_bytes (?y\<lparr>cy_cid := -1, cy_tail := u\<rparr>) = c_reply_rep_bytes ?y" for u
    using f(4) by (simp add: c_reply_rep_bytes_def)
  moreover have "120 + int (length body) \<le> cy_size ?y" using t(2) by linarith
  ultimately show "c_reply_of (c_reply_sent (?y\<lparr>cy_cid := -1, cy_tail := t\<rparr>)) rid body (c_reply_rep_bytes ?y) a"
    using ok(3,4) f(1-3) y t(2) by (simp add: c_reply_of_def c_reply_sent_def)
  show "c_rep_ok (?y\<lparr>cy_cid := -1, cy_tail := t\<rparr>)"
    using ok(1) put_bytes_length [OF assms(5)] by (simp add: c_rep_ok_def)
qed

lemma served_set_rep:
  assumes "c_served z r st z1" "c_rep_ok y" "cy_rid y = cq_rid r" "0 \<le> cq_cid r" "cq_cid r < num_principals (c_node z)"
  shows "c_served z r st (c_set_rep z1 (cq_cid r) y)"
proof -
  have "\<forall>y' \<in> set ((c_replies z1)[nat (cq_cid r) := y]). c_rep_ok y'"
    using assms(1,2) by (auto simp: c_served_def c_ready_def c_ok_def dest!: set_update_subset_insert [THEN subsetD])
  moreover have "nat (cq_cid r) < length (c_replies z1)"
    using assms(1,4,5) by (auto simp: c_served_def c_ready_def c_ok_def)
  ultimately show ?thesis
    using assms(1,3,4) by (auto simp: c_served_def c_ready_def c_ok_def c_set_rep_def nth_list_update eq_nat_nat_iff)
qed

lemma send_answer:
  assumes y: "c_rep_at z pid = Inr y" "cy_reply_size y \<noteq> -1" "c_rep_ok y" and m: "read_bytes macs 0 (c_reply_macs_size (c_node z)) = Inr a"
    and t: "put_bytes (cy_tail y) (nat (cy_reply_size y)) a = Inr t"
  shows "c_send_reply z pid sock macs = Inr (c_emit (c_set_rep z pid (y\<lparr>cy_cid := -1, cy_tail := t\<rparr>))
      (C_Send_reply sock (c_reply_sent (y\<lparr>cy_cid := -1, cy_tail := t\<rparr>))))"
  using assms by (simp add: c_send_reply_def c_rep_ok_def Let_def)

lemma answer_simps [simp]:
  "cy_reply_size (c_answer nd y sq rid body) = int (length body)" "cy_rid (c_answer nd y sq rid body) = rid"
  by (simp_all add: c_answer_def Let_def)

lemma done_socket [simp]: "c_socket (c_done (c_begun E z m) r st body) l = c_socket z l"
  by (simp add: c_socket_def)

lemma read_reply_macs:
  assumes "max_faulty nd = 1" "length a = 32"
  shows "read_bytes (a @ R) 0 (c_reply_macs_size nd) = Inr a"
  using assms by (simp add: c_reply_macs_size_def C_UNonce_size_def C_UMAC_size_def read_bytes_def)

lemma last_replies:
  assumes "c_rep_at z (cq_cid r) = Inr y" "cy_reply_size y = int (length body)" "c_rep_ok y" "c_cur_state z = replica_state_NORMAL" "c_is_last z"
    and "c_authenticate (e_crypto E) (c_node z) r (node_id (c_node z)) a (Some (c_reply_rep_bytes y)) = Inr (r', (c_node z)\<lparr>umac_nonce := u\<rparr>)"
    and "cq_cid r' = cq_cid r" "c_socket z (cq_listnum r') = Inr sock"
    and "read_bytes (c_macs r') 0 (c_reply_macs_size (c_node z)) = Inr m" "put_bytes (cy_tail y) (length body) m = Inr t"
  shows "c_reply_or_forward E z r a =
     Inr (c_emit (c_set_rep (z\<lparr>c_node := (c_node z)\<lparr>umac_nonce := u\<rparr>, c_nb_sent_replies := c_nb_sent_replies z + 1\<rparr>) (cq_cid r) (y\<lparr>cy_cid := -1, cy_tail := t\<rparr>))
       (C_Send_reply sock (c_reply_sent (y\<lparr>cy_cid := -1, cy_tail := t\<rparr>))))"
proof -
  let ?z = "z\<lparr>c_node := (c_node z)\<lparr>umac_nonce := u\<rparr>, c_nb_sent_replies := c_nb_sent_replies z + 1\<rparr>"
  have "c_rep_at ?z (cq_cid r) = Inr y" using assms(1) by (auto simp: c_rep_at_def split: if_splits)
  then have "c_send_reply ?z (cq_cid r) sock (c_macs r') =
     Inr (c_emit (c_set_rep ?z (cq_cid r) (y\<lparr>cy_cid := -1, cy_tail := t\<rparr>)) (C_Send_reply sock (c_reply_sent (y\<lparr>cy_cid := -1, cy_tail := t\<rparr>))))"
    by (rule send_answer) (use assms in \<open>simp_all add: c_reply_macs_size_def\<close>)
  moreover have "c_socket (z\<lparr>c_node := nd\<rparr>) i = c_socket z i" "c_is_last (z\<lparr>c_node := (c_node z)\<lparr>umac_nonce := u\<rparr>\<rparr>) = c_is_last z" for nd i
    by (simp_all add: c_socket_def c_is_last_def)
  ultimately show ?thesis
    using assms by (simp add: c_reply_or_forward_def c_reply_to_client_def Let_def)
qed

lemma hop_last:
  assumes x: "crypto_ok (e_crypto E)" "c_expects E z r cmd st body" "node_id (c_node z) = 3" "c_socket z l = Inr sock"
    and b: "block N" "block M" "block X" "block Y" "block Z"
    and t: "M = cr_umac (e_crypto E) (chan_key 1 3) (c_bytes r (c_last_seqno z + 1)) N"
      "Y = cr_umac (e_crypto E) (chan_key 2 3) (c_bytes r (c_last_seqno z + 1)) X"
  shows "\<exists>z' y. c_handle_request E z (c_with r (c_last_seqno z + 1) l cmd (macs5 N M X Y Z R)) = Inr z' \<and> c_served z r st z' \<and>
     c_out z' = c_out z @ [C_Monitor_req (cq_cid r) (cq_rid r), C_Send_reply sock y] \<and>
     c_reply_of y (cq_rid r) body (c_header z r body)
       (X @ Z @ c_nonce (c_node z) @ c_tag (e_crypto E) (c_node z) (c_header z r body) (cq_cid r))"
proof -
  let ?q = "c_last_seqno z + 1" and ?u = "umac_nonce (c_node z) + 1"
  let ?r = "c_with r ?q l cmd (macs5 X Z Z Y Z R)"
  let ?d = "c_done (c_begun E z (c_with r ?q l cmd (macs5 N M X Y Z R))) ?r st body"
  let ?y = "c_answer (c_node z) (c_replies z ! nat (cq_cid r)) ?q (cq_rid r) body"
  let ?T = "c_tag (e_crypto E) (c_node z) (c_header z r body) (cq_cid r)"
  let ?a = "X @ Z @ c_nonce (c_node z) @ ?T"
  note n = expects_node [OF x(2)]
  have rd: "c_ready z" "c_ok z" "length body \<le> c_new_reply_size (c_node z)" and n4: "num_replicas (c_node z) = 4"
    using x(2) n(1,2) by (auto simp: c_expects_def c_ready_def node_ok_def)
  have rep: "c_rep_ok (c_replies z ! nat (cq_cid r))" using c_rep_at_ok(3) [OF rd(2), of "cq_cid r"] n by simp
  have la: "length ?a = 32" using b block_nonce block_tag [OF x(1)] by (simp add: block_def)
  obtain t' where t': "put_bytes (cy_tail ?y) (length body) ?a = Inr t'"
    using answer_tail [OF rep n(2) rd(3) la] by blast
  have v: "c_verify (e_crypto E) (c_node z) (c_with r ?q l cmd (macs5 N M X Y Z R)) 0 = Inr (True, ?r, 16)"
    using verify_rest [OF x(1) n(1,2) _ _ n(3,4) b] t x(3) by simp
  have "c_gen_auth (e_crypto E) (c_node z) (c_bytes r ?q) (macs5 X Z Z Y Z R) 16 (Some (c_header z r body)) 3 (cq_cid r) =
      Inr (macs5 X Z (c_nonce (c_node z)) ?T Z R, (c_node z)\<lparr>umac_nonce := ?u\<rparr>)"
    using gen_auth_none [OF x(1) n(1,2) _ n(5), of Z Y _ "X @ Z" "Z @ R"] n(4) b by (simp add: block_def)
  then have a: "c_authenticate (e_crypto E) (c_node z) ?r 3 16 (Some (c_header z r body)) =
      Inr (c_with r ?q l cmd (macs5 X Z (c_nonce (c_node z)) ?T Z R), (c_node z)\<lparr>umac_nonce := ?u\<rparr>)"
    using n(3) by (simp add: c_authenticate_def)
  let ?z' = "c_emit (c_set_rep (?d\<lparr>c_node := (c_node z)\<lparr>umac_nonce := ?u\<rparr>, c_nb_sent_replies := c_nb_sent_replies ?d + 1\<rparr>) (cq_cid r)
      (?y\<lparr>cy_cid := -1, cy_tail := t'\<rparr>)) (C_Send_reply sock (c_reply_sent (?y\<lparr>cy_cid := -1, cy_tail := t'\<rparr>)))"
  have y: "c_rep_at ?d (cq_cid r) = Inr ?y"
    using done_rep_at [of "c_begun E z (c_with r ?q l cmd (macs5 N M X Y Z R))" ?r st body] rd(2) n by simp
  have m: "read_bytes (macs5 X Z (c_nonce (c_node z)) ?T Z R) 0 (c_reply_macs_size (c_node z)) = Inr ?a"
    using read_reply_macs [OF n(2) la, of "Z @ R"] by simp
  have "c_reply_or_forward E ?d ?r 16 = Inr ?z'"
    using last_replies [of ?d ?r ?y body E 16 "c_with r ?q l cmd (macs5 X Z (c_nonce (c_node z)) ?T Z R)" ?u sock ?a t']
      y m a t' n(3) n4 x(3,4) rd(1) answer_ok(1) [OF rep n(2) rd(3)] by (simp add: c_ready_def c_is_last_def)
  then have "c_handle_request E z (c_with r ?q l cmd (macs5 N M X Y Z R)) = Inr ?z'"
    using hop_executes [OF x(2) _ v] by simp
  moreover have "c_served z r st (?d\<lparr>c_node := (c_node z)\<lparr>umac_nonce := ?u\<rparr>, c_nb_sent_replies := c_nb_sent_replies ?d + 1\<rparr>)"
    using done_served [of "c_begun E z (c_with r ?q l cmd (macs5 N M X Y Z R))" ?r body st ?u] rd n by simp
  then have "c_served z r st ?z'"
    using answer_sent(2) [OF rep n(2) rd(3) la t'] n unfolding served_simps(1) by (intro served_set_rep) simp_all
  ultimately show ?thesis
    using answer_sent(1) [OF rep n(2) rd(3) la t'] by (intro exI [of _ ?z'] exI conjI) simp_all
qed

text \<open>The client accepts the reply, and the authenticators of the last two replicas are right.\<close>

lemma client_accepts:
  assumes "crypto_ok c" "node_ok nd" "max_faulty nd = 1" "4 \<le> node_id nd" "ccl_node cl = nd" "ccl_out_req cl \<noteq> None"
    and y: "c_reply_of y (ccl_out_rid cl) body h (N @ M @ X @ Y)"
    and b: "block N" "block M" "block X" "block Y"
    and t: "M = cr_umac c (chan_key 2 (node_id nd)) h N" "Y = cr_umac c (chan_key 3 (node_id nd)) h X"
  shows "\<exists>y' cl'. c_recv_reply c tv slack cl (Some y # ms) = Inr (Some (Some y', cl', ms)) \<and> ccl_out_req cl' = None \<and>
      chain_recv_result (Some y') = (0, Some body)"
    and "\<exists>b'. c_verify_auth c nd 4 0 h (drop (length body) (cy_tail y)) 0 = Inr (True, b', 0)"
proof -
  obtain P where P: "cy_tail y = body @ N @ M @ X @ Y @ P" "nat (cy_size y) = 120 + length body + length P"
    using y by (auto simp: c_reply_of_def)
  let ?y = "y\<lparr>cy_tail := body @ N @ M @ X @ Y @ P @ slack\<rparr>"
  have l: "length (cy_tail y) = nat (cy_size y) - C_Reply_rep_size" using P b [THEN blockD] by (simp add: C_Reply_rep_size_def)
  have conv: "c_reply_convert slack y = Inr (Some ?y)"
    using y l P(1) by (simp add: c_reply_convert_def c_reply_of_def C_Reply_rep_size_def C_Max_message_size_def)
  obtain b' where v: "c_verify_auth c nd 4 0 h (N @ M @ X @ Y @ P @ slack) 0 = Inr (True, b', 0)"
    using client_checks_reply [OF assms(1-4) b t] by blast
  have "c_reply_rep_bytes ?y = c_reply_rep_bytes y" by (simp add: c_reply_rep_bytes_def)
  then have "c_reply_rep_bytes ?y = h" using y by (simp add: c_reply_of_def)
  moreover have n: "num_replicas nd = 4" using assms(2,3) by (simp add: node_ok_def)
  moreover have "length body < 4294967296" using y by (simp add: c_reply_of_def)
  ultimately have "c_reply_verify c nd ?y = Inr (True, ?y\<lparr>cy_tail := body @ b'\<rparr>)"
    using y v assms(3) by (simp add: c_reply_verify_def c_reply_of_def is_replica_def c_reply_macs_size_def C_UNonce_size_def C_UMAC_size_def
        C_Reply_rep_size_def wrap32_def read_bytes_def c_reply_body_def Let_def)
  then have "\<exists>cl'. c_recv_step c tv slack cl (Some y) = Inr (Some (?y\<lparr>cy_tail := body @ b'\<rparr>), cl') \<and> ccl_out_req cl' = None"
    using y conv assms(5) by (simp add: c_recv_step_def c_reply_of_def split: prod.split)
  then obtain cl' where "c_recv_reply c tv slack cl (Some y # ms) = Inr (Some (Some (?y\<lparr>cy_tail := body @ b'\<rparr>), cl', ms))" "ccl_out_req cl' = None"
    using assms(6) by (auto simp: c_recv_reply_def)
  moreover have "chain_recv_result (Some (?y\<lparr>cy_tail := body @ b'\<rparr>)) = (0, Some body)"
    using y by (simp add: chain_recv_result_def c_reply_body_def c_reply_of_def)
  ultimately show "\<exists>y' cl'. c_recv_reply c tv slack cl (Some y # ms) = Inr (Some (Some y', cl', ms)) \<and> ccl_out_req cl' = None \<and>
      chain_recv_result (Some y') = (0, Some body)"
    by blast
  show "\<exists>b'. c_verify_auth c nd 4 0 h (drop (length body) (cy_tail y)) 0 = Inr (True, b', 0)"
    using client_checks_reply [OF assms(1-4) b t] P(1) by simp
qed

end
