(* ===== verification/CService.thy ===== *)
theory CService
  imports CChain ZExecution
begin

section \<open>The chain as a service\<close>

text \<open>
  The composition of the chain client with four replicas (\<open>f = 1\<close>): \<open>c_pass\<close> hands a request to the first replica and
  every message a replica forwards to the next one. Sockets deliver what is sent. The properties of the chain are
  here: a request is answered, the order of execution, the blocking of set-aside requests, and that with \<open>f = 2\<close> replica 1
  rejects what replica 0 sends.
\<close>

fun c_pass ::
  "'st env \<Rightarrow> byte list \<Rightarrow> byte list \<Rightarrow> 'st creplica list \<Rightarrow> crequest \<Rightarrow> ('st creplica list \<times> (int \<times> creply) option) result" where
  "c_pass E mem slack [] m = Inr ([], None)"
| "c_pass E mem slack (z # zs) m =
     rbind (c_receive E mem slack z m) (\<lambda>z'.
     case drop (length (c_out z)) (c_out z') of
       [_, C_Forward m'] \<Rightarrow> rbind (c_pass E mem slack zs m') (\<lambda>(zs', y). Inr (z' # zs', y))
     | [_, C_Send_reply sock y] \<Rightarrow> Inr (z' # zs, Some (sock, y))
     | _ \<Rightarrow> Inr (z' # zs, None))"

text \<open>Four replicas, in the order of the chain, that have executed the same requests.\<close>

definition c_chain :: "'st creplica list \<Rightarrow> bool" where
  "c_chain zs \<longleftrightarrow> length zs = 4 \<and>
     (\<forall>k < 4. c_ready (zs ! k) \<and> node_id (c_node (zs ! k)) = int k \<and> c_service (zs ! k) = c_service (zs ! 0) \<and>
        c_last_seqno (zs ! k) = c_last_seqno (zs ! 0) \<and> num_principals (c_node (zs ! k)) = num_principals (c_node (zs ! 0)) \<and>
        map cy_rid (c_replies (zs ! k)) = map cy_rid (c_replies (zs ! 0)))"

lemma receive_eq:
  assumes "c_request_of r cmd" "block A" "block B" "block C" "block D" "block F" "length P = c_padding cmd"
  shows "c_receive E mem slack z (c_with r q l cmd (macs5 A B C D F P)) = c_handle_request E z (c_with r q l cmd (macs5 A B C D F (P @ slack)))"
  using c_transfer [OF assms] by (simp add: c_receive_def)

lemma header_eq:
  assumes "c_rep_ok y" "c_rep_ok y'" "max_faulty nd = max_faulty nd'"
  shows "c_reply_rep_bytes (c_answer nd y sq rid body) = c_reply_rep_bytes (c_answer nd' y' sq' rid body)"
  using assms by (simp add: c_rep_ok_def c_reply_rep_bytes_def c_answer_def c_reply_macs_size_def Let_def)

lemma chain_cases: "c_chain zs \<Longrightarrow> \<exists>z0 z1 z2 z3. zs = [z0, z1, z2, z3]"
  by (auto simp: c_chain_def numeral_eq_Suc length_Suc_conv)

lemma all_four: "(\<forall>k < (4 :: nat). P k) \<longleftrightarrow> P 0 \<and> P 1 \<and> P 2 \<and> P 3"
  by (auto simp: numeral_eq_Suc less_Suc_eq)

lemma chain_four:
  "c_chain [z0, z1, z2, z3] \<longleftrightarrow>
     c_ready z0 \<and> c_ready z1 \<and> c_ready z2 \<and> c_ready z3 \<and>
     node_id (c_node z0) = 0 \<and> node_id (c_node z1) = 1 \<and> node_id (c_node z2) = 2 \<and> node_id (c_node z3) = 3 \<and>
     (\<forall>z \<in> {z1, z2, z3}. c_service z = c_service z0 \<and> c_last_seqno z = c_last_seqno z0 \<and>
        num_principals (c_node z) = num_principals (c_node z0) \<and> map cy_rid (c_replies z) = map cy_rid (c_replies z0))"
  unfolding c_chain_def all_four by (auto simp: numeral_eq_Suc)

lemma chain_nth:
  assumes "map cy_rid (c_replies z) = map cy_rid (c_replies z')" "0 \<le> i" "i < int (length (c_replies z'))"
  shows "cy_rid (c_replies z ! nat i) = cy_rid (c_replies z' ! nat i)"
proof -
  have "nat i < length (c_replies z')" "length (c_replies z) = length (c_replies z')"
    using assms map_eq_imp_length_eq by auto
  then show ?thesis using arg_cong [OF assms(1), of "\<lambda>xs. xs ! nat i"] by simp
qed

text \<open>The identifiers of the last requests after the request \<open>r\<close>.\<close>

definition rids_after :: "crequest \<Rightarrow> request_id list \<Rightarrow> request_id list" where
  "rids_after r rids = map (\<lambda>i. if int i = cq_cid r then cq_rid r else rids ! i) [0..<length rids]"

lemma served_rids:
  assumes "c_served z r st z'" "c_ok z"
  shows "map cy_rid (c_replies z') = rids_after r (map cy_rid (c_replies z))"
proof (rule nth_equalityI)
  have "int (length (c_replies z')) = int (length (c_replies z))" using assms by (simp add: c_ok_def c_served_def c_ready_def)
  then have l: "length (c_replies z') = length (c_replies z)" by simp
  then show "length (map cy_rid (c_replies z')) = length (rids_after r (map cy_rid (c_replies z)))" by (simp add: rids_after_def)
  fix i assume "i < length (map cy_rid (c_replies z'))"
  moreover have "cy_rid (c_replies z' ! nat (int i)) = (if int i = cq_cid r then cq_rid r else cy_rid (c_replies z ! nat (int i)))"
    using assms(1) by (auto simp: c_served_def simp del: nat_int)
  ultimately show "map cy_rid (c_replies z') ! i = rids_after r (map cy_rid (c_replies z)) ! i"
    using l by (simp add: rids_after_def)
qed

lemma chain_served:
  assumes "c_chain [z0, z1, z2, z3]" "c_served z0 r st z0'" "c_served z1 r st z1'" "c_served z2 r st z2'" "c_served z3 r st z3'"
  shows "c_chain [z0', z1', z2', z3']"
proof -
  have 0: "map cy_rid (c_replies z0') = rids_after r (map cy_rid (c_replies z0))"
    using served_rids [OF assms(2)] assms(1) by (simp add: chain_four c_ready_def)
  have *: "map cy_rid (c_replies z') = map cy_rid (c_replies z0')"
    if "c_served z r st z'" "c_ok z" "map cy_rid (c_replies z) = map cy_rid (c_replies z0)" for z z'
    using served_rids [OF that(1,2)] unfolding 0 that(3) .
  have "c_ok z1" "c_ok z2" "c_ok z3" using assms(1) by (simp_all add: chain_four c_ready_def)
  then have "map cy_rid (c_replies z1') = map cy_rid (c_replies z0')" "map cy_rid (c_replies z2') = map cy_rid (c_replies z0')"
    "map cy_rid (c_replies z3') = map cy_rid (c_replies z0')"
    using assms(1) * [OF assms(3)] * [OF assms(4)] * [OF assms(5)] by (simp_all add: chain_four)
  then show ?thesis using assms unfolding chain_four by (simp add: c_served_def)
qed

lemma fresh_request:
  assumes "rbind (c_request_new nd 0 ln pad od junk) (\<lambda>r. c_store_command r cmd) = Inr req" "length junk = 59948" "length cmd \<le> 59000"
    and "0 \<le> node_id nd" "node_id nd < 32768"
  obtains X where "cq_extra req = 0" "cq_seq_num req = 0" "cq_cid req = node_id nd" "cq_tail req = cmd @ X" "length cmd + length X = 59948"
    "cq_listnum req = ln"
proof -
  have "ALIGNED_SIZE 52 = 56" by (simp add: ALIGNED_SIZE_def ALIGNED_def ALIGNMENT_def)
  moreover have "short_of (node_id nd) = node_id nd" using assms(4,5) by (simp add: short_of_def Let_def)
  ultimately have "req = \<lparr>cq_extra = 0, cq_size = 56, cq_listnum = ln, cq_pad = pad, cq_od = od, cq_seq_num = 0, cq_command_size = 0,
      cq_cid = node_id nd, cq_rid = 0, cq_tail = cmd @ drop (length cmd) (replicate 4 0 @ drop 4 junk)\<rparr>"
    using assms(1-3) by (auto simp: c_request_new_def c_set_size_def c_msize_def C_Request_rep_size_def th_assert_def c_store_command_def put_bytes_def
        rbind_eq_Inr Let_def)
  then show ?thesis by (intro that [of "drop (length cmd) (replicate 4 0 @ drop 4 junk)"]) (use assms(2,3) in simp_all)
qed

lemma pass_forward:
  assumes "c_receive E mem slack z m = Inr z'" "c_out z' = c_out z @ [a, C_Forward m']" "c_pass E mem slack zs m' = Inr (zs', y)"
  shows "c_pass E mem slack (z # zs) m = Inr (z' # zs', y)"
  using assms by simp

lemma pass_chain:
  assumes c: "crypto_ok (e_crypto E)" and zs: "c_chain [z0, z1, z2, z3]"
    and x: "c_expects E z0 r cmd st body" "c_expects E z1 r cmd st body" "c_expects E z2 r cmd st body" "c_expects E z3 r cmd st body"
    and s: "c_socket z3 l = Inr sock" "16 \<le> length slack"
    and b: "block N" "block M" "block X" "block Y" "block Z" "length P = c_padding cmd"
    and t: "M = cr_umac (e_crypto E) (chan_key (cq_cid r) 0) (c_bytes r 0) N" "X = cr_umac (e_crypto E) (chan_key (cq_cid r) 1) (c_bytes r 0) N"
    and h: "h = c_header z3 r body"
  shows "\<exists>zs' y. c_pass E mem slack [z0, z1, z2, z3] (c_with r 0 l cmd (macs5 N M X Y Z P)) = Inr (zs', Some (sock, y)) \<and>
     c_chain zs' \<and> (\<forall>z \<in> set zs'. c_service z = st) \<and>
     c_reply_of y (cq_rid r) body h (c_nonce (c_node z2) @ c_tag (e_crypto E) (c_node z2) h (cq_cid r) @
       c_nonce (c_node z3) @ c_tag (e_crypto E) (c_node z3) h (cq_cid r))"
proof -
  let ?c = "e_crypto E" and ?q = "c_last_seqno z0 + 1"
  let ?s = "c_bytes r ?q"
  let ?n = "\<lambda>z. c_nonce (c_node z)" and ?t = "\<lambda>z. c_tag ?c (c_node z)"
  have ids: "node_id (c_node z0) = 0" "node_id (c_node z1) = 1" "node_id (c_node z2) = 2" "node_id (c_node z3) = 3"
    and q: "c_last_seqno z1 = c_last_seqno z0" "c_last_seqno z2 = c_last_seqno z0" "c_last_seqno z3 = c_last_seqno z0"
    using zs by (simp_all add: chain_four)
  note r = expects_node [OF x(1)] and bl = block_nonce block_tag [OF c]
  have "c_rep_ok (c_replies z ! nat (cq_cid r))" "max_faulty (c_node z) = 1" if "c_expects E z r cmd st body" for z
    using c_rep_at_ok(3) [of z "cq_cid r"] that by (auto simp: c_expects_def c_ready_def)
  then have h2: "c_header z2 r body = h" unfolding h using x(3,4) by (intro header_eq) simp_all
  have tg: "?t z0 s j = cr_umac ?c (chan_key 0 j) s (?n z0)" "?t z1 s j = cr_umac ?c (chan_key 1 j) s (?n z1)"
    "?t z2 s j = cr_umac ?c (chan_key 2 j) s (?n z2)" for s j
    by (simp_all add: c_tag_def ids)
  have l: "16 \<le> length (P @ slack)" "c_padding cmd \<le> length (P @ slack) - 16" using s(2) b(6) by auto
  obtain z0' P0 where 0: "c_handle_request E z0 (c_with r 0 l cmd (macs5 N M X Y Z (P @ slack))) = Inr z0'" "c_served z0 r st z0'" "length P0 = c_padding cmd"
      "c_out z0' = c_out z0 @ [C_Monitor_req (cq_cid r) (cq_rid r), C_Forward (c_with r ?q l cmd (macs5 N X (?n z0) (?t z0 ?s 1) (?t z0 ?s 2) P0))]"
    using hop_head [OF c x(1) ids(1) b(1-5) l t(1)] by blast
  obtain z1' where 1: "c_handle_request E z1 (c_with r ?q l cmd (macs5 N X (?n z0) (?t z0 ?s 1) (?t z0 ?s 2) (P0 @ slack))) = Inr z1'" "c_served z1 r st z1'"
      "c_out z1' = c_out z1 @ [C_Monitor_req (cq_cid r) (cq_rid r), C_Forward (c_with r ?q l cmd (macs5 (?n z0) (?t z0 ?s 2) (?n z1) (?t z1 ?s 2) (?t z1 ?s 3) P0))]"
    using hop_second [OF c x(2) ids(2) b(1,3) bl bl(2) 0(3) t(2), unfolded q, OF tg(1)] by blast
  obtain z2' where 2: "c_handle_request E z2 (c_with r ?q l cmd (macs5 (?n z0) (?t z0 ?s 2) (?n z1) (?t z1 ?s 2) (?t z1 ?s 3) (P0 @ slack))) = Inr z2'" "c_served z2 r st z2'"
      "c_out z2' = c_out z2 @ [C_Monitor_req (cq_cid r) (cq_rid r), C_Forward (c_with r ?q l cmd (macs5 (?n z1) (?t z1 ?s 3) (?n z2) (?t z2 ?s 3) (?t z2 h (cq_cid r)) P0))]"
    using hop_third [OF c x(3) ids(3) bl bl bl(2) 0(3), unfolded h2, unfolded q, OF tg(1) tg(2)] by blast
  obtain z3' y where 3: "c_handle_request E z3 (c_with r ?q l cmd (macs5 (?n z1) (?t z1 ?s 3) (?n z2) (?t z2 ?s 3) (?t z2 h (cq_cid r)) (P0 @ slack))) = Inr z3'"
      "c_served z3 r st z3'" "c_out z3' = c_out z3 @ [C_Monitor_req (cq_cid r) (cq_rid r), C_Send_reply sock y]"
      "c_reply_of y (cq_rid r) body h (?n z2 @ ?t z2 h (cq_cid r) @ ?n z3 @ ?t z3 h (cq_cid r))"
    using hop_last [OF c x(4) ids(4) s(1) bl bl bl(2), folded h, unfolded q, OF tg(2) tg(3)] by blast
  note recv = receive_eq [OF r(3)]
  have "c_pass E mem slack [z3] (c_with r ?q l cmd (macs5 (?n z1) (?t z1 ?s 3) (?n z2) (?t z2 ?s 3) (?t z2 h (cq_cid r)) P0)) = Inr ([z3'], Some (sock, y))"
    using 3(1,3) by (simp add: recv [OF bl bl bl(2) 0(3)])
  then have "c_pass E mem slack [z0, z1, z2, z3] (c_with r 0 l cmd (macs5 N M X Y Z P)) = Inr ([z0', z1', z2', z3'], Some (sock, y))"
    using 0(1) 1(1) 2(1) by (intro pass_forward [OF _ 0(4)] pass_forward [OF _ 1(3)] pass_forward [OF _ 2(3)])
      (simp_all add: recv [OF b] recv [OF b(1,3) bl bl(2) 0(3)] recv [OF bl bl bl(2) 0(3)])
  then show ?thesis
    using chain_served [OF zs 0(2) 1(2) 2(2) 3(2)] 3(4) 0(2) 1(2) 2(2) 3(2) by (auto simp: c_served_def)
qed

lemma new_reply_size_f1: "max_faulty nd = 1 \<Longrightarrow> c_new_reply_size nd = 8072"
  by (simp add: c_new_reply_size_def c_reply_macs_size_def C_Max_rep_size_def C_Reply_rep_size_def C_UNonce_size_def C_UMAC_size_def)

lemma chain_expects:
  assumes "c_chain [z0, z1, z2, z3]" "c_request_of r cmd" "3 < cq_cid r" "cq_cid r < num_principals (c_node z0)"
    and "cy_rid (c_replies z0 ! nat (cq_cid r)) < cq_rid r" "e_exec E (c_service z0) cmd (cq_cid r) = (st, body)" "length body \<le> 8072"
    and "z \<in> {z0, z1, z2, z3}"
  shows "c_expects E z r cmd st body"
proof -
  have z: "c_ready z" "c_service z = c_service z0" "num_principals (c_node z) = num_principals (c_node z0)"
    "map cy_rid (c_replies z) = map cy_rid (c_replies z0)" "c_ok z0"
    using assms(1,8) by (auto simp: chain_four c_ready_def)
  then have "cy_rid (c_replies z ! nat (cq_cid r)) = cy_rid (c_replies z0 ! nat (cq_cid r))"
    using chain_nth [OF z(4)] assms(3,4) by (simp add: c_ok_def)
  then show ?thesis using z assms by (simp add: c_expects_def c_ready_def new_reply_size_f1)
qed

lemma replica_new_ready:
  assumes "c_replica_new nd mhz j1 j2 junk 0 [] st tms = Inr z" "node_ok nd" "max_faulty nd = 1"
  shows "c_ready z" "c_node z = nd" "c_service z = st" "c_last_seqno z = 0" "c_replies z = replicate (nat (num_principals nd)) (c_blank_reply junk)"
    "c_robust_queue z = []" "c_out z = []"
proof -
  have "0 < num_principals nd" using assms(2,3) by (simp add: node_ok_def)
  then show "c_ready z" "c_node z = nd" "c_service z = st" "c_last_seqno z = 0" "c_replies z = replicate (nat (num_principals nd)) (c_blank_reply junk)"
    "c_robust_queue z = []" "c_out z = []"
    using assms by (auto simp: c_replica_new_def c_rep_info_new_def c_ready_def c_ok_def c_rep_ok_def c_blank_reply_def C_Reply_rep_size_def
        C_Max_rep_size_def is_replica_def split: if_splits)
qed

text \<open>The first replica moves 16 bytes that lie behind the authenticators: without them the move is out of bounds.\<close>

lemma head_needs_slack:
  assumes "node_ok nd" "max_faulty nd = 1" "0 < cid" "length buf < 56"
  shows "c_verify_auth c nd 0 cid s buf 16 = Inl Out_of_bounds"
  using assms by (simp add: c_verify_auth_def c_auth_size_f1 memmove_in_def C_UNonce_size_def C_UMAC_size_def node_ok_def Let_def)

text \<open>
  With \<open>f = 2\<close>, replica 1 moves the authenticators in the turn of the client, whose tag it has already
  removed: this removes the tag of replica 0 for replica 1.
\<close>

lemma two_faults_check:
  assumes "crypto_ok c" "node_ok nd" "max_faulty nd = 2" "node_id nd = 1" "6 < cid"
    and b: "block A" "block B" "block N" "block T" "block T'" "48 \<le> length R"
    and t: "T' \<noteq> cr_umac c (chan_key 0 1) s N"
  shows "c_verify_auth c nd 1 cid s (A @ B @ N @ T @ T' @ R) 16 = Inr (False, A @ B @ N @ T' @ take 48 R @ drop 40 R, 16)"
proof -
  have n: "num_replicas nd = 7" "7 \<le> num_principals nd" using assms(2,3) by (simp_all add: node_ok_def)
  let ?b = "A @ B @ N @ T' @ take 48 R @ drop 40 R"
  have "c_check_mac c nd 0 s ?b 16 = Inr False"
    using t c_check_mac_eq [of c nd 0 N T' s "A @ B" "take 48 R @ drop 40 R"] assms n by (simp add: block_def)
  moreover have "c_verify_loop c nd 1 cid s 2 (A @ B @ N @ T @ T' @ R) 16 72 = c_verify_loop c nd 1 cid s 1 ?b 16 72"
    using assms(3,5) n b(1-5) [THEN blockD] b(6) unfolding loop_one_unfold c_verify_loop.simps(2)
    by (simp add: C_UNonce_size_def C_UMAC_size_def memmove_in_def Let_def)
  ultimately show ?thesis
    using assms(3,5) n by (simp add: c_verify_auth_def c_auth_size_def C_UNonce_size_def C_UMAC_size_def Let_def)
qed

text \<open>Four replicas and a client for the examples below; slot 4 of the last replica is connected.\<close>

definition demo_new :: "nat \<Rightarrow> nat creplica" where
  "demo_new i = projr (c_replica_new (demo_node i) 1 0 0 0 0 [] 0 timers_new)"

definition demo_link :: "nat \<Rightarrow> nat creplica" where
  "demo_link i = (demo_new i)\<lparr>c_connectlist := replicate 4 0 @ 9 # replicate 995 0\<rparr>"

definition demo_caller :: cclient where
  "demo_caller = \<lparr>ccl_node = demo_node 4, ccl_out_rid = 7, ccl_out_req = None, ccl_nb_received = 0, ccl_n_retrans = 0,
     ccl_timers = timer_new 1 0 timers_new 500 0, ccl_rtimer = 0\<rparr>"

lemma demo_new_eq:
  assumes "i < 4"
  shows "c_replica_new (demo_node i) 1 0 0 0 0 [] 0 timers_new = Inr (demo_new i)"
  using demo_node_facts [of i] demo_node_new(2) [of i] assms
  by (simp add: demo_new_def c_replica_new_def c_rep_info_new_def is_replica_def)

lemma demo_link_facts:
  assumes "i < 4"
  shows "c_ready (demo_link i)" "c_node (demo_link i) = demo_node i" "c_service (demo_link i) = 0" "c_last_seqno (demo_link i) = 0"
    "c_replies (demo_link i) = replicate 5 (c_blank_reply 0)" "c_robust_queue (demo_link i) = []"
  using replica_new_ready [OF demo_new_eq [OF assms]] demo_node_facts [of i] assms
  by (simp_all add: demo_link_def c_ready_def c_ok_def)

lemma demo_chain: "c_chain [demo_link 0, demo_link 1, demo_link 2, demo_link 3]"
  using demo_link_facts [of 0] demo_link_facts [of 1] demo_link_facts [of 2] demo_link_facts [of 3] demo_node_facts [of 0] demo_node_facts [of 1]
    demo_node_facts [of 2] demo_node_facts [of 3] demo_node_new(2) [of 0] demo_node_new(2) [of 1] demo_node_new(2) [of 2] demo_node_new(2) [of 3]
  by (simp add: chain_four)

lemma request_exists:
  assumes "length junk = 59948" "length cmd \<le> 59000"
  shows "\<exists>req. rbind (c_request_new nd 0 ln pad od junk) (\<lambda>r. c_store_command r cmd) = Inr req"
  using assms by (simp add: c_request_new_def c_set_size_def c_msize_def C_Request_rep_size_def c_store_command_def put_bytes_def
      ALIGNED_SIZE_def ALIGNED_def ALIGNMENT_def Let_def)

definition demo_ask :: crequest where
  "demo_ask = \<lparr>cq_extra = 0, cq_size = 96, cq_listnum = 0, cq_pad = replicate 6 0,
     cq_od = Digest_of (short_bytes 4 @ u64_bytes 7 @ [5, 6]), cq_seq_num = 0, cq_command_size = 2, cq_cid = 4, cq_rid = 7, cq_tail = []\<rparr>"

lemma demo_head_executes:
  "\<exists>m z. c_receive demo_env [] (replicate 16 0) (demo_new 0) m = Inr z \<and> c_last_seqno z = 1 \<and> length (c_robust_queue z) = 1"
proof -
  note z = replica_new_ready [OF demo_new_eq [of 0]] and nd = demo_node_facts [of 0]
  let ?N = "replicate 8 0 :: byte list" and ?P = "replicate (c_padding [5, 6]) 0 :: byte list"
  let ?M = "cr_umac demo_crypto (chan_key 4 0) (c_bytes demo_ask 0) ?N"
  let ?m = "\<lambda>R. c_with demo_ask 0 4 [5, 6] (macs5 ?N ?M ?N ?N ?N R)"
  have r: "c_request_of demo_ask [5, 6]"
    by (simp add: c_request_of_def demo_ask_def ALIGNED_SIZE_def ALIGNED_def ALIGNMENT_def)
  have x: "c_expects demo_env (demo_new 0) demo_ask [5, 6] 1 [5, 6]"
    using z nd r by (simp add: c_expects_def new_reply_size_f1) (simp add: demo_ask_def c_blank_reply_def demo_env_def)
  have bl: "block ?N" "block ?M" using demo_crypto_ok by (simp_all add: block_def crypto_ok_def zl_UMAC_size_def)
  have c: "crypto_ok (e_crypto demo_env)" "node_id (c_node (demo_new 0)) = 0" using z nd demo_crypto_ok by (simp_all add: demo_env_def)
  have l: "16 \<le> length (?P @ replicate 16 0)" "c_padding [5, 6] \<le> length (?P @ replicate 16 (0 :: byte)) - 16" by simp_all
  have t: "?M = cr_umac (e_crypto demo_env) (chan_key (cq_cid demo_ask) 0) (c_bytes demo_ask 0) ?N" by (simp add: demo_env_def demo_ask_def)
  obtain z' where "c_handle_request demo_env (demo_new 0) (?m (?P @ replicate 16 0)) = Inr z'" "c_served (demo_new 0) demo_ask 1 z'"
    using hop_head [OF c(1) x c(2) bl bl(1) bl(1) bl(1) l t] by blast
  moreover from this have "c_receive demo_env [] (replicate 16 0) (demo_new 0) (?m ?P) = Inr z'"
    by (simp add: receive_eq [OF r bl bl(1) bl(1) bl(1)])
  ultimately show ?thesis using z nd by (auto simp: c_served_def)
qed

definition demo_config2 :: config where
  "demo_config2 = \<lparr>cf_max_faulty = 2, cf_num_principals = 8, cf_group = (99, 7000),
     cf_lines = map (\<lambda>i. \<lparr>cl_host = ''h'', cl_addr = of_nat i, cl_port = 6000, cl_pk = 15\<rparr>) [0..<8]\<rparr>"

definition demo_second :: node where
  "demo_second = projr (node_new demo_crypto demo_config2 (Some 1) 0 (Some (3, 5)) 1000)"

lemma demo_second_facts:
  "node_new demo_crypto demo_config2 (Some 1) 0 (Some (3, 5)) 1000 = Inr demo_second" "node_id demo_second = 1"
  by (simp_all add: demo_second_def node_new_def demo_config2_def Max_num_replicas_def Let_def upt_rec)

subsection \<open>Properties\<close>



text \<open>
  C10: in every state a chain replica reaches without being switched, whatever messages arrive and whenever
  checkpoints begin and end, the executed requests it has queued for its history carry the consecutive
  sequence numbers up to the last executed one, and a request is executed only once and after
  all requests of its client with smaller identifiers.
\<close>

theorem chain_execution_order:
  assumes "c_replica_new nd mhz j1 j2 junk old_nps old st tms = Inr z0" "c_reach z0 es z"
  shows "map cq_seq_num (c_robust_queue z) = [c_last_seqno z - int (length (c_robust_queue z)) + 1..c_last_seqno z] \<and>
    sorted_wrt (\<lambda>a b. cq_cid a = cq_cid b \<longrightarrow> cq_rid a < cq_rid b) (c_robust_queue z)"
  using reach_good [OF assms(2) replica_new_good [OF assms(1)]] by (simp add: c_good_def c_view_def c_log_ok.simps)

theorem chain_execution_order_witness:
  "\<exists>m z. c_reach (demo_new 0) [C_request m] z \<and> map cq_seq_num (c_robust_queue z) = [1]"
proof -
  obtain m z where z: "c_receive demo_env [] (replicate 16 0) (demo_new 0) m = Inr z" "c_last_seqno z = 1" "length (c_robust_queue z) = 1"
    using demo_head_executes by blast
  have "c_reach (demo_new 0) ([] @ [C_request m]) z"
    by (rule c_reach_step [OF c_reach_start step_request [OF z(1)]])
  then have r: "c_reach (demo_new 0) [C_request m] z" by simp
  have "map cq_seq_num (c_robust_queue z) = [1]"
    using chain_execution_order [OF demo_new_eq [of 0] r] z(2,3) by auto
  from r this show ?thesis by (intro exI conjI)
qed

text \<open>
  C16: requests that a chain replica has set aside during a checkpoint make it block: when the checkpoint is
  over, the next request that arrives runs into \<open>checkpointing_mutex\<close>, which the handler
  itself holds.
\<close>

theorem chain_pending_blocks:
  assumes "c_cur_state z = replica_state_NORMAL" "\<not> c_checkpoint_in_progress z"
    and "(if node_id (c_node z) = 0 then c_primary_pending z \<noteq> [] else c_pending_requests z \<noteq> [])"
  shows "c_handle_request E z req = Inl Deadlock"
proof (cases "c_checkpointing_mutex z")
  case False
  have "c_run_pending E (z\<lparr>c_checkpointing_mutex := True\<rparr>) = Inl Deadlock"
    using assms by (intro run_pending_blocks) (auto split: if_splits)
  then show ?thesis
    using assms False by (simp add: c_handle_request_def c_handle_with_def c_enter_def c_lock_def)
qed (use assms in \<open>simp add: c_handle_request_def c_handle_with_def c_enter_def c_lock_def\<close>)

theorem chain_pending_blocks_witness:
  "c_handle_request demo_env ((demo_new 0)\<lparr>c_primary_pending := [demo_ask]\<rparr>) demo_ask = Inl Deadlock"
proof (rule chain_pending_blocks)
  note z = replica_new_ready [OF demo_new_eq [of 0]] and nd = demo_node_facts [of 0]
  show "c_cur_state ((demo_new 0)\<lparr>c_primary_pending := [demo_ask]\<rparr>) = replica_state_NORMAL"
    "\<not> c_checkpoint_in_progress ((demo_new 0)\<lparr>c_primary_pending := [demo_ask]\<rparr>)"
    using z(1) nd by (simp_all add: c_ready_def)
  show "if node_id (c_node ((demo_new 0)\<lparr>c_primary_pending := [demo_ask]\<rparr>)) = 0
      then c_primary_pending ((demo_new 0)\<lparr>c_primary_pending := [demo_ask]\<rparr>) \<noteq> []
      else c_pending_requests ((demo_new 0)\<lparr>c_primary_pending := [demo_ask]\<rparr>) \<noteq> []"
    using z(2) nd by simp
qed

text \<open>
  C17: with \<open>f = 2\<close> the chain does not get past replica 1: whatever replica 0 has put behind the authenticators \<open>A\<close> of the
  client as its own authenticator, its nonce \<open>N\<close>, its tag \<open>T\<close> for replica 1 (right or not) and its tag for replica 2,
  replica 1 rejects the request, unless the tags of the two replicas happen to coincide.
\<close>

theorem chain_two_faults_rejected:
  assumes "crypto_ok c" "node_ok nd" "max_faulty nd = 2" "node_id nd = 1" "6 < cid"
    and "length A = 16" "length N = 8" "length T = 8" "48 \<le> length R"
    and "cr_umac c (chan_key 0 2) s N \<noteq> cr_umac c (chan_key 0 1) s N"
  shows "\<exists>b. c_verify_auth c nd 1 cid s (A @ N @ T @ cr_umac c (chan_key 0 2) s N @ R) 16 = Inr (False, b, 16)"
proof -
  have "block (take 8 A)" "block (drop 8 A)" "block N" "block T" "block (cr_umac c (chan_key 0 2) s N)"
    using assms(1,6-8) by (simp_all add: block_def crypto_ok_def zl_UMAC_size_def)
  from two_faults_check [OF assms(1-5) this assms(9,10)] show ?thesis
    unfolding append.assoc [of "take 8 A", symmetric] append_take_drop_id by blast
qed

theorem chain_two_faults_rejected_witness:
  "\<exists>b. c_verify_auth demo_crypto demo_second 1 7 [1, 2] (replicate 16 0 @ replicate 8 0 @
     cr_umac demo_crypto (chan_key 0 1) [1, 2] (replicate 8 0) @ cr_umac demo_crypto (chan_key 0 2) [1, 2] (replicate 8 0) @ replicate 48 0) 16 =
     Inr (False, b, 16)"
proof (rule chain_two_faults_rejected)
  have "length (cf_lines demo_config2) = nat (cf_num_principals demo_config2)" by (simp add: demo_config2_def)
  note f = node_new_facts [OF demo_second_facts(1) this]
  show "node_ok demo_second" "max_faulty demo_second = 2" using f by (simp_all add: demo_config2_def)
  show "cr_umac demo_crypto (chan_key 0 2) [1, 2] (replicate 8 0) \<noteq> cr_umac demo_crypto (chan_key 0 1) [1, 2] (replicate 8 0)"
    by (simp add: demo_crypto_def chan_key_def umac_key_def zl_Key_size_u_def upt_rec)
  show "length (cr_umac demo_crypto (chan_key 0 1) [1, 2] (replicate 8 0)) = 8"
    using demo_crypto_ok by (simp add: crypto_ok_def zl_UMAC_size_def)
qed (simp_all add: demo_crypto_ok demo_second_facts(2))

end
