(* ===== verification/Spec2Isabelle.thy ===== *)
theory Spec2Isabelle
  imports Prelude Arrays CountedSets Digests DSums ReqHistory Bitmaps Queues Registry Monitor Timers
    Wire ZNode Aborts Smashing ZRequests ZClient ZReplica ZExecution
    ZAgreement NoDeadlock ZSwitching ZLog ZCheckpoint ZService
    CNode CRequests CReplica CLog CChain CService
begin

text \<open>
  This library is about the Abstract code base: Byzantine fault-tolerant replication protocols that can be switched while the service
  runs. It covers the shared containers, digests, logs, timers and monitors (\<^verbatim>\<open>src/src/common\<close>,
  \<^verbatim>\<open>src/src/protocols/common\<close>), the whole ZLight protocol (\<^verbatim>\<open>src/src/protocols/zlight\<close>) and the request path of the Chain
  protocol (\<^verbatim>\<open>src/src/protocols/chain\<close>).

  \<^bold>\<open>The program.\<close> A client sends an authenticated request to the first replica (the primary of ZLight, the head
  of the chain). In ZLight the primary executes it and multicasts an order; every replica executes it and answers, and the client
  waits for matching replies of all \<open>3f + 1\<close> replicas. In Chain the request travels from replica to replica, each one
  executes it and adds its authenticator, and the last one answers. Replicas log what they execute, truncate the log when
  \<open>2f + 1\<close> of them have sent a checkpoint, and exchange abort messages with their histories when a protocol is to be
  given up; the histories are merged (\<open>Smasher\<close>) and the next protocol is started through the \<open>Switcher\<close>. The \<open>RobustMonitor\<close>
  dispatches messages and watches throughput.

  \<^bold>\<open>Modelling.\<close> A class is a record, a method is a definition on it, in the order of the source, with the branches of the
  source. Failures are values: \<open>'a result\<close> is a failure (assertion, access out of bounds, null pointer, uninitialised
  memory, a thread waiting for a mutex it holds, end of the process) or a value. Mutexes are flags. What a handler sends is appended to a
  log in its state. Integers that wrap in the source wrap in the model (machine words or \<open>wrap32\<close>). Clock readings, random
  numbers, uninitialised memory and the memory behind a message are arguments. Third-party code (UMAC, the Rabin
  system of sfslite, GMP, the replicated service) is a field of a record, with its documented laws as hypotheses (\<open>crypto_ok\<close>,
  \<open>mpn_ok\<close>) for which the witnesses give instances.

  \<^bold>\<open>Theories.\<close>
  \<^item> \<open>Prelude\<close>: results, loops, bytes and the rules \<open>post\<close> on results of operations.
  \<^item> \<open>Arrays\<close> (\<^verbatim>\<open>Array.h\<close>), \<open>CountedSets\<close> (\<^verbatim>\<open>Set.h\<close>, \<^verbatim>\<open>SCSet.h\<close>), \<open>Bitmaps\<close> (\<^verbatim>\<open>Bitmap.h\<close>),
    \<open>Queues\<close> (\<^verbatim>\<open>zl_Mes_queue\<close>, \<^verbatim>\<open>Blocking_circular_buffer\<close>), \<open>Timers\<close> (\<^verbatim>\<open>zl_ITimer\<close>): refinement of lists and sets, order and
    wake-ups of the buffer, firing of timers.
  \<^item> \<open>Digests\<close> (\<^verbatim>\<open>Digest\<close>, MD5), \<open>DSums\<close> (\<^verbatim>\<open>DSum\<close>), \<open>ReqHistory\<close> (\<^verbatim>\<open>Request_history\<close>): the streaming digest is that of the whole
    message, sums of digests, contents, lookup and truncation of the log.
  \<^item> \<open>Registry\<close> (\<^verbatim>\<open>Switcher.h\<close>) and \<open>Monitor\<close> (\<^verbatim>\<open>RobustMonitor\<close>): the linked lists on an explicit store, the table they implement
    and the states in which they do not; the grace period after a switch.
  \<^item> \<open>Wire\<close>, \<open>ZNode\<close>, \<open>ZRequests\<close> (\<^verbatim>\<open>zl_Message\<close>, \<^verbatim>\<open>zl_Node\<close>, \<^verbatim>\<open>zl_Principal\<close>, \<^verbatim>\<open>zl_Request\<close>, \<^verbatim>\<open>zl_Reply\<close> and others): messages as bytes,
    configuration, MAC vectors and signatures; what is generated is accepted.
  \<^item> \<open>Aborts\<close>, \<open>Smashing\<close> (\<^verbatim>\<open>zl_Abort\<close>, \<^verbatim>\<open>zl_Missing\<close>, \<^verbatim>\<open>zl_Get_a_grip\<close>, \<^verbatim>\<open>zl_Abort_certificate\<close>, \<^verbatim>\<open>zl_Smasher\<close>): round trip of abort
    messages, certificates count senders, the merged history keeps the agreed prefix.
  \<^item> \<open>ZClient\<close> (\<^verbatim>\<open>zl_Client\<close>, \<^verbatim>\<open>zl_Certificate\<close>) and \<open>ZReplica\<close> (\<^verbatim>\<open>zl_Replica\<close>, \<^verbatim>\<open>zl_Rep_info\<close>): every handler and timer callback.
    \<open>ZExecution\<close> refines the execution of a request to an abstract service with one stored reply per client;
    \<open>ZAgreement\<close> compares primary and backups; \<open>NoDeadlock\<close>, \<open>ZSwitching\<close>, \<open>ZLog\<close> and \<open>ZCheckpoint\<close> prove invariants of all reachable states
    of the step relation \<open>zstep\<close>; \<open>ZService\<close> composes a client with all replicas.
  \<^item> \<open>CNode\<close>, \<open>CRequests\<close>, \<open>CReplica\<close> (\<^verbatim>\<open>C_Node\<close>, \<^verbatim>\<open>C_Request\<close>, \<^verbatim>\<open>C_Reply\<close>, \<^verbatim>\<open>C_Rep_info\<close>, \<^verbatim>\<open>C_Replica\<close>): the authenticators of the chain, moved in
    place as in the source, and the path of a request through a replica. \<open>CLog\<close> is the invariant of the order of
    execution, \<open>CChain\<close> the client (\<^verbatim>\<open>C_Client\<close>, \<^verbatim>\<open>chain_libbyz.cc\<close>) and one lemma per hop, \<open>CService\<close> the composition and the properties.

  \<^bold>\<open>Interfaces.\<close> The locales \<open>growable_array\<close>, \<open>vote_box\<close>, \<open>incremental_hash\<close>, \<open>fifo_queue\<close>, \<open>protocol_table\<close>,
  \<open>vote_certificate\<close> and \<open>open_certificate\<close> state what a component promises to the ones that use it; each is interpreted on
  the definitions of the model.

  \<^bold>\<open>Bounds.\<close> Loops are structural recursions or end by a proved measure; list walks on an explicit store that may be
  cyclic are partial functions whose value \<open>None\<close> is divergence, and termination is proved where the list is well
  formed. There is no fuel. The end-to-end property of the chain is for \<open>f = 1\<close>, since for \<open>f = 2\<close> the code rejects
  its own authenticators, and commands of up to 59000 bytes, which fit into the 60000 bytes of a message.

  \<^bold>\<open>Not modelled.\<close> Sockets, threads and multicast set-up (input and output; received messages are arguments or lists);
  printing, statistics and measurements; UMAC and sfslite (third-party); the code behind the early return of the panic handler, which cannot be
  reached; recovery, checkpoint messages and switching of Chain, many of whose classes are copies of the modelled ZLight classes; the protocols
  Quorum and CBFT, whose messages are close to those of ZLight, and Ring, which has its own; PBFT and Aardvark, which are independent systems of their own
  size; Redis, the database benchmarks, the Java client, the LDAP headers and the installation scripts, which are applications of the
  replication library or tools around it.
\<close>

end
